(* ===== verification/HOOMD_Prelude.thy ===== *)
theory HOOMD_Prelude
  imports Main "HOL-Library.Word"
begin

text \<open>
  Shared vocabulary of the development: C++ exceptions as values, the outcome of a member
  function that may throw after it has already changed its object, raw memory operations
  (memset, memcpy) on lists, and the generic facts on lists that the component theories use.

  An object method is a function from the old state to a pair: \<open>Inl e\<close> if the method throws
  \<open>e\<close>, \<open>Inr v\<close> if it returns \<open>v\<close>, together with the state the object is left in. The state is
  part of the throwing outcome as well, because C++ does not roll an object back.
\<close>

section \<open>Collections of proof rules\<close>

named_theorems mem_simps \<open>equations for memory blocks held as lists\<close>
named_theorems outcome_simps \<open>equations for outcomes of throwing methods\<close>

section \<open>Exceptions and outcomes\<close>

datatype exn =
    Bad_alloc
  | Runtime_error string
  | Invalid_argument string
  | Out_of_range string
  | Domain_error string
  | Terminate \<comment> \<open>an exception that leaves a \<open>noexcept\<close> function\<close>

type_synonym ('a, 's) outcome = "(exn + 'a) \<times> 's"

definition obind :: "('a, 's) outcome \<Rightarrow> ('a \<Rightarrow> 's \<Rightarrow> ('b, 's) outcome) \<Rightarrow> ('b, 's) outcome" where
  "obind r f = (case r of (Inl e, s) \<Rightarrow> (Inl e, s) | (Inr v, s) \<Rightarrow> f v s)"

lemma obind_Inl [simp, outcome_simps]: "obind (Inl e, s) f = (Inl e, s)"
  by (simp add: obind_def)

lemma obind_Inr [simp, outcome_simps]: "obind (Inr v, s) f = f v s"
  by (simp add: obind_def)

lemma obind_eq_Inr [outcome_simps]:
  "obind r f = (Inr w, t) \<longleftrightarrow> (\<exists>v s. r = (Inr v, s) \<and> f v s = (Inr w, t))"
  by (auto simp: obind_def split: prod.splits sum.splits)

lemma obind_assoc: "obind (obind r f) g = obind r (\<lambda>v s. obind (f v s) g)"
  by (auto simp: obind_def split: prod.splits sum.splits)

definition throws :: "('a, 's) outcome \<Rightarrow> bool" where
  "throws r \<longleftrightarrow> (case fst r of Inl _ \<Rightarrow> True | Inr _ \<Rightarrow> False)"

lemma throws_simps [simp, outcome_simps]: "throws (Inl e, s)" "\<not> throws (Inr v, s)"
  by (simp_all add: throws_def)

text \<open>Numbers in messages, as the stream operators print them.\<close>

fun nat_str :: "nat \<Rightarrow> string" where
  "nat_str n = (if n < 10 then [char_of (48 + n)] else nat_str (n div 10) @ [char_of (48 + n mod 10)])"

declare nat_str.simps [simp del]

section \<open>Memory blocks\<close>

text \<open>A block of freshly allocated memory holds whatever the allocator left there.\<close>

definition fresh_block :: "nat \<Rightarrow> (nat \<Rightarrow> 'a) \<Rightarrow> 'a list" where
  "fresh_block n f = map f [0..<n]"

text \<open>\<open>memset(p + first, 0, n - first)\<close> on a block of \<open>n\<close> elements.\<close>

definition memset_from :: "nat \<Rightarrow> nat \<Rightarrow> 'a \<Rightarrow> 'a list \<Rightarrow> 'a list" where
  "memset_from first n z xs = take first xs @ replicate (n - first) z"

text \<open>\<open>memcpy(dst + at, src + from, n)\<close>: \<open>n\<close> elements, the rest of \<open>dst\<close> stays.\<close>

definition memcpy_at :: "nat \<Rightarrow> nat \<Rightarrow> nat \<Rightarrow> 'a list \<Rightarrow> 'a list \<Rightarrow> 'a list" where
  "memcpy_at at from n src dst = take at dst @ take n (drop from src) @ drop (at + n) dst"

lemma length_fresh_block [simp, mem_simps]: "length (fresh_block n f) = n"
  by (simp add: fresh_block_def)

lemma nth_fresh_block [simp, mem_simps]: "i < n \<Longrightarrow> fresh_block n f ! i = f i"
  by (simp add: fresh_block_def)

lemma length_memset_from [simp, mem_simps]:
  "first \<le> length xs \<Longrightarrow> length xs = n \<Longrightarrow> length (memset_from first n z xs) = n"
  by (simp add: memset_from_def)

lemma memset_from_0 [simp, mem_simps]: "memset_from 0 n z xs = replicate n z"
  by (simp add: memset_from_def)

lemma length_memcpy_at [simp, mem_simps]:
  "at + n \<le> length dst \<Longrightarrow> from + n \<le> length src \<Longrightarrow> length (memcpy_at at from n src dst) = length dst"
  by (simp add: memcpy_at_def)

lemma memcpy_at_all [simp, mem_simps]:
  "length src = n \<Longrightarrow> length dst = n \<Longrightarrow> memcpy_at 0 0 n src dst = src"
  by (simp add: memcpy_at_def)

lemma nth_memcpy_at [mem_simps]:
  assumes "at + n \<le> length dst" "from + n \<le> length src" "i < length dst"
  shows "memcpy_at at from n src dst ! i =
    (if at \<le> i \<and> i < at + n then src ! (from + (i - at)) else dst ! i)"
proof -
  have len: "length (take n (drop from src)) = n" "length (take at dst) = at"
    using assms by simp_all
  show ?thesis
    using assms by (auto simp: memcpy_at_def nth_append len simp del: length_take)
qed

lemma memcpy_at_prefix [mem_simps]:
  "n \<le> length src \<Longrightarrow> memcpy_at 0 0 n src dst = take n src @ drop n dst"
  by (simp add: memcpy_at_def)

lemma take_min_cong: "take k xs = take k ys \<Longrightarrow> take (min n k) xs = take (min n k) ys"
  by (metis take_take)

section \<open>Runs of operations and functional refinement\<close>

text \<open>
  A component is refined by an abstract machine when every concrete operation, started in a state
  that satisfies the invariant, returns what the abstract operation returns on the abstracted
  state and leaves a state whose abstraction is the abstract successor. The locale lifts that from
  one operation to every sequence of operations.
\<close>

fun run_ops :: "('op \<Rightarrow> 's \<Rightarrow> 'r \<times> 's) \<Rightarrow> 'op list \<Rightarrow> 's \<Rightarrow> 'r list \<times> 's" where
  "run_ops f [] s = ([], s)"
| "run_ops f (op # ops) s =
     (let (r, s1) = f op s; (rs, s2) = run_ops f ops s1 in (r # rs, s2))"

fun pre_run :: "('op \<Rightarrow> 'v \<Rightarrow> bool) \<Rightarrow> ('op \<Rightarrow> 'v \<Rightarrow> 'r \<times> 'v) \<Rightarrow> 'op list \<Rightarrow> 'v \<Rightarrow> bool" where
  "pre_run pre f [] v = True"
| "pre_run pre f (op # ops) v = (pre op v \<and> pre_run pre f ops (snd (f op v)))"

locale refinement =
  fixes inv :: "'s \<Rightarrow> bool"
    and abs :: "'s \<Rightarrow> 'v"
    and pre :: "'op \<Rightarrow> 'v \<Rightarrow> bool"
    and step :: "'op \<Rightarrow> 's \<Rightarrow> 'r \<times> 's"
    and spec :: "'op \<Rightarrow> 'v \<Rightarrow> 'r \<times> 'v"
  assumes inv_step: "inv s \<Longrightarrow> pre op (abs s) \<Longrightarrow> inv (snd (step op s))"
    and sim_res: "inv s \<Longrightarrow> pre op (abs s) \<Longrightarrow> fst (step op s) = fst (spec op (abs s))"
    and sim_abs: "inv s \<Longrightarrow> pre op (abs s) \<Longrightarrow> abs (snd (step op s)) = snd (spec op (abs s))"
begin

lemma run_refines:
  assumes "inv s" and "pre_run pre spec ops (abs s)"
  shows "inv (snd (run_ops step ops s)) \<and>
    fst (run_ops step ops s) = fst (run_ops spec ops (abs s)) \<and>
    abs (snd (run_ops step ops s)) = snd (run_ops spec ops (abs s))"
  using assms
proof (induction ops arbitrary: s)
  case Nil
  then show ?case by simp
next
  case (Cons op ops)
  then have *: "inv (snd (step op s))" "fst (step op s) = fst (spec op (abs s))"
      "abs (snd (step op s)) = snd (spec op (abs s))"
    by (auto intro: inv_step sim_res sim_abs)
  with Cons.prems Cons.IH [of "snd (step op s)"] show ?case
    by (simp add: split_beta)
qed

lemmas run_inv = run_refines [THEN conjunct1]
lemmas run_res = run_refines [THEN conjunct2, THEN conjunct1]
lemmas run_abs = run_refines [THEN conjunct2, THEN conjunct2]

end

end
