(* ===== verification/GPUArray.thy ===== *)
theory GPUArray
  imports HOOMD_Prelude
begin

text \<open>
  Model of \<open>hoomd/GPUArray.h\<close>: an array that is mirrored in host and device memory. The record
  \<open>gpu_array\<close> has the fields of class \<open>GPUArray\<close>; memory blocks are lists, the two smart pointers
  are optional blocks. The HIP runtime and the C allocator are not part of the sources: every
  operation that calls them takes a \<open>hip_env\<close> that says what these calls answer (failure codes,
  the content of fresh memory, pending errors).

  The build modelled is the one with \<open>ENABLE_HIP\<close>; log messages are left out and \<open>size_t\<close> sizes
  are natural numbers.
\<close>

section \<open>Data\<close>

datatype access_location = AL_host | AL_device

datatype data_location = DL_host | DL_device | DL_hostdevice

datatype access_mode = AM_read | AM_readwrite | AM_overwrite

record exec_conf =
  isCUDAEnabled :: bool
  isCUDAErrorCheckingEnabled :: bool
  canMapHostMemory :: bool

text \<open>What the runtime answers to an allocation request and to other calls.\<close>

datatype 'a hip_alloc = Hip_block "nat \<Rightarrow> 'a" | Hip_out_of_memory | Hip_failure string

datatype hip_site = At_register | At_malloc | At_memset | At_copy | At_row nat | At_memcpy

record 'a hip_env =
  zero_val :: 'a
  posix_memalign :: "nat \<Rightarrow> (nat \<Rightarrow> 'a) option"
  hipMalloc :: "nat \<Rightarrow> 'a hip_alloc"
  hipHostGetDevicePointer :: "unit hip_alloc"
  hip_error :: "hip_site \<Rightarrow> string option"

text \<open>With mapped memory the device pointer is an alias of the host block.\<close>

datatype 'a device_ptr = Dev_mem "'a list" | Host_mapped

record 'a gpu_array =
  m_num_elements :: nat
  m_pitch :: nat
  m_height :: nat
  m_acquired :: bool
  m_data_location :: data_location
  m_mapped :: bool
  d_data :: "'a device_ptr option"
  h_data :: "'a list option"
  m_exec_conf :: "exec_conf option"

text \<open>The data pointer a handle gives to its client.\<close>

datatype array_ptr = Null_ptr | Host_ptr | Device_ptr

type_synonym ('a, 'b) array_method = "('b, 'a gpu_array) outcome"

section \<open>Operations\<close>

definition getNumElements :: "'a gpu_array \<Rightarrow> nat" where
  "getNumElements a = m_num_elements a"

definition isNull :: "'a gpu_array \<Rightarrow> bool" where
  "isNull a \<longleftrightarrow> h_data a = None"

definition use_device :: "'a gpu_array \<Rightarrow> bool" where
  "use_device a = (case m_exec_conf a of None \<Rightarrow> False | Some c \<Rightarrow> isCUDAEnabled c)"

text \<open>The block behind the device pointer, and the block behind a handle.\<close>

definition device_block :: "'a gpu_array \<Rightarrow> 'a list option" where
  "device_block a = (case d_data a of None \<Rightarrow> None
     | Some Host_mapped \<Rightarrow> h_data a
     | Some (Dev_mem xs) \<Rightarrow> Some xs)"

definition set_device_block :: "'a list \<Rightarrow> 'a gpu_array \<Rightarrow> 'a gpu_array" where
  "set_device_block xs a = (case d_data a of None \<Rightarrow> a
     | Some Host_mapped \<Rightarrow> a\<lparr>h_data := Some xs\<rparr>
     | Some (Dev_mem _) \<Rightarrow> a\<lparr>d_data := Some (Dev_mem xs)\<rparr>)"

definition CHECK_CUDA_ERROR :: "'a hip_env \<Rightarrow> hip_site \<Rightarrow> 'a gpu_array \<Rightarrow> ('a, unit) array_method" where
  "CHECK_CUDA_ERROR env site a =
     (case hip_error env site of None \<Rightarrow> (Inr (), a) | Some msg \<Rightarrow> (Inl (Runtime_error msg), a))"

definition allocate :: "'a hip_env \<Rightarrow> 'a gpu_array \<Rightarrow> ('a, unit) array_method" where
  "allocate env a =
    (if m_num_elements a = 0 then (Inr (), a)
     else if m_mapped a \<and> (case m_exec_conf a of None \<Rightarrow> False | Some c \<Rightarrow> \<not> canMapHostMemory c)
     then (Inl (Runtime_error ''Error allocating GPUArray.''), a)
     else (case posix_memalign env (m_num_elements a) of
       None \<Rightarrow> (Inl Bad_alloc, a)
     | Some f \<Rightarrow>
       obind (if use_device a then CHECK_CUDA_ERROR env At_register a else (Inr (), a)) (\<lambda>_ a.
       let a = a\<lparr>h_data := Some (fresh_block (m_num_elements a) f)\<rparr> in
       if \<not> use_device a then (Inr (), a)
       else obind (CHECK_CUDA_ERROR env At_malloc a) (\<lambda>_ a.
         if m_mapped a then
           (case hipHostGetDevicePointer env of
              Hip_out_of_memory \<Rightarrow> (Inl Bad_alloc, a)
            | Hip_failure msg \<Rightarrow> (Inl (Runtime_error msg), a)
            | Hip_block _ \<Rightarrow> (Inr (), a\<lparr>d_data := Some Host_mapped\<rparr>))
         else
           (case hipMalloc env (m_num_elements a) of
              Hip_out_of_memory \<Rightarrow> (Inl Bad_alloc, a)
            | Hip_failure msg \<Rightarrow> (Inl (Runtime_error msg), a)
            | Hip_block g \<Rightarrow>
                (Inr (), a\<lparr>d_data := Some (Dev_mem (fresh_block (m_num_elements a) g))\<rparr>))))))"

definition memclear :: "'a hip_env \<Rightarrow> nat \<Rightarrow> 'a gpu_array \<Rightarrow> 'a gpu_array" where
  "memclear env first a =
    (case h_data a of None \<Rightarrow> a
     | Some h \<Rightarrow>
       let n = m_num_elements a;
           a = a\<lparr>h_data := Some (memset_from first n (zero_val env) h)\<rparr>
       in if use_device a \<and> \<not> m_mapped a
          then (case device_block a of None \<Rightarrow> a
                | Some d \<Rightarrow> set_device_block (memset_from first n (zero_val env) d) a)
          else a)"

text \<open>
  An asynchronous copy has the same effect once the client has synchronised with the device, as
  the documentation of \<open>ArrayHandleAsync\<close> requires before the data is used.
\<close>

definition memcpyDeviceToHost :: "'a hip_env \<Rightarrow> bool \<Rightarrow> 'a gpu_array \<Rightarrow> ('a, unit) array_method" where
  "memcpyDeviceToHost env async a =
    (case (h_data a, device_block a) of
       (Some h, Some d) \<Rightarrow>
         if m_mapped a then (Inr (), a)
         else let a = a\<lparr>h_data := Some (memcpy_at 0 0 (m_num_elements a) d h)\<rparr> in
           (case m_exec_conf a of None \<Rightarrow> (Inr (), a)
            | Some c \<Rightarrow> if isCUDAErrorCheckingEnabled c then CHECK_CUDA_ERROR env At_memcpy a
                        else (Inr (), a))
     | _ \<Rightarrow> (Inr (), a))"

definition memcpyHostToDevice :: "'a hip_env \<Rightarrow> bool \<Rightarrow> 'a gpu_array \<Rightarrow> ('a, unit) array_method" where
  "memcpyHostToDevice env async a =
    (case (h_data a, device_block a) of
       (Some h, Some d) \<Rightarrow>
         if m_mapped a then (Inr (), a)
         else let a = set_device_block (memcpy_at 0 0 (m_num_elements a) h d) a in
           (case m_exec_conf a of None \<Rightarrow> (Inr (), a)
            | Some c \<Rightarrow> if isCUDAErrorCheckingEnabled c then CHECK_CUDA_ERROR env At_memcpy a
                        else (Inr (), a))
     | _ \<Rightarrow> (Inr (), a))"

definition release :: "'a gpu_array \<Rightarrow> 'a gpu_array" where
  "release a = a\<lparr>m_acquired := False\<rparr>"

text \<open>
  \<open>return GPUArrayDispatch<T>(ptr, *this);\<close> in a function whose return type is the base class
  \<open>ArrayHandleDispatch<T>\<close>: the base part of the temporary is copied into the result and the
  temporary is destroyed at the end of the statement. Its destructor calls \<open>release()\<close>.
\<close>

definition return_GPUArrayDispatch :: "array_ptr \<Rightarrow> 'a gpu_array \<Rightarrow> ('a, array_ptr) array_method" where
  "return_GPUArrayDispatch p a = (Inr p, release a)"

definition acquire ::
  "'a hip_env \<Rightarrow> access_location \<Rightarrow> access_mode \<Rightarrow> bool \<Rightarrow> 'a gpu_array \<Rightarrow> ('a, array_ptr) array_method"
where
  "acquire env location mode async a =
    (if m_acquired a then (Inl (Runtime_error ''Cannot acquire access to array in use.''), a)
     else let a = a\<lparr>m_acquired := True\<rparr> in
     if isNull a then return_GPUArrayDispatch Null_ptr a
     else (case location of
       AL_host \<Rightarrow>
         (case m_data_location a of
            DL_host \<Rightarrow> return_GPUArrayDispatch Host_ptr a
          | DL_hostdevice \<Rightarrow>
              (case mode of
                 AM_read \<Rightarrow> return_GPUArrayDispatch Host_ptr (a\<lparr>m_data_location := DL_hostdevice\<rparr>)
               | AM_readwrite \<Rightarrow> return_GPUArrayDispatch Host_ptr (a\<lparr>m_data_location := DL_host\<rparr>)
               | AM_overwrite \<Rightarrow> return_GPUArrayDispatch Host_ptr (a\<lparr>m_data_location := DL_host\<rparr>))
          | DL_device \<Rightarrow>
              (case mode of
                 AM_read \<Rightarrow> obind (memcpyDeviceToHost env async a) (\<lambda>_ a.
                   return_GPUArrayDispatch Host_ptr (a\<lparr>m_data_location := DL_hostdevice\<rparr>))
               | AM_readwrite \<Rightarrow> obind (memcpyDeviceToHost env async a) (\<lambda>_ a.
                   return_GPUArrayDispatch Host_ptr (a\<lparr>m_data_location := DL_host\<rparr>))
               | AM_overwrite \<Rightarrow> return_GPUArrayDispatch Host_ptr (a\<lparr>m_data_location := DL_host\<rparr>)))
     | AL_device \<Rightarrow>
         (case m_exec_conf a of
            None \<Rightarrow> (Inl (Runtime_error
              ''Requesting device acquire, but we have no execution configuration''), a)
          | Some c \<Rightarrow>
            if \<not> isCUDAEnabled c then (Inl (Runtime_error ''Error acquiring data''), a)
            else (case m_data_location a of
               DL_host \<Rightarrow>
                 (case mode of
                    AM_read \<Rightarrow> obind (memcpyHostToDevice env async a) (\<lambda>_ a.
                      return_GPUArrayDispatch Device_ptr (a\<lparr>m_data_location := DL_hostdevice\<rparr>))
                  | AM_readwrite \<Rightarrow> obind (memcpyHostToDevice env async a) (\<lambda>_ a.
                      return_GPUArrayDispatch Device_ptr (a\<lparr>m_data_location := DL_device\<rparr>))
                  | AM_overwrite \<Rightarrow>
                      return_GPUArrayDispatch Device_ptr (a\<lparr>m_data_location := DL_device\<rparr>))
             | DL_hostdevice \<Rightarrow>
                 (case mode of
                    AM_read \<Rightarrow> return_GPUArrayDispatch Device_ptr (a\<lparr>m_data_location := DL_hostdevice\<rparr>)
                  | AM_readwrite \<Rightarrow> return_GPUArrayDispatch Device_ptr (a\<lparr>m_data_location := DL_device\<rparr>)
                  | AM_overwrite \<Rightarrow> return_GPUArrayDispatch Device_ptr (a\<lparr>m_data_location := DL_device\<rparr>))
             | DL_device \<Rightarrow> return_GPUArrayDispatch Device_ptr a))))"

text \<open>Reading and writing through the pointer of a handle.\<close>

definition read_ptr :: "array_ptr \<Rightarrow> 'a gpu_array \<Rightarrow> 'a list option" where
  "read_ptr p a = (case p of Null_ptr \<Rightarrow> None | Host_ptr \<Rightarrow> h_data a | Device_ptr \<Rightarrow> device_block a)"

definition write_ptr :: "array_ptr \<Rightarrow> 'a list \<Rightarrow> 'a gpu_array \<Rightarrow> 'a gpu_array" where
  "write_ptr p xs a = (case p of Null_ptr \<Rightarrow> a
     | Host_ptr \<Rightarrow> a\<lparr>h_data := Some xs\<rparr>
     | Device_ptr \<Rightarrow> set_device_block xs a)"

subsection \<open>Constructors, copy, move, swap\<close>

definition GPUArray_null :: "exec_conf option \<Rightarrow> 'a gpu_array" where
  "GPUArray_null ec = \<lparr>m_num_elements = 0, m_pitch = 0, m_height = 0, m_acquired = False,
     m_data_location = DL_host, m_mapped = False, d_data = None, h_data = None, m_exec_conf = ec\<rparr>"

definition GPUArray_1d ::
  "'a hip_env \<Rightarrow> nat \<Rightarrow> exec_conf option \<Rightarrow> bool \<Rightarrow> ('a, unit) array_method" where
  "GPUArray_1d env n ec mapped =
     obind (allocate env \<lparr>m_num_elements = n, m_pitch = n, m_height = 1, m_acquired = False,
       m_data_location = DL_host, m_mapped = mapped, d_data = None, h_data = None, m_exec_conf = ec\<rparr>)
     (\<lambda>_ a. (Inr (), memclear env 0 a))"

text \<open>\<open>width + (16 - (width & 15))\<close>\<close>

definition pad_pitch :: "nat \<Rightarrow> nat" where
  "pad_pitch width = width + (16 - width mod 16)"

definition GPUArray_2d ::
  "'a hip_env \<Rightarrow> nat \<Rightarrow> nat \<Rightarrow> exec_conf option \<Rightarrow> bool \<Rightarrow> ('a, unit) array_method" where
  "GPUArray_2d env width height ec mapped =
     obind (allocate env \<lparr>m_num_elements = pad_pitch width * height, m_pitch = pad_pitch width,
       m_height = height, m_acquired = False,
       m_data_location = DL_host, m_mapped = mapped, d_data = None, h_data = None, m_exec_conf = ec\<rparr>)
     (\<lambda>_ a. (Inr (), memclear env 0 a))"

text \<open>
  Copy construction and copy assignment read the source through a host handle, so the source is
  part of the state; both are \<open>noexcept\<close>.
\<close>

definition copy_host_data ::
  "'a hip_env \<Rightarrow> 'a gpu_array \<Rightarrow> 'a gpu_array \<Rightarrow> (unit, 'a gpu_array \<times> 'a gpu_array) outcome" where
  "copy_host_data env a from =
     (case acquire env AL_host AM_read False from of
        (Inl _, from) \<Rightarrow> (Inl Terminate, (a, from))
      | (Inr p, from) \<Rightarrow>
          (case (read_ptr p from, h_data a) of
             (Some src, Some dst) \<Rightarrow>
                (Inr (), (a\<lparr>h_data := Some (memcpy_at 0 0 (m_num_elements a) src dst)\<rparr>, from))
           | _ \<Rightarrow> (Inr (), (a, from))))"

definition GPUArray_copy ::
  "'a hip_env \<Rightarrow> 'a gpu_array \<Rightarrow> (unit, 'a gpu_array \<times> 'a gpu_array) outcome" where
  "GPUArray_copy env from =
     (case allocate env \<lparr>m_num_elements = m_num_elements from, m_pitch = m_pitch from,
         m_height = m_height from, m_acquired = False, m_data_location = DL_host,
         m_mapped = m_mapped from, d_data = None, h_data = None, m_exec_conf = m_exec_conf from\<rparr> of
        (Inl _, a) \<Rightarrow> (Inl Terminate, (a, from))
      | (Inr _, a) \<Rightarrow>
          let a = memclear env 0 a in
          if isNull from then (Inr (), (a, from)) else copy_host_data env a from)"

definition GPUArray_assign ::
  "'a hip_env \<Rightarrow> 'a gpu_array \<Rightarrow> 'a gpu_array \<Rightarrow> (unit, 'a gpu_array \<times> 'a gpu_array) outcome" where
  "GPUArray_assign env a rhs =
     (let a = a\<lparr>m_num_elements := m_num_elements rhs, m_pitch := m_pitch rhs, m_height := m_height rhs,
                m_exec_conf := m_exec_conf rhs, m_mapped := m_mapped rhs, m_data_location := DL_host\<rparr>
      in if isNull rhs then (Inr (), (a\<lparr>h_data := None, d_data := None\<rparr>, rhs))
      else (case allocate env a of
          (Inl _, a) \<Rightarrow> (Inl Terminate, (a, rhs))
        | (Inr _, a) \<Rightarrow> copy_host_data env (memclear env 0 a) rhs))"

text \<open>A moved-from array keeps its scalar fields; its pointers are null.\<close>

definition moved_from :: "'a gpu_array \<Rightarrow> 'a gpu_array" where
  "moved_from a = a\<lparr>d_data := None, h_data := None, m_exec_conf := None\<rparr>"

definition GPUArray_move :: "'a gpu_array \<Rightarrow> 'a gpu_array \<times> 'a gpu_array" where
  "GPUArray_move from =
     (\<lparr>m_num_elements = m_num_elements from, m_pitch = m_pitch from, m_height = m_height from,
       m_acquired = m_acquired from, m_data_location = m_data_location from,
       m_mapped = m_mapped from, d_data = d_data from, h_data = h_data from,
       m_exec_conf = m_exec_conf from\<rparr>, moved_from from)"

definition GPUArray_move_assign ::
  "'a gpu_array \<Rightarrow> 'a gpu_array \<Rightarrow> 'a gpu_array \<times> 'a gpu_array" where
  "GPUArray_move_assign a rhs =
     (a\<lparr>m_num_elements := m_num_elements rhs, m_pitch := m_pitch rhs, m_height := m_height rhs,
        m_exec_conf := m_exec_conf rhs, m_mapped := m_mapped rhs, d_data := d_data rhs,
        h_data := h_data rhs, m_data_location := m_data_location rhs,
        m_acquired := m_acquired rhs\<rparr>, moved_from rhs)"

definition GPUArray_swap :: "'a gpu_array \<Rightarrow> 'a gpu_array \<Rightarrow> 'a gpu_array \<times> 'a gpu_array" where
  "GPUArray_swap a b =
     (a\<lparr>m_num_elements := m_num_elements b, m_pitch := m_pitch b, m_height := m_height b,
        m_acquired := m_acquired b, m_data_location := m_data_location b,
        m_exec_conf := m_exec_conf b, d_data := d_data b, m_mapped := m_mapped b,
        h_data := h_data b\<rparr>,
      b\<lparr>m_num_elements := m_num_elements a, m_pitch := m_pitch a, m_height := m_height a,
        m_acquired := m_acquired a, m_data_location := m_data_location a,
        m_exec_conf := m_exec_conf a, d_data := d_data a, m_mapped := m_mapped a,
        h_data := h_data a\<rparr>)"

subsection \<open>Resizing\<close>

definition remap_device_ptr :: "'a gpu_array \<Rightarrow> 'a gpu_array" where
  "remap_device_ptr a = (if m_mapped a then a\<lparr>d_data := Some Host_mapped\<rparr> else a)"

definition resizeHostArray :: "'a hip_env \<Rightarrow> nat \<Rightarrow> 'a gpu_array \<Rightarrow> ('a, unit) array_method" where
  "resizeHostArray env num_elements a =
    (case h_data a of None \<Rightarrow> (Inr (), a)
     | Some h \<Rightarrow>
       (case posix_memalign env num_elements of
          None \<Rightarrow> (Inl Bad_alloc, a)
        | Some f \<Rightarrow>
          obind (if use_device a then CHECK_CUDA_ERROR env At_register a else (Inr (), a)) (\<lambda>_ a.
          let h_tmp = memset_from 0 num_elements (zero_val env) (fresh_block num_elements f);
              num_copy_elements =
                (if m_num_elements a > num_elements then num_elements else m_num_elements a);
              h_tmp = memcpy_at 0 0 num_copy_elements h h_tmp
          in (Inr (), remap_device_ptr (a\<lparr>h_data := Some h_tmp\<rparr>)))))"

definition resizeDeviceArray :: "'a hip_env \<Rightarrow> nat \<Rightarrow> 'a gpu_array \<Rightarrow> ('a, unit) array_method" where
  "resizeDeviceArray env num_elements a =
    obind (CHECK_CUDA_ERROR env At_malloc a) (\<lambda>_ a.
    if m_mapped a then (Inr (), a)
    else (case hipMalloc env num_elements of
        Hip_out_of_memory \<Rightarrow> (Inl Bad_alloc, a)
      | Hip_failure msg \<Rightarrow> (Inl (Runtime_error msg), a)
      | Hip_block f \<Rightarrow>
          let d_tmp = memset_from 0 num_elements (zero_val env) (fresh_block num_elements f);
              num_copy_elements =
                (if m_num_elements a > num_elements then num_elements else m_num_elements a)
          in obind (CHECK_CUDA_ERROR env At_memset a) (\<lambda>_ a.
             let d_tmp = (case device_block a of None \<Rightarrow> d_tmp
                          | Some d \<Rightarrow> memcpy_at 0 0 num_copy_elements d d_tmp)
             in obind (CHECK_CUDA_ERROR env At_copy a) (\<lambda>_ a.
                (Inr (), a\<lparr>d_data := Some (Dev_mem d_tmp)\<rparr>)))))"

text \<open>The row loop of the 2D resize: row \<open>i\<close> moves from pitch \<open>pitch\<close> to pitch \<open>new_pitch\<close>.\<close>

fun copy_rows :: "nat \<Rightarrow> nat \<Rightarrow> nat \<Rightarrow> nat \<Rightarrow> 'a list \<Rightarrow> 'a list \<Rightarrow> 'a list" where
  "copy_rows 0 new_pitch pitch cols src dst = dst"
| "copy_rows (Suc i) new_pitch pitch cols src dst =
     memcpy_at (i * new_pitch) (i * pitch) cols src (copy_rows i new_pitch pitch cols src dst)"

definition resize2DHostArray ::
  "'a hip_env \<Rightarrow> nat \<Rightarrow> nat \<Rightarrow> nat \<Rightarrow> nat \<Rightarrow> 'a gpu_array \<Rightarrow> ('a, unit) array_method" where
  "resize2DHostArray env pitch new_pitch height new_height a =
    (case posix_memalign env (new_pitch * new_height) of
       None \<Rightarrow> (Inl Bad_alloc, a)
     | Some f \<Rightarrow>
       obind (if use_device a then CHECK_CUDA_ERROR env At_register a else (Inr (), a)) (\<lambda>_ a.
       let n = new_pitch * new_height;
           h_tmp = memset_from 0 n (zero_val env) (fresh_block n f);
           num_copy_rows = (if height > new_height then new_height else height);
           num_copy_columns = (if pitch > new_pitch then new_pitch else pitch);
           h_tmp = (case h_data a of None \<Rightarrow> h_tmp
             | Some h \<Rightarrow> copy_rows num_copy_rows new_pitch pitch num_copy_columns h h_tmp)
       in (Inr (), remap_device_ptr (a\<lparr>h_data := Some h_tmp\<rparr>))))"

fun check_rows :: "'a hip_env \<Rightarrow> nat \<Rightarrow> 'a gpu_array \<Rightarrow> ('a, unit) array_method" where
  "check_rows env 0 a = (Inr (), a)"
| "check_rows env (Suc i) a =
     obind (check_rows env i a) (\<lambda>_ a. CHECK_CUDA_ERROR env (At_row i) a)"

definition resize2DDeviceArray ::
  "'a hip_env \<Rightarrow> nat \<Rightarrow> nat \<Rightarrow> nat \<Rightarrow> nat \<Rightarrow> 'a gpu_array \<Rightarrow> ('a, unit) array_method" where
  "resize2DDeviceArray env pitch new_pitch height new_height a =
    obind (CHECK_CUDA_ERROR env At_malloc a) (\<lambda>_ a.
    if m_mapped a then (Inr (), a)
    else (case hipMalloc env (new_pitch * new_height) of
        Hip_out_of_memory \<Rightarrow> (Inl Bad_alloc, a)
      | Hip_failure msg \<Rightarrow> (Inl (Runtime_error msg), a)
      | Hip_block f \<Rightarrow>
          let n = new_pitch * new_height;
              d_tmp = memset_from 0 n (zero_val env) (fresh_block n f);
              num_copy_rows = (if height > new_height then new_height else height);
              num_copy_columns = (if pitch > new_pitch then new_pitch else pitch)
          in obind (CHECK_CUDA_ERROR env At_memset a) (\<lambda>_ a.
             let d_tmp = (case device_block a of None \<Rightarrow> d_tmp
               | Some d \<Rightarrow> copy_rows num_copy_rows new_pitch pitch num_copy_columns d d_tmp)
             in obind (check_rows env num_copy_rows a) (\<lambda>_ a.
                (Inr (), a\<lparr>d_data := Some (Dev_mem d_tmp)\<rparr>)))))"

definition resize :: "'a hip_env \<Rightarrow> nat \<Rightarrow> 'a gpu_array \<Rightarrow> ('a, unit) array_method" where
  "resize env num_elements a =
    (if isNull a then allocate env (a\<lparr>m_num_elements := num_elements\<rparr>)
     else obind (resizeHostArray env num_elements a) (\<lambda>_ a.
          obind (if use_device a then resizeDeviceArray env num_elements a else (Inr (), a)) (\<lambda>_ a.
          (Inr (), a\<lparr>m_num_elements := num_elements, m_pitch := num_elements\<rparr>))))"

definition resize2D :: "'a hip_env \<Rightarrow> nat \<Rightarrow> nat \<Rightarrow> 'a gpu_array \<Rightarrow> ('a, unit) array_method" where
  "resize2D env width height a =
    (let new_pitch = pad_pitch width;
         num_elements = new_pitch * height
     in if isNull a then
          obind (allocate env (a\<lparr>m_num_elements := num_elements\<rparr>)) (\<lambda>_ a.
          (Inr (), a\<lparr>m_pitch := new_pitch, m_height := height\<rparr>))
        else
          obind (resize2DHostArray env (m_pitch a) new_pitch (m_height a) height a) (\<lambda>_ a.
          obind (if use_device a
                 then resize2DDeviceArray env (m_pitch a) new_pitch (m_height a) height a
                 else (Inr (), a)) (\<lambda>_ a.
          (Inr (), a\<lparr>m_num_elements := new_pitch * height, m_height := height,
                     m_pitch := new_pitch\<rparr>))))"

section \<open>Invariant, abstraction and frame lemmas\<close>

definition device_ok :: "'a gpu_array \<Rightarrow> bool" where
  "device_ok a = (case d_data a of None \<Rightarrow> False
     | Some Host_mapped \<Rightarrow> m_mapped a
     | Some (Dev_mem d) \<Rightarrow> \<not> m_mapped a \<and> length d = m_num_elements a)"

text \<open>
  No acquire is pending, the blocks have the recorded size, device data exist only if there is a
  device, and the two copies agree when the array claims to be valid in both places.
\<close>

definition gpu_array_ok :: "'a gpu_array \<Rightarrow> bool" where
  "gpu_array_ok a \<longleftrightarrow> \<not> m_acquired a \<and>
     (case h_data a of
        None \<Rightarrow> d_data a = None \<and> m_data_location a = DL_host
      | Some h \<Rightarrow> 0 < m_num_elements a \<and> length h = m_num_elements a \<and>
          (if use_device a
           then device_ok a \<and> (m_data_location a = DL_hostdevice \<longrightarrow> device_block a = h_data a)
           else m_data_location a = DL_host))"

definition dims_ok :: "'a gpu_array \<Rightarrow> bool" where
  "dims_ok a \<longleftrightarrow> m_num_elements a = m_pitch a * m_height a"

text \<open>The value the array stands for: the block that was written last.\<close>

definition contents :: "'a gpu_array \<Rightarrow> 'a list option" where
  "contents a = (case m_data_location a of DL_device \<Rightarrow> device_block a | _ \<Rightarrow> h_data a)"

lemma use_device_upd [simp]:
  "use_device (a\<lparr>m_num_elements := n\<rparr>) = use_device a"
  "use_device (a\<lparr>m_pitch := p\<rparr>) = use_device a"
  "use_device (a\<lparr>m_height := hh\<rparr>) = use_device a"
  "use_device (a\<lparr>m_acquired := b\<rparr>) = use_device a"
  "use_device (a\<lparr>m_data_location := l\<rparr>) = use_device a"
  "use_device (a\<lparr>d_data := d\<rparr>) = use_device a"
  "use_device (a\<lparr>h_data := h\<rparr>) = use_device a"
  by (simp_all add: use_device_def)

lemma device_block_upd [simp]:
  "device_block (a\<lparr>m_num_elements := n\<rparr>) = device_block a"
  "device_block (a\<lparr>m_pitch := p\<rparr>) = device_block a"
  "device_block (a\<lparr>m_height := hh\<rparr>) = device_block a"
  "device_block (a\<lparr>m_acquired := b\<rparr>) = device_block a"
  "device_block (a\<lparr>m_data_location := l\<rparr>) = device_block a"
  by (simp_all add: device_block_def split: option.splits device_ptr.splits)

lemma use_device_set_device_block [simp]: "use_device (set_device_block xs a) = use_device a"
  by (simp add: set_device_block_def split: option.splits device_ptr.splits)

lemma set_device_block_fields [simp]:
  "m_num_elements (set_device_block xs a) = m_num_elements a"
  "m_pitch (set_device_block xs a) = m_pitch a"
  "m_height (set_device_block xs a) = m_height a"
  "m_acquired (set_device_block xs a) = m_acquired a"
  "m_data_location (set_device_block xs a) = m_data_location a"
  "m_mapped (set_device_block xs a) = m_mapped a"
  "m_exec_conf (set_device_block xs a) = m_exec_conf a"
  by (simp_all add: set_device_block_def split: option.splits device_ptr.splits)

lemma device_block_set [simp]:
  "d_data a \<noteq> None \<Longrightarrow> device_block (set_device_block xs a) = Some xs"
  by (auto simp: set_device_block_def device_block_def split: option.splits device_ptr.splits)

lemma device_ok_set [simp]:
  "device_ok a \<Longrightarrow> length xs = m_num_elements a \<Longrightarrow> device_ok (set_device_block xs a)"
  by (auto simp: device_ok_def set_device_block_def split: option.splits device_ptr.splits)

lemma check_cuda_error_simps:
  "CHECK_CUDA_ERROR env site a = (Inr u, a') \<longleftrightarrow> hip_error env site = None \<and> a' = a"
  by (auto simp: CHECK_CUDA_ERROR_def split: option.splits)

lemma device_ok_upd [simp]:
  "device_ok (a\<lparr>m_acquired := b\<rparr>) = device_ok a"
  "device_ok (a\<lparr>m_data_location := l\<rparr>) = device_ok a"
  "device_ok (a\<lparr>h_data := h\<rparr>) = device_ok a"
  by (simp_all add: device_ok_def split: option.splits device_ptr.splits)

lemma device_ok_d_data: "device_ok a \<Longrightarrow> \<exists>p. d_data a = Some p"
  by (auto simp: device_ok_def split: option.splits)

lemma device_okE:
  assumes "device_ok a" "h_data a = Some h" "length h = m_num_elements a"
  obtains (mapped) "m_mapped a" "d_data a = Some Host_mapped" "device_block a = Some h"
  | (device) d where "\<not> m_mapped a" "d_data a = Some (Dev_mem d)" "device_block a = Some d"
      "length d = m_num_elements a"
  using assms by (auto simp: device_ok_def device_block_def split: option.splits device_ptr.splits)

lemma gpu_array_ok_null:
  "gpu_array_ok a \<Longrightarrow> isNull a \<Longrightarrow> contents a = None"
  by (auto simp: gpu_array_ok_def isNull_def contents_def split: option.splits)

section \<open>Copies between host and device\<close>

lemma memcpyDeviceToHost_ok:
  assumes "device_ok a" "h_data a = Some h" "length h = m_num_elements a"
    and "memcpyDeviceToHost env async a = (Inr u, a')"
  shows "a' = a\<lparr>h_data := device_block a\<rparr>"
  using assms(1-3)
proof (cases rule: device_okE)
  case mapped
  then show ?thesis
    using assms(2,4) by (simp add: memcpyDeviceToHost_def)
next
  case (device d)
  then show ?thesis
    using assms(2-4)
    by (auto simp: memcpyDeviceToHost_def Let_def check_cuda_error_simps
        split: option.splits if_splits)
qed

lemma memcpyHostToDevice_ok:
  assumes "device_ok a" "h_data a = Some h" "length h = m_num_elements a"
    and "memcpyHostToDevice env async a = (Inr u, a')"
  shows "a' = set_device_block h a"
  using assms(1-3)
proof (cases rule: device_okE)
  case mapped
  then show ?thesis
    using assms(2,4) by (simp add: memcpyHostToDevice_def set_device_block_def)
next
  case (device d)
  then show ?thesis
    using assms(2-4)
    by (auto simp: memcpyHostToDevice_def Let_def check_cuda_error_simps
        split: option.splits if_splits)
qed

section \<open>Acquiring a handle\<close>

lemmas acquire_unfold =
  acquire_def return_GPUArrayDispatch_def release_def Let_def isNull_def

lemma acquire_null [simp]:
  "isNull a \<Longrightarrow> \<not> m_acquired a \<Longrightarrow>
    acquire env loc mode async a = (Inr Null_ptr, a)"
  by (simp add: acquire_unfold)

lemma acquire_in_use [simp]:
  "m_acquired a \<Longrightarrow> acquire env loc mode async a =
    (Inl (Runtime_error ''Cannot acquire access to array in use.''), a)"
  by (simp add: acquire_unfold)

lemma acquire_released:
  "acquire env loc mode async a = (Inr p, a') \<Longrightarrow> \<not> m_acquired a'"
  by (auto simp: acquire_unfold outcome_simps
      split: if_splits access_location.splits data_location.splits access_mode.splits option.splits)

lemma acquire_host:
  assumes ok: "gpu_array_ok a" and h: "h_data a = Some h"
    and acq: "acquire env AL_host mode async a = (Inr p, a')"
  shows "p = Host_ptr \<and> gpu_array_ok a' \<and> use_device a' = use_device a \<and>
    m_num_elements a' = m_num_elements a \<and> h_data a' \<noteq> None \<and>
    (mode \<noteq> AM_overwrite \<longrightarrow> h_data a' = contents a \<and> contents a' = contents a) \<and>
    (mode \<noteq> AM_read \<longrightarrow> m_data_location a' = DL_host)"
proof (cases "m_data_location a = DL_device")
  case False
  then show ?thesis
    using ok h acq
    by (auto simp: acquire_unfold gpu_array_ok_def contents_def
        split: data_location.splits access_mode.splits if_splits)
next
  case True
  let ?b = "a\<lparr>m_acquired := True\<rparr>"
  have dev: "use_device a" "device_ok ?b" "length h = m_num_elements ?b" "\<not> m_acquired a"
    using ok h True by (auto simp: gpu_array_ok_def split: if_splits)
  then obtain d where d: "device_block a = Some d" "length d = m_num_elements a"
    using device_okE [of ?b h] h by auto
  have copy: "memcpyDeviceToHost env async ?b = (Inr u, b) \<Longrightarrow> b = ?b\<lparr>h_data := Some d\<rparr>" for u b
    using memcpyDeviceToHost_ok [of ?b h] dev h d by simp
  have blk: "device_block (a\<lparr>h_data := Some d\<rparr>) = Some d"
    using d by (auto simp: device_block_def split: option.splits device_ptr.splits)
  show ?thesis
    using ok h acq True dev d blk
    by (cases mode)
      (auto simp: acquire_unfold gpu_array_ok_def contents_def outcome_simps dest!: copy)
qed

lemma acquire_device:
  assumes ok: "gpu_array_ok a" and h: "h_data a = Some h"
    and acq: "acquire env AL_device mode async a = (Inr p, a')"
  shows "p = Device_ptr \<and> gpu_array_ok a' \<and> use_device a \<and> use_device a' \<and>
    m_num_elements a' = m_num_elements a \<and> h_data a' \<noteq> None \<and>
    (mode \<noteq> AM_overwrite \<longrightarrow> device_block a' = contents a \<and> contents a' = contents a) \<and>
    (mode \<noteq> AM_read \<longrightarrow> m_data_location a' = DL_device)"
proof -
  have dev: "use_device a"
    using acq ok h by (auto simp: acquire_unfold use_device_def gpu_array_ok_def
        split: option.splits if_splits)
  show ?thesis
  proof (cases "m_data_location a = DL_host")
    case False
    then show ?thesis
      using ok h acq dev
      by (auto simp: acquire_unfold gpu_array_ok_def contents_def
          split: data_location.splits access_mode.splits option.splits if_splits)
  next
    case True
    let ?b = "a\<lparr>m_acquired := True\<rparr>"
    have dev': "device_ok ?b" "length h = m_num_elements ?b" "\<not> m_acquired a" "d_data a \<noteq> None"
      using ok h dev by (auto simp: gpu_array_ok_def dest: device_ok_d_data)
    have copy: "memcpyHostToDevice env async ?b = (Inr u, b) \<Longrightarrow> b = set_device_block h ?b" for u b
      using memcpyHostToDevice_ok [of ?b h] dev' h by simp
    have hd: "h_data (set_device_block h ?b) = Some h"
      using h by (simp add: set_device_block_def split: option.splits device_ptr.splits)
    show ?thesis
      using ok h acq True dev dev' hd
      by (cases mode)
        (auto simp: acquire_unfold gpu_array_ok_def contents_def outcome_simps
          split: option.splits if_splits dest!: copy)
  qed
qed

section \<open>Handle sessions refine a plain array\<close>

text \<open>
  A session is what client code does with one handle: acquire, look at the data, write them back
  unless the handle is read-only. In overwrite mode the data may not be looked at, so the session
  reports nothing and the function that produces the new data must not depend on the old ones.
\<close>

datatype 'a access = Access "'a hip_env" access_location access_mode bool "'a list \<Rightarrow> 'a list"

fun handle_session :: "'a access \<Rightarrow> 'a gpu_array \<Rightarrow> ('a, 'a list option) array_method" where
  "handle_session (Access env loc mode async f) a =
     obind (acquire env loc mode async a) (\<lambda>p a.
       (Inr (if mode = AM_overwrite then None else read_ptr p a),
        if mode = AM_read then a
        else (case read_ptr p a of None \<Rightarrow> a | Some xs \<Rightarrow> write_ptr p (f xs) a)))"

definition array_abs :: "'a gpu_array \<Rightarrow> 'a list option \<times> bool" where
  "array_abs a = (contents a, use_device a)"

fun access_spec :: "'a access \<Rightarrow> 'a list option \<times> bool \<Rightarrow>
    (exn + 'a list option) \<times> 'a list option \<times> bool" where
  "access_spec (Access env loc mode async f) (v, g) =
     (Inr (if mode = AM_overwrite then None else v),
      (if mode = AM_read then v else map_option f v, g))"

fun access_pre :: "'a access \<Rightarrow> 'a list option \<times> bool \<Rightarrow> bool" where
  "access_pre (Access env loc mode async f) (v, g) \<longleftrightarrow>
     hip_error env At_memcpy = None \<and> (loc = AL_device \<longrightarrow> g) \<and>
     (\<forall>xs. length (f xs) = length xs) \<and>
     (mode = AM_overwrite \<longrightarrow> (\<forall>xs ys. length xs = length ys \<longrightarrow> f xs = f ys))"

lemma gpu_array_ok_contents:
  assumes "gpu_array_ok a" "h_data a = Some h"
  shows "\<exists>xs. contents a = Some xs \<and> length xs = m_num_elements a"
proof (cases "use_device a")
  case True
  then have "device_ok a" "length h = m_num_elements a"
    using assms by (auto simp: gpu_array_ok_def)
  note len = this(2)
  from \<open>device_ok a\<close> assms(2) len show ?thesis
    by (cases rule: device_okE) (auto simp: contents_def assms(2) len split: data_location.split)
next
  case False
  then show ?thesis using assms by (auto simp: gpu_array_ok_def contents_def)
qed

lemma memcpy_returns:
  assumes "hip_error env At_memcpy = None"
  shows "\<exists>a'. memcpyDeviceToHost env async a = (Inr (), a')"
    and "\<exists>a'. memcpyHostToDevice env async a = (Inr (), a')"
  using assms
  by (auto simp: memcpyDeviceToHost_def memcpyHostToDevice_def CHECK_CUDA_ERROR_def Let_def
      split: option.split)

lemma acquire_returns:
  assumes "gpu_array_ok a" "hip_error env At_memcpy = None" "loc = AL_device \<longrightarrow> use_device a"
  shows "\<exists>p a'. acquire env loc mode async a = (Inr p, a')"
proof -
  have "\<not> m_acquired a" using assms(1) by (simp add: gpu_array_ok_def)
  moreover obtain a1 a2 where
    "memcpyDeviceToHost env async (a\<lparr>m_acquired := True\<rparr>) = (Inr (), a1)"
    "memcpyHostToDevice env async (a\<lparr>m_acquired := True\<rparr>) = (Inr (), a2)"
    using memcpy_returns [OF assms(2)] by blast
  ultimately show ?thesis
    using assms(3)
    by (auto simp: acquire_def return_GPUArrayDispatch_def Let_def use_device_def
        split: access_location.split data_location.split access_mode.split option.split)
qed

lemma write_ptr_ok:
  assumes "gpu_array_ok a" "h_data a = Some h" "length xs = m_num_elements a"
    and "m_data_location a = (case p of Host_ptr \<Rightarrow> DL_host | _ \<Rightarrow> DL_device)" "p \<noteq> Null_ptr"
  shows "gpu_array_ok (write_ptr p xs a) \<and> contents (write_ptr p xs a) = Some xs \<and>
    use_device (write_ptr p xs a) = use_device a"
proof (cases p)
  case Host_ptr
  then show ?thesis
    using assms by (auto simp: write_ptr_def gpu_array_ok_def contents_def)
next
  case Device_ptr
  moreover have "use_device a" "device_ok a"
    using assms Device_ptr by (auto simp: gpu_array_ok_def split: if_splits)
  moreover have "\<exists>h'. h_data (set_device_block xs a) = Some h' \<and> length h' = m_num_elements a"
    using assms by (auto simp: set_device_block_def gpu_array_ok_def
        split: option.splits device_ptr.splits)
  ultimately show ?thesis
    using assms device_ok_d_data [of a] device_ok_set [of a xs]
    by (auto simp: write_ptr_def gpu_array_ok_def contents_def)
qed (use assms in simp)

lemma acquire_spec:
  assumes "gpu_array_ok a" "h_data a = Some h" "acquire env loc mode async a = (Inr p, a')"
  shows "p = (case loc of AL_host \<Rightarrow> Host_ptr | AL_device \<Rightarrow> Device_ptr) \<and> gpu_array_ok a' \<and>
    use_device a' = use_device a \<and> m_num_elements a' = m_num_elements a \<and> h_data a' \<noteq> None \<and>
    (mode \<noteq> AM_overwrite \<longrightarrow> read_ptr p a' = contents a \<and> contents a' = contents a) \<and>
    (mode \<noteq> AM_read \<longrightarrow> m_data_location a' = (case p of Host_ptr \<Rightarrow> DL_host | _ \<Rightarrow> DL_device))"
proof (cases loc)
  case AL_host
  then show ?thesis using acquire_host [of a h env mode async p a'] assms by (simp add: read_ptr_def)
next
  case AL_device
  then show ?thesis using acquire_device [of a h env mode async p a'] assms by (simp add: read_ptr_def)
qed

lemma read_ptr_length:
  assumes "gpu_array_ok a" "h_data a \<noteq> None" "p = Device_ptr \<longrightarrow> use_device a" "p \<noteq> Null_ptr"
  shows "\<exists>xs. read_ptr p a = Some xs \<and> length xs = m_num_elements a"
proof (cases p)
  case Host_ptr
  then show ?thesis using assms by (auto simp: read_ptr_def gpu_array_ok_def)
next
  case Device_ptr
  then obtain h where "h_data a = Some h" "device_ok a" "length h = m_num_elements a"
    using assms by (auto simp: gpu_array_ok_def)
  from this(2,1,3) show ?thesis
    by (cases rule: device_okE) (auto simp: read_ptr_def Device_ptr \<open>length h = _\<close>)
qed (use assms in simp)

lemma handle_session_null:
  assumes "gpu_array_ok a" "h_data a = None"
  shows "handle_session (Access env loc mode async f) a = (Inr None, a)"
    and "contents a = None"
  using assms gpu_array_ok_null [of a]
  by (simp_all add: isNull_def gpu_array_ok_def read_ptr_def)

lemma handle_session_data:
  assumes ok: "gpu_array_ok a" and h: "h_data a = Some h" and c: "contents a = Some ys"
    and acq: "acquire env loc mode async a = (Inr p, b)"
    and len: "\<And>xs. length (f xs) = length xs"
    and const: "\<And>xs. mode = AM_overwrite \<Longrightarrow> length xs = length ys \<Longrightarrow> f xs = f ys"
  shows "\<exists>a'. handle_session (Access env loc mode async f) a =
      (Inr (if mode = AM_overwrite then None else Some ys), a') \<and>
    gpu_array_ok a' \<and> use_device a' = use_device a \<and>
    contents a' = Some (if mode = AM_read then ys else f ys)"
proof -
  note sp = acquire_spec [OF ok h acq]
  have dev: "p = Device_ptr \<longrightarrow> use_device b"
    using acquire_device [OF ok h, of env mode async p b] acq sp by (cases loc) auto
  obtain xs where xs: "read_ptr p b = Some xs" "length xs = m_num_elements b"
    using sp dev read_ptr_length [of b p] by (cases loc) auto
  have "length ys = m_num_elements a"
    using gpu_array_ok_contents [OF ok h] c by simp
  then have fxs: "mode \<noteq> AM_read \<Longrightarrow> f xs = f ys"
    using const [of xs] xs sp c by (cases mode) auto
  have w: "mode \<noteq> AM_read \<Longrightarrow> gpu_array_ok (write_ptr p (f xs) b) \<and>
      contents (write_ptr p (f xs) b) = Some (f xs) \<and>
      use_device (write_ptr p (f xs) b) = use_device b"
    using write_ptr_ok [of b _ "f xs" p] sp xs len by (cases loc) auto
  show ?thesis
    using acq sp xs w fxs c by (cases mode) simp_all
qed

lemma handle_session_refines:
  assumes ok: "gpu_array_ok a" and pre: "access_pre op (array_abs a)"
  shows "gpu_array_ok (snd (handle_session op a)) \<and>
    fst (handle_session op a) = fst (access_spec op (array_abs a)) \<and>
    array_abs (snd (handle_session op a)) = snd (access_spec op (array_abs a))"
proof (cases op)
  case (Access env loc mode async f)
  show ?thesis
  proof (cases "h_data a")
    case None
    then show ?thesis
      using ok handle_session_null [OF ok None] unfolding Access
      by (simp add: array_abs_def del: handle_session.simps)
  next
    case (Some h)
    have f: "hip_error env At_memcpy = None" "loc = AL_device \<longrightarrow> use_device a"
        "\<forall>xs. length (f xs) = length xs"
        "mode = AM_overwrite \<longrightarrow> (\<forall>xs ys. length xs = length ys \<longrightarrow> f xs = f ys)"
      using pre unfolding Access array_abs_def access_pre.simps by blast+
    obtain p b where acq: "acquire env loc mode async a = (Inr p, b)"
      using acquire_returns [OF ok f(1,2)] by blast
    obtain ys where ys: "contents a = Some ys"
      using gpu_array_ok_contents [OF ok Some] by blast
    obtain a' where "handle_session op a =
        (Inr (if mode = AM_overwrite then None else Some ys), a')" "gpu_array_ok a'"
        "use_device a' = use_device a" "contents a' = Some (if mode = AM_read then ys else f ys)"
      using handle_session_data [OF ok Some ys acq, of f] f(3,4) unfolding Access by blast
    then show ?thesis
      by (simp add: array_abs_def ys Access del: handle_session.simps)
  qed
qed

interpretation handles: refinement gpu_array_ok array_abs access_pre handle_session access_spec
  by unfold_locales (auto dest: handle_session_refines)

section \<open>Allocation\<close>

lemma allocate_ok:
  assumes "allocate env a = (Inr u, a')" "0 < m_num_elements a"
  shows "\<exists>f. posix_memalign env (m_num_elements a) = Some f \<and>
    (if \<not> use_device a then a' = a\<lparr>h_data := Some (fresh_block (m_num_elements a) f)\<rparr>
     else if m_mapped a
     then a' = a\<lparr>h_data := Some (fresh_block (m_num_elements a) f), d_data := Some Host_mapped\<rparr>
     else \<exists>g. a' = a\<lparr>h_data := Some (fresh_block (m_num_elements a) f),
       d_data := Some (Dev_mem (fresh_block (m_num_elements a) g))\<rparr>)"
  using assms
  by (auto simp: allocate_def Let_def outcome_simps check_cuda_error_simps
      split: option.splits if_splits hip_alloc.splits)

text \<open>Allocation followed by \<open>memclear\<close>: what every allocating constructor establishes.\<close>

lemma allocate_memclear:
  assumes "allocate env a = (Inr u, b)" "0 < m_num_elements a" "\<not> m_acquired a"
    and "m_data_location a = DL_host"
  shows "gpu_array_ok (memclear env 0 b) \<and>
    contents (memclear env 0 b) = Some (replicate (m_num_elements a) (zero_val env)) \<and>
    m_data_location (memclear env 0 b) = DL_host \<and> use_device (memclear env 0 b) = use_device a \<and>
    m_num_elements (memclear env 0 b) = m_num_elements a \<and>
    m_pitch (memclear env 0 b) = m_pitch a \<and> m_height (memclear env 0 b) = m_height a"
proof -
  let ?n = "m_num_elements a"
  from allocate_ok [OF assms(1,2)] consider
    (host) f where "\<not> use_device a" "b = a\<lparr>h_data := Some (fresh_block ?n f)\<rparr>"
  | (mapped) f where "use_device a" "m_mapped a"
      "b = a\<lparr>h_data := Some (fresh_block ?n f), d_data := Some Host_mapped\<rparr>"
  | (device) f g where "use_device a" "\<not> m_mapped a"
      "b = a\<lparr>h_data := Some (fresh_block ?n f), d_data := Some (Dev_mem (fresh_block ?n g))\<rparr>"
    by (auto split: if_splits)
  then show ?thesis
  proof cases
    case host
    then show ?thesis
      using assms(2-4) by (simp add: memclear_def Let_def gpu_array_ok_def contents_def)
  next
    case mapped
    then show ?thesis
      using assms(2-4) by (simp add: memclear_def Let_def gpu_array_ok_def contents_def device_ok_def)
  next
    case device
    then show ?thesis
      using assms(2-4)
      by (simp add: memclear_def Let_def gpu_array_ok_def contents_def device_ok_def device_block_def
          set_device_block_def)
  qed
qed

section \<open>Resizing\<close>

lemma resizeHostArray_ok:
  assumes "resizeHostArray env n a = (Inr u, a')" "h_data a = Some h"
    and "length h = m_num_elements a"
  shows "a' = remap_device_ptr (a\<lparr>h_data := Some (take n h @ replicate (n - length h) (zero_val env))\<rparr>)"
  using assms
  by (auto simp: resizeHostArray_def Let_def outcome_simps check_cuda_error_simps memcpy_at_def
      split: option.splits if_splits)

lemma resizeDeviceArray_ok:
  assumes "resizeDeviceArray env n a = (Inr u, a')" "device_block a = Some d"
    and "\<not> m_mapped a" "length d = m_num_elements a"
  shows "a' = a\<lparr>d_data := Some (Dev_mem (take n d @ replicate (n - length d) (zero_val env)))\<rparr>"
  using assms
  by (auto simp: resizeDeviceArray_def Let_def outcome_simps check_cuda_error_simps memcpy_at_def
      split: option.splits if_splits hip_alloc.splits)

lemma resizeDeviceArray_mapped:
  assumes "resizeDeviceArray env n a = (Inr u, a')" "m_mapped a"
  shows "a' = a"
  using assms by (auto simp: resizeDeviceArray_def outcome_simps check_cuda_error_simps)

text \<open>The value of a block after a 1D resize.\<close>

definition resized :: "nat \<Rightarrow> 'a \<Rightarrow> 'a list \<Rightarrow> 'a list" where
  "resized n z xs = take n xs @ replicate (n - length xs) z"

lemma length_resized [simp]: "length (resized n z xs) = n"
  by (simp add: resized_def)

lemmas resizeHostArray_resized = resizeHostArray_ok [folded resized_def]
lemmas resizeDeviceArray_resized = resizeDeviceArray_ok [folded resized_def]

lemma resize_ok:
  assumes res: "resize env n a = (Inr u, a')" and ok: "gpu_array_ok a" and h: "h_data a = Some h"
    and n: "0 < n"
  shows "gpu_array_ok a' \<and> contents a' = map_option (resized n (zero_val env)) (contents a) \<and>
    m_num_elements a' = n \<and> m_pitch a' = n \<and> m_height a' = m_height a \<and> use_device a' = use_device a"
proof -
  have len: "length h = m_num_elements a" and nacq: "\<not> m_acquired a"
    using ok h by (simp_all add: gpu_array_ok_def)
  obtain b c where b: "resizeHostArray env n a = (Inr (), b)"
      and c: "(if use_device b then resizeDeviceArray env n b else (Inr (), b)) = (Inr (), c)"
      and a': "a' = c\<lparr>m_num_elements := n, m_pitch := n\<rparr>"
    using res h by (auto simp: resize_def isNull_def outcome_simps)
  have b': "b = remap_device_ptr (a\<lparr>h_data := Some (resized n (zero_val env) h)\<rparr>)"
    using resizeHostArray_resized [OF b h len] .
  show ?thesis
  proof (cases "use_device a")
    case False
    then show ?thesis
      using a' c b' ok h nacq n
      by (auto simp: gpu_array_ok_def contents_def remap_device_ptr_def split: if_splits)
  next
    case True
    then have "device_ok a" using ok h by (simp add: gpu_array_ok_def)
    from this h len show ?thesis
    proof (cases rule: device_okE)
      case mapped
      then have "c = b"
        using c True b' resizeDeviceArray_mapped [of env n b "()" c]
        by (simp add: remap_device_ptr_def)
      then show ?thesis
        using a' b' ok h nacq n True mapped
        by (auto simp: gpu_array_ok_def contents_def remap_device_ptr_def device_ok_def
            device_block_def split: data_location.splits)
    next
      case (device d)
      have bb: "b = a\<lparr>h_data := Some (resized n (zero_val env) h)\<rparr>"
        using b' device by (simp add: remap_device_ptr_def)
      have "c = b\<lparr>d_data := Some (Dev_mem (resized n (zero_val env) d))\<rparr>"
        using c True device resizeDeviceArray_resized [of env n b "()" c d]
        by (simp add: bb device_block_def)
      then show ?thesis
        using a' bb ok h nacq n True device
        by (auto simp: gpu_array_ok_def contents_def device_ok_def device_block_def
            split: data_location.splits)
    qed
  qed
qed

subsection \<open>Rows of a 2D array\<close>

lemma length_copy_rows:
  "k * np \<le> length dst \<Longrightarrow> k * p \<le> length src \<Longrightarrow> cols \<le> np \<Longrightarrow> cols \<le> p \<Longrightarrow>
    length (copy_rows k np p cols src dst) = length dst"
  by (induction k) auto

lemma row_index_eq:
  fixes i j k np :: nat
  assumes "j < np" "i \<noteq> k"
  shows "\<not> (k * np \<le> i * np + j \<and> i * np + j < k * np + np)"
proof (cases "i < k")
  case True
  then have "Suc i * np \<le> k * np" by (intro mult_le_mono1) simp
  then show ?thesis using assms by simp
next
  case False
  then have "Suc k * np \<le> i * np" using assms by (intro mult_le_mono1) simp
  then show ?thesis by simp
qed

lemma nth_copy_rows:
  assumes "k * np \<le> length dst" "k * p \<le> length src" "cols \<le> np" "cols \<le> p"
    and "j < np" "i * np + j < length dst"
  shows "copy_rows k np p cols src dst ! (i * np + j) =
    (if i < k \<and> j < cols then src ! (i * p + j) else dst ! (i * np + j))"
  using assms
proof (induction k)
  case 0
  then show ?case by simp
next
  case (Suc k)
  let ?d = "copy_rows k np p cols src dst"
  have len: "length ?d = length dst"
    using Suc.prems by (intro length_copy_rows) auto
  have IH: "?d ! (i * np + j) = (if i < k \<and> j < cols then src ! (i * p + j) else dst ! (i * np + j))"
    using Suc by simp
  have "copy_rows (Suc k) np p cols src dst ! (i * np + j) =
      (if k * np \<le> i * np + j \<and> i * np + j < k * np + cols
       then src ! (k * p + (i * np + j - k * np)) else ?d ! (i * np + j))"
    using Suc.prems len by (simp add: nth_memcpy_at)
  also have "\<dots> = (if i < Suc k \<and> j < cols then src ! (i * p + j) else dst ! (i * np + j))"
  proof (cases "i = k")
    case True
    then show ?thesis using IH by auto
  next
    case False
    with row_index_eq [OF Suc.prems(5) False] Suc.prems(3) IH show ?thesis by auto
  qed
  finally show ?case .
qed

text \<open>The value of a block after a 2D resize.\<close>

definition resized2D :: "nat \<Rightarrow> nat \<Rightarrow> nat \<Rightarrow> nat \<Rightarrow> 'a \<Rightarrow> 'a list \<Rightarrow> 'a list" where
  "resized2D pitch new_pitch height new_height z xs =
     copy_rows (min height new_height) new_pitch pitch (min pitch new_pitch) xs
       (replicate (new_pitch * new_height) z)"

lemma resized2D_nth:
  assumes "length xs = pitch * height" "i < new_height" "j < new_pitch"
  shows "resized2D pitch new_pitch height new_height z xs ! (i * new_pitch + j) =
    (if i < height \<and> j < pitch then xs ! (i * pitch + j) else z)"
proof -
  have "Suc i * new_pitch \<le> new_height * new_pitch"
    using assms by (intro mult_le_mono1) simp
  then have lt: "i * new_pitch + j < new_pitch * new_height"
    using assms by (simp add: mult.commute)
  show ?thesis
    unfolding resized2D_def using assms lt
    by (subst nth_copy_rows) (auto simp: min_def mult.commute)
qed

lemma length_resized2D:
  "length xs = pitch * height \<Longrightarrow>
    length (resized2D pitch new_pitch height new_height z xs) = new_pitch * new_height"
  unfolding resized2D_def by (subst length_copy_rows) (auto simp: min_def mult.commute)

lemma resize2DHostArray_ok:
  assumes "resize2DHostArray env p np hh nh a = (Inr u, a')" "h_data a = Some h"
  shows "a' = remap_device_ptr (a\<lparr>h_data := Some (resized2D p np hh nh (zero_val env) h)\<rparr>)"
  using assms
  by (auto simp: resize2DHostArray_def Let_def outcome_simps check_cuda_error_simps resized2D_def
      min_def split: option.splits if_splits)

lemma check_rows_ok: "check_rows env k a = (Inr u, a') \<Longrightarrow> a' = a"
  by (induction k arbitrary: a') (auto simp: outcome_simps check_cuda_error_simps)

lemma resize2DDeviceArray_ok:
  assumes "resize2DDeviceArray env p np hh nh a = (Inr u, a')" "device_block a = Some d" "\<not> m_mapped a"
  shows "a' = a\<lparr>d_data := Some (Dev_mem (resized2D p np hh nh (zero_val env) d))\<rparr>"
  using assms
  by (auto simp: resize2DDeviceArray_def Let_def outcome_simps check_cuda_error_simps resized2D_def
      min_def dest!: check_rows_ok split: option.splits if_splits hip_alloc.splits)

lemma resize2DDeviceArray_mapped:
  assumes "resize2DDeviceArray env p np hh nh a = (Inr u, a')" "m_mapped a"
  shows "a' = a"
  using assms by (auto simp: resize2DDeviceArray_def outcome_simps check_cuda_error_simps)

lemma resize2D_ok:
  assumes res: "resize2D env width height a = (Inr u, a')" and ok: "gpu_array_ok a"
    and h: "h_data a = Some h" and dims: "dims_ok a" and height: "0 < height"
  shows "gpu_array_ok a' \<and> dims_ok a' \<and> m_pitch a' = pad_pitch width \<and> m_height a' = height \<and>
    use_device a' = use_device a \<and>
    contents a' = map_option
      (resized2D (m_pitch a) (pad_pitch width) (m_height a) height (zero_val env)) (contents a)"
proof -
  let ?np = "pad_pitch width"
  let ?r = "resized2D (m_pitch a) ?np (m_height a) height (zero_val env)"
  have np: "0 < ?np * height" using height by (simp add: pad_pitch_def)
  have len: "length h = m_num_elements a" and nacq: "\<not> m_acquired a"
    using ok h by (simp_all add: gpu_array_ok_def)
  have lr: "length (?r xs) = ?np * height" if "length xs = m_num_elements a" for xs
    using that dims by (intro length_resized2D) (simp add: dims_ok_def)
  obtain b c where b: "resize2DHostArray env (m_pitch a) ?np (m_height a) height a = (Inr (), b)"
      and c: "(if use_device b then resize2DDeviceArray env (m_pitch b) ?np (m_height b) height b
        else (Inr (), b)) = (Inr (), c)"
      and a': "a' = c\<lparr>m_num_elements := ?np * height, m_height := height, m_pitch := ?np\<rparr>"
    using res h by (auto simp: resize2D_def isNull_def outcome_simps Let_def)
  have b': "b = remap_device_ptr (a\<lparr>h_data := Some (?r h)\<rparr>)"
    using resize2DHostArray_ok [OF b h] .
  show ?thesis
  proof (cases "use_device a")
    case False
    then show ?thesis
      using a' c b' ok h nacq np lr [OF len]
      by (auto simp: gpu_array_ok_def contents_def remap_device_ptr_def dims_ok_def
          split: if_splits)
  next
    case True
    then have "device_ok a" using ok h by (simp add: gpu_array_ok_def)
    from this h len show ?thesis
    proof (cases rule: device_okE)
      case mapped
      then have "c = b"
        using c True b' resize2DDeviceArray_mapped [of env _ ?np _ height b "()" c]
        by (simp add: remap_device_ptr_def)
      then show ?thesis
        using a' b' ok h nacq np lr [OF len] True mapped
        by (auto simp: gpu_array_ok_def contents_def remap_device_ptr_def device_ok_def
            device_block_def dims_ok_def split: data_location.splits)
    next
      case (device d)
      have bb: "b = a\<lparr>h_data := Some (?r h)\<rparr>"
        using b' device by (simp add: remap_device_ptr_def)
      have "c = b\<lparr>d_data := Some (Dev_mem (?r d))\<rparr>"
        using c True device resize2DDeviceArray_ok [of env "m_pitch a" ?np "m_height a" height b "()" c d]
        by (simp add: bb device_block_def)
      then show ?thesis
        using a' bb ok h nacq np lr [OF len] lr [OF device(4)] True device
        by (auto simp: gpu_array_ok_def contents_def device_ok_def device_block_def dims_ok_def
            split: data_location.splits)
    qed
  qed
qed

section \<open>Copying\<close>

lemma copy_host_data_ok:
  assumes "copy_host_data env a from = (Inr u, (a', from'))"
    and "gpu_array_ok a" "m_data_location a = DL_host" "h_data a = Some dst"
    and "gpu_array_ok from" "h_data from = Some h" "m_num_elements a = m_num_elements from"
  shows "gpu_array_ok a' \<and> contents a' = contents from \<and> gpu_array_ok from' \<and>
    contents from' = contents from"
proof -
  obtain p where acq: "acquire env AL_host AM_read False from = (Inr p, from')"
    using assms(1) by (auto simp: copy_host_data_def split: prod.splits sum.splits option.splits)
  note sp = acquire_host [OF assms(5,6) acq]
  obtain xs where xs: "contents from = Some xs" "length xs = m_num_elements from"
    using gpu_array_ok_contents [OF assms(5,6)] by blast
  have "a' = a\<lparr>h_data := Some xs\<rparr>"
    using assms sp xs acq by (auto simp: copy_host_data_def read_ptr_def gpu_array_ok_def)
  then show ?thesis
    using assms sp xs by (auto simp: gpu_array_ok_def contents_def split: if_splits)
qed

section \<open>A small concrete array\<close>

definition demo_env :: "nat hip_env" where
  "demo_env = \<lparr>zero_val = 0, posix_memalign = (\<lambda>n. Some (\<lambda>i. 99)), hipMalloc = (\<lambda>n. Hip_block (\<lambda>i. 77)),
     hipHostGetDevicePointer = Hip_block (\<lambda>_. ()), hip_error = (\<lambda>_. None)\<rparr>"

definition demo_gpu :: exec_conf where
  "demo_gpu = \<lparr>isCUDAEnabled = True, isCUDAErrorCheckingEnabled = False, canMapHostMemory = True\<rparr>"

definition demo_cpu :: exec_conf where
  "demo_cpu = \<lparr>isCUDAEnabled = False, isCUDAErrorCheckingEnabled = False, canMapHostMemory = False\<rparr>"

definition demo_array :: "nat gpu_array" where
  "demo_array = \<lparr>m_num_elements = 3, m_pitch = 3, m_height = 1, m_acquired = False,
     m_data_location = DL_device, m_mapped = False, d_data = Some (Dev_mem [1, 2, 3]),
     h_data = Some [0, 0, 0], m_exec_conf = Some demo_gpu\<rparr>"

lemmas demo_defs = demo_env_def demo_gpu_def demo_cpu_def demo_array_def

lemma demo_array_ok: "gpu_array_ok demo_array" "contents demo_array = Some [1, 2, 3]"
  "h_data demo_array = Some [0, 0, 0]" "dims_ok demo_array"
  by (simp_all add: demo_defs gpu_array_ok_def device_ok_def use_device_def contents_def
      device_block_def dims_ok_def)

section \<open>Properties\<close>

text \<open>C1: Every sequence of handle sessions on a GPUArray behaves like the same sequence on one
  plain array: each session sees exactly the data that the last writing session left, whatever mix
  of host and device accesses, access modes, mapped or separate memory is used, and the array stays
  well formed.\<close>

theorem handle_sessions_coherent:
  assumes "gpu_array_ok a" and "pre_run access_pre access_spec ops (array_abs a)"
  shows "fst (run_ops handle_session ops a) = fst (run_ops access_spec ops (array_abs a)) \<and>
    contents (snd (run_ops handle_session ops a)) = fst (snd (run_ops access_spec ops (array_abs a))) \<and>
    gpu_array_ok (snd (run_ops handle_session ops a))"
  using handles.run_refines [OF assms] by (auto simp: array_abs_def dest: arg_cong [where f = fst])

definition demo_ops :: "nat access list" where
  "demo_ops = [Access demo_env AL_device AM_readwrite False (map Suc),
     Access demo_env AL_host AM_read False id,
     Access demo_env AL_host AM_overwrite False (\<lambda>xs. replicate (length xs) 9),
     Access demo_env AL_device AM_read True id]"

theorem handle_sessions_coherent_witness:
  "fst (run_ops handle_session demo_ops demo_array) =
     [Inr (Some [1, 2, 3]), Inr (Some [2, 3, 4]), Inr None, Inr (Some [9, 9, 9])]"
proof -
  have abs: "array_abs demo_array = (Some [1, 2, 3], True)"
    by (simp add: array_abs_def demo_array_ok) (simp add: demo_defs use_device_def)
  have pre: "pre_run access_pre access_spec demo_ops (array_abs demo_array)"
    unfolding abs by (simp add: demo_ops_def demo_env_def)
  show ?thesis
    using handle_sessions_coherent [OF demo_array_ok(1) pre]
    unfolding abs by (simp add: demo_ops_def numeral_3_eq_3)
qed

text \<open>C2: Resizing a 1D array that holds data keeps the common prefix of the current contents,
  fills the rest with zeros, records the new size and keeps the array well formed, wherever the
  current data live.\<close>

theorem resize_keeps_data:
  assumes "gpu_array_ok a" and "contents a = Some xs" and "0 < n"
    and "resize env n a = (Inr u, a')"
  shows "contents a' = Some (take n xs @ replicate (n - length xs) (zero_val env)) \<and>
    getNumElements a' = n \<and> gpu_array_ok a'"
proof -
  obtain h where h: "h_data a = Some h"
    using assms(1,2) gpu_array_ok_null [of a] by (cases "h_data a") (auto simp: isNull_def)
  show ?thesis
    using resize_ok [OF assms(4,1) h assms(3)] assms(2)
    by (simp add: resized_def getNumElements_def)
qed

theorem resize_keeps_data_witness:
  "contents (snd (resize demo_env 5 demo_array)) = Some [1, 2, 3, 0, 0]"
proof -
  have r: "resize demo_env 5 demo_array = (Inr (), snd (resize demo_env 5 demo_array))"
    by (simp add: resize_def resizeHostArray_def resizeDeviceArray_def isNull_def demo_defs
        CHECK_CUDA_ERROR_def use_device_def remap_device_ptr_def Let_def)
  show ?thesis
    using resize_keeps_data [OF demo_array_ok(1,2) _ r]
    by (simp add: demo_env_def numeral_eq_Suc)
qed

text \<open>C3: Resizing a 2D array that holds data keeps every element that exists in both the old and
  the new layout at its row and column, zeroes all other elements, leaves the number of
  elements equal to pitch times height, and makes the rows long enough for the width.\<close>

theorem resize2D_keeps_elements:
  assumes "gpu_array_ok a" and "dims_ok a" and "contents a = Some xs" and "0 < height"
    and "resize2D env width height a = (Inr u, a')"
  shows "\<exists>ys. contents a' = Some ys \<and> length ys = m_pitch a' * height \<and> dims_ok a' \<and>
    gpu_array_ok a' \<and> width \<le> m_pitch a' \<and>
    (\<forall>i j. i < height \<and> j < m_pitch a' \<longrightarrow> ys ! (i * m_pitch a' + j) =
      (if i < m_height a \<and> j < m_pitch a then xs ! (i * m_pitch a + j) else zero_val env))"
proof -
  obtain h where h: "h_data a = Some h"
    using assms(1,3) gpu_array_ok_null [of a] by (cases "h_data a") (auto simp: isNull_def)
  have len: "length xs = m_pitch a * m_height a"
    using gpu_array_ok_contents [OF assms(1) h] assms(2,3) by (simp add: dims_ok_def)
  show ?thesis
    using resize2D_ok [OF assms(5,1) h assms(2,4)] assms(3)
    by (auto simp: resized2D_nth [OF len] length_resized2D [OF len] pad_pitch_def)
qed

definition demo_array2D :: "nat gpu_array" where
  "demo_array2D = \<lparr>m_num_elements = 4, m_pitch = 2, m_height = 2, m_acquired = False,
     m_data_location = DL_host, m_mapped = False, d_data = None,
     h_data = Some [1, 2, 3, 4], m_exec_conf = Some demo_cpu\<rparr>"

theorem resize2D_keeps_elements_witness:
  "\<exists>ys. contents (snd (resize2D demo_env 3 3 demo_array2D)) = Some ys \<and>
     ys ! 16 = 3 \<and> ys ! 17 = 4 \<and> ys ! 18 = 0 \<and> ys ! 32 = 0"
proof -
  let ?r = "snd (resize2D demo_env 3 3 demo_array2D)"
  have r: "resize2D demo_env 3 3 demo_array2D = (Inr (), ?r)"
    by (simp add: resize2D_def resize2DHostArray_def isNull_def demo_array2D_def demo_defs
        use_device_def remap_device_ptr_def Let_def)
  have p: "m_pitch ?r = 16"
    by (simp add: resize2D_def resize2DHostArray_def isNull_def demo_array2D_def demo_defs
        use_device_def remap_device_ptr_def Let_def pad_pitch_def)
  have ok: "gpu_array_ok demo_array2D" "dims_ok demo_array2D"
      "contents demo_array2D = Some [1, 2, 3, 4]"
    by (simp_all add: demo_array2D_def demo_cpu_def gpu_array_ok_def dims_ok_def contents_def
        use_device_def)
  obtain ys where ys: "contents ?r = Some ys" and el: "\<forall>i j. i < 3 \<and> j < 16 \<longrightarrow> ys ! (i * 16 + j) =
      (if i < m_height demo_array2D \<and> j < m_pitch demo_array2D
       then [1, 2, 3, 4] ! (i * m_pitch demo_array2D + j) else zero_val demo_env)"
    using resize2D_keeps_elements [OF ok _ r] unfolding p by auto
  show ?thesis
    using ys el [rule_format, of 1 0] el [rule_format, of 1 1] el [rule_format, of 1 2]
      el [rule_format, of 2 0]
    by (simp add: demo_array2D_def demo_env_def)
qed

text \<open>C4: Copy assignment makes the target hold the current contents of the source, even if these
  live on the device, and does not change what the source holds.\<close>

theorem assign_copies_contents:
  assumes "gpu_array_ok rhs" and "contents rhs = Some xs" and "\<not> m_acquired a"
    and "GPUArray_assign env a rhs = (Inr u, (a', rhs'))"
  shows "contents a' = Some xs \<and> contents rhs' = Some xs \<and> gpu_array_ok a' \<and> gpu_array_ok rhs'"
proof -
  obtain h where h: "h_data rhs = Some h"
    using assms(1,2) gpu_array_ok_null [of rhs] by (cases "h_data rhs") (auto simp: isNull_def)
  let ?a = "a\<lparr>m_num_elements := m_num_elements rhs, m_pitch := m_pitch rhs, m_height := m_height rhs,
    m_exec_conf := m_exec_conf rhs, m_mapped := m_mapped rhs, m_data_location := DL_host\<rparr>"
  obtain b where b: "allocate env ?a = (Inr (), b)"
      and c: "copy_host_data env (memclear env 0 b) rhs = (Inr u, (a', rhs'))"
    using assms(4) h by (auto simp: GPUArray_assign_def isNull_def split: prod.splits sum.splits)
  have n: "0 < m_num_elements ?a" using assms(1) h by (simp add: gpu_array_ok_def)
  note alloc = allocate_memclear [OF b n]
  obtain dst where dst: "h_data (memclear env 0 b) = Some dst"
    using alloc assms(3) by (auto simp: contents_def)
  show ?thesis
    using copy_host_data_ok [OF c _ _ dst assms(1) h] alloc assms(2,3) by simp
qed

theorem assign_copies_contents_witness:
  "contents (fst (snd (GPUArray_assign demo_env demo_array2D demo_array))) = Some [1, 2, 3]"
proof -
  let ?r = "GPUArray_assign demo_env demo_array2D demo_array"
  have r: "?r = (Inr (), (fst (snd ?r), snd (snd ?r)))"
    by (simp add: GPUArray_assign_def isNull_def demo_array2D_def demo_defs allocate_def Let_def
        use_device_def CHECK_CUDA_ERROR_def memclear_def device_block_def set_device_block_def
        copy_host_data_def acquire_def memcpyDeviceToHost_def return_GPUArrayDispatch_def
        release_def read_ptr_def)
  show ?thesis
    using assign_copies_contents [OF demo_array_ok(1,2) _ r] by (simp add: demo_array2D_def)
qed

text \<open>A handle gives no exclusive access: after any acquire of a non-null array that returns,
  the array is no longer marked as acquired, so a second read-write handle on the host is granted
  while the first one is still in use (unless the pending device copy reports an error).\<close>

theorem acquire_not_exclusive:
  assumes "\<not> isNull a" and "acquire env loc mode async a = (Inr p, a')"
    and "hip_error env2 At_memcpy = None"
  shows "\<not> m_acquired a' \<and> (\<exists>a''. acquire env2 AL_host AM_readwrite False a' = (Inr Host_ptr, a''))"
proof -
  have rel: "\<not> m_acquired a'"
    using acquire_released [OF assms(2)] .
  have nn: "\<not> isNull a'"
    using assms(1,2)
    by (auto simp: acquire_unfold outcome_simps memcpyDeviceToHost_def memcpyHostToDevice_def
        check_cuda_error_simps set_device_block_def
        split: if_splits access_location.splits data_location.splits access_mode.splits
          option.splits device_ptr.splits)
  obtain b where "memcpyDeviceToHost env2 False (a'\<lparr>m_acquired := True\<rparr>) = (Inr (), b)"
    using memcpy_returns(1) [OF assms(3)] by blast
  with rel nn show ?thesis
    by (auto simp: acquire_unfold split: data_location.split)
qed

theorem acquire_not_exclusive_witness:
  "\<exists>a' a''. acquire demo_env AL_host AM_readwrite False demo_array = (Inr Host_ptr, a') \<and>
     acquire demo_env AL_host AM_readwrite False a' = (Inr Host_ptr, a'')"
proof -
  let ?r = "acquire demo_env AL_host AM_readwrite False demo_array"
  have r: "?r = (Inr Host_ptr, snd ?r)"
    by (simp add: acquire_unfold demo_defs memcpyDeviceToHost_def device_block_def)
  have "\<not> isNull demo_array" "hip_error demo_env At_memcpy = None"
    by (simp_all add: demo_defs isNull_def)
  with acquire_not_exclusive [OF _ r] r show ?thesis by blast
qed

text \<open>A device acquire that is refused because there is no GPU leaves the array marked as
  acquired, so every later acquire of that array, on the host as well, throws.\<close>

theorem acquire_refused_stuck:
  assumes "\<not> isNull a" and "\<not> m_acquired a" and "\<not> use_device a"
  shows "\<exists>e a'. acquire env AL_device mode async a = (Inl e, a') \<and>
    (\<forall>env2 loc2 mode2 async2. throws (acquire env2 loc2 mode2 async2 a'))"
  using assms by (auto simp: acquire_unfold use_device_def split: option.splits)

theorem acquire_refused_stuck_witness:
  "\<exists>e a'. acquire demo_env AL_device AM_read False demo_array2D = (Inl e, a') \<and>
     throws (acquire demo_env AL_host AM_read False a')"
  using acquire_refused_stuck [of demo_array2D demo_env AM_read False]
  by (auto simp: demo_array2D_def demo_cpu_def isNull_def use_device_def)

text \<open>The pitch of a 2D array is a multiple of 16 that is strictly larger than the width: a width
  that already is a multiple of 16 gets a whole extra block of padding.\<close>

lemma pad_pitch_bounds:
  "pad_pitch w mod 16 = 0" "w < pad_pitch w" "pad_pitch w \<le> w + 16"
  "w mod 16 = 0 \<Longrightarrow> pad_pitch w = w + 16"
proof -
  have "w = 16 * (w div 16) + w mod 16" by simp
  then have "pad_pitch w = 16 * (w div 16) + 16"
    unfolding pad_pitch_def using mod_less_divisor [of 16 w] by linarith
  then show "pad_pitch w mod 16 = 0" by simp
qed (auto simp: pad_pitch_def)

text \<open>Resizing a null 1D array allocates but does not record pitch and height.\<close>

lemma resize_null_no_pitch:
  "isNull a \<Longrightarrow> resize env n a = (Inr u, a') \<Longrightarrow> 0 < n \<Longrightarrow>
    m_num_elements a' = n \<and> m_pitch a' = m_pitch a \<and> m_height a' = m_height a"
  using allocate_ok [of env "a\<lparr>m_num_elements := n\<rparr>" u a']
  by (auto simp: resize_def split: if_splits)

end
