(* ===== verification/GPUVector.thy ===== *)
theory GPUVector
  imports GPUArray
begin

text \<open>
  Model of \<open>hoomd/GPUVector.h\<close>: a growable vector on top of a GPUArray. The inherited array is the
  field \<open>base\<close>. The vector is shown to refine a plain list under every sequence of its operations.
  \<open>RESIZE_FACTOR\<close> is \<open>9.f / 8.f\<close>; the product is exact in double precision for the sizes that fit in
  memory, so the growth step is written with integer division.
\<close>

section \<open>State and operations\<close>

record 'a gpu_vector =
  base :: "'a gpu_array"
  m_size :: nat

type_synonym ('a, 'b) vector_method = "('b, 'a gpu_vector) outcome"

definition on_base :: "('b, 'a gpu_array) outcome \<Rightarrow> 'a gpu_vector \<Rightarrow> ('a, 'b) vector_method" where
  "on_base r v = (fst r, v\<lparr>base := snd r\<rparr>)"

definition GPUVector_empty :: "'a hip_env \<Rightarrow> exec_conf option \<Rightarrow> ('a, unit) vector_method" where
  "GPUVector_empty env ec =
     on_base (GPUArray_1d env 0 ec False) \<lparr>base = GPUArray_null ec, m_size = 0\<rparr>"

definition GPUVector_sized :: "'a hip_env \<Rightarrow> nat \<Rightarrow> exec_conf option \<Rightarrow> ('a, unit) vector_method" where
  "GPUVector_sized env n ec =
     on_base (GPUArray_1d env n ec False) \<lparr>base = GPUArray_null ec, m_size = n\<rparr>"

text \<open>\<open>acquireHost(mode)\<close> passes \<open>access_mode::readwrite\<close> on, whatever mode it is given.\<close>

definition acquireHost :: "'a hip_env \<Rightarrow> access_mode \<Rightarrow> 'a gpu_vector \<Rightarrow> ('a, array_ptr) vector_method" where
  "acquireHost env mode v = on_base (acquire env AL_host AM_readwrite False (base v)) v"

text \<open>Loops over the data block of a handle.\<close>

definition host_data :: "array_ptr \<Rightarrow> 'a gpu_vector \<Rightarrow> 'a list" where
  "host_data p v = (case read_ptr p (base v) of None \<Rightarrow> [] | Some xs \<Rightarrow> xs)"

definition write_host :: "array_ptr \<Rightarrow> 'a list \<Rightarrow> 'a gpu_vector \<Rightarrow> 'a gpu_vector" where
  "write_host p xs v = v\<lparr>base := write_ptr p xs (base v)\<rparr>"

definition fill_range :: "nat \<Rightarrow> nat \<Rightarrow> 'a \<Rightarrow> 'a list \<Rightarrow> 'a list" where
  "fill_range from to x xs = foldl (\<lambda>d i. d[i := x]) xs [from..<to]"

definition GPUVector_fill ::
  "'a hip_env \<Rightarrow> nat \<Rightarrow> 'a \<Rightarrow> exec_conf option \<Rightarrow> ('a, unit) vector_method" where
  "GPUVector_fill env n x ec =
     obind (GPUVector_sized env n ec) (\<lambda>_ v.
     obind (acquireHost env AM_readwrite v) (\<lambda>p v.
     (Inr (), write_host p (fill_range 0 n x (host_data p v)) v)))"

text \<open>The code multiplies by 9 and divides by 8 in double precision, which is exact for sizes below \<open>2^49\<close>, and truncates.\<close>

function grow :: "nat \<Rightarrow> nat \<Rightarrow> nat" where
  "grow sz new_allocated_size =
     (if sz > new_allocated_size then grow sz (new_allocated_size * 9 div 8 + 1)
      else new_allocated_size)"
  by pat_completeness auto
termination
  by (relation "measure (\<lambda>(sz, n). sz - n)") auto

declare grow.simps [simp del]

definition reallocate :: "'a hip_env \<Rightarrow> nat \<Rightarrow> 'a gpu_vector \<Rightarrow> ('a, unit) vector_method" where
  "reallocate env sz v =
     (if sz > getNumElements (base v)
      then let n0 = (if getNumElements (base v) \<noteq> 0 then getNumElements (base v) else 1)
           in on_base (resize env (grow sz n0) (base v)) v
      else (Inr (), v))"

definition vector_resize :: "'a hip_env \<Rightarrow> nat \<Rightarrow> 'a gpu_vector \<Rightarrow> ('a, unit) vector_method" where
  "vector_resize env new_size v =
     obind (if new_size > 0 then reallocate env new_size v else reallocate env 1 v) (\<lambda>_ v.
     (Inr (), v\<lparr>m_size := new_size\<rparr>))"

definition vector_resize_value :: "'a hip_env \<Rightarrow> nat \<Rightarrow> 'a \<Rightarrow> 'a gpu_vector \<Rightarrow> ('a, unit) vector_method" where
  "vector_resize_value env new_size x v =
     (let old_size = m_size v in
      obind (vector_resize env new_size v) (\<lambda>_ v.
      obind (acquireHost env AM_readwrite v) (\<lambda>p v.
      (Inr (), write_host p (fill_range old_size new_size x (host_data p v)) v))))"

definition push_back :: "'a hip_env \<Rightarrow> 'a \<Rightarrow> 'a gpu_vector \<Rightarrow> ('a, unit) vector_method" where
  "push_back env x v =
     obind (reallocate env (m_size v + 1) v) (\<lambda>_ v.
     obind (acquireHost env AM_readwrite v) (\<lambda>p v.
     (Inr (), (write_host p ((host_data p v)[m_size v := x]) v)\<lparr>m_size := m_size v + 1\<rparr>)))"

definition pop_back :: "'a gpu_vector \<Rightarrow> 'a gpu_vector" where
  "pop_back v = v\<lparr>m_size := m_size v - 1\<rparr>"

text \<open>The loop of \<open>erase\<close>: \<open>res\<close> is the write position, \<open>n\<close> the read position.\<close>

definition erase_loop :: "nat \<Rightarrow> nat \<Rightarrow> 'a list \<Rightarrow> nat \<times> 'a list" where
  "erase_loop i m xs =
     foldl (\<lambda>(res, d) n. if n \<noteq> i then (res + 1, d[res := d ! n]) else (res, d)) (0, xs) [0..<m]"

definition vector_erase :: "'a hip_env \<Rightarrow> nat \<Rightarrow> 'a gpu_vector \<Rightarrow> ('a, unit) vector_method" where
  "vector_erase env i v =
     obind (acquireHost env AM_readwrite v) (\<lambda>p v.
     (Inr (), (write_host p (snd (erase_loop i (m_size v) (host_data p v))) v)\<lparr>m_size := m_size v - 1\<rparr>))"

definition vector_clear :: "'a gpu_vector \<Rightarrow> 'a gpu_vector" where
  "vector_clear v = v\<lparr>m_size := 0\<rparr>"

definition vector_get :: "'a hip_env \<Rightarrow> nat \<Rightarrow> 'a gpu_vector \<Rightarrow> ('a, 'a) vector_method" where
  "vector_get env n v =
     obind (acquireHost env AM_read v) (\<lambda>p v. (Inr (host_data p v ! n), v))"

definition vector_set :: "'a hip_env \<Rightarrow> nat \<Rightarrow> 'a \<Rightarrow> 'a gpu_vector \<Rightarrow> ('a, unit) vector_method" where
  "vector_set env n x v =
     obind (acquireHost env AM_readwrite v) (\<lambda>p v. (Inr (), write_host p ((host_data p v)[n := x]) v))"

definition vector_swap :: "'a gpu_vector \<Rightarrow> 'a gpu_vector \<Rightarrow> 'a gpu_vector \<times> 'a gpu_vector" where
  "vector_swap v w = (let (a, b) = GPUArray_swap (base v) (base w) in
     (v\<lparr>m_size := m_size w, base := a\<rparr>, w\<lparr>m_size := m_size v, base := b\<rparr>))"

section \<open>The loops\<close>

lemma grow_ge: "sz \<le> grow sz n"
proof (induction sz n rule: grow.induct)
  case (1 sz n)
  then show ?case by (simp add: grow.simps [of sz n])
qed

lemma grow_pos: "0 < n \<Longrightarrow> 0 < grow sz n"
  by (induction sz n rule: grow.induct) (simp add: grow.simps)

text \<open>Growth never overshoots by more than one eighth plus one.\<close>

lemma grow_le: "grow sz n \<le> max n ((sz - 1) * 9 div 8 + 1)"
proof (induction sz n rule: grow.induct)
  case (1 sz n)
  show ?case
  proof (cases "sz > n")
    case True
    have "n * 9 div 8 \<le> (sz - 1) * 9 div 8"
      using True by (intro div_le_mono mult_le_mono1) simp
    then show ?thesis
      using "1.IH" [OF True] True by (simp add: grow.simps [of sz n])
  next
    case False
    then show ?thesis by (simp add: grow.simps [of sz n])
  qed
qed

lemma fill_range_Suc:
  "from \<le> to \<Longrightarrow> fill_range from (Suc to) x xs = (fill_range from to x xs)[to := x]"
  by (simp add: fill_range_def)

lemma fill_range_eq:
  assumes "to \<le> length xs" "from \<le> to"
  shows "fill_range from to x xs = take from xs @ replicate (to - from) x @ drop to xs"
  using assms(2,1)
proof (induction to rule: dec_induct)
  case base
  then show ?case by (simp add: fill_range_def)
next
  case (step n)
  then have "drop n xs = xs ! n # drop (Suc n) xs"
    by (simp add: Cons_nth_drop_Suc)
  with step show ?case
    by (simp add: fill_range_Suc list_update_append Suc_diff_le replicate_append_same [symmetric])
qed

lemma fill_range_none: "to \<le> from \<Longrightarrow> fill_range from to x xs = xs"
  by (simp add: fill_range_def)

lemma length_fill_range [simp]: "length (fill_range from to x xs) = length xs"
proof -
  have "length (foldl (\<lambda>d i. d[i := x]) xs is) = length xs" for "is"
    by (induction "is" arbitrary: xs) auto
  then show ?thesis by (simp add: fill_range_def)
qed

lemma erase_loop_Suc:
  "erase_loop i (Suc m) xs = (let (res, d) = erase_loop i m xs in
     if m \<noteq> i then (res + 1, d[res := d ! m]) else (res, d))"
  by (simp add: erase_loop_def split: prod.split)

lemma erase_loop_before:
  "m \<le> length xs \<Longrightarrow> m \<le> i \<Longrightarrow> erase_loop i m xs = (m, xs)"
  by (induction m) (simp_all add: erase_loop_Suc, simp add: erase_loop_def)

lemma erase_loop_after:
  assumes "i < m" "m \<le> length xs"
  shows "\<exists>d. erase_loop i m xs = (m - 1, d) \<and> length d = length xs \<and>
    take (m - 1) d = take i xs @ drop (Suc i) (take m xs) \<and> drop m d = drop m xs"
  using assms
proof (induction m)
  case 0
  then show ?case by simp
next
  case (Suc m)
  show ?case
  proof (cases "i = m")
    case True
    then show ?thesis
      using Suc.prems erase_loop_before [of m xs i] by (simp add: erase_loop_Suc)
  next
    case False
    then obtain d where d: "erase_loop i m xs = (m - 1, d)" "length d = length xs"
        "take (m - 1) d = take i xs @ drop (Suc i) (take m xs)" "drop m d = drop m xs"
      using Suc by auto
    have m: "0 < m" using False Suc.prems by simp
    have nth: "d ! m = xs ! m"
      using d(4) Suc.prems d(2) by (metis Cons_nth_drop_Suc Suc_le_lessD list.inject)
    have "erase_loop i (Suc m) xs = (m, d[m - 1 := xs ! m])"
      using d(1) False m nth by (simp add: erase_loop_Suc)
    moreover have "take m (d[m - 1 := xs ! m]) = take i xs @ drop (Suc i) (take (Suc m) xs)"
    proof -
      have "take m (d[m - 1 := xs ! m]) = take (m - 1) d @ [xs ! m]"
        using m Suc.prems d(2) take_Suc_conv_app_nth [of "m - 1" "d[m - 1 := xs ! m]"] by simp
      also have "\<dots> = take i xs @ drop (Suc i) (take (Suc m) xs)"
        using d(3) False Suc.prems by (simp add: take_Suc_conv_app_nth)
      finally show ?thesis .
    qed
    moreover have "drop (Suc m) (d[m - 1 := xs ! m]) = drop (Suc m) xs"
      using d(4) m by (metis Suc_eq_plus1 Suc_pred diff_less drop_drop drop_update_cancel
          less_SucI plus_1_eq_Suc zero_less_one)
    ultimately show ?thesis using d(2) by simp
  qed
qed

section \<open>Refinement of a list\<close>

text \<open>A runtime that serves every request of one call.\<close>

definition env_ok :: "'a hip_env \<Rightarrow> bool" where
  "env_ok env \<longleftrightarrow> (\<forall>n. posix_memalign env n \<noteq> None) \<and> (\<forall>n. \<exists>f. hipMalloc env n = Hip_block f) \<and>
     hip_error env = (\<lambda>_. None)"

definition vector_ok :: "'a gpu_vector \<Rightarrow> bool" where
  "vector_ok v \<longleftrightarrow> gpu_array_ok (base v) \<and> \<not> m_mapped (base v) \<and> m_size v \<le> m_num_elements (base v) \<and>
     (isNull (base v) \<longrightarrow> m_num_elements (base v) = 0)"

definition elements :: "'a gpu_vector \<Rightarrow> 'a list" where
  "elements v = (case contents (base v) of None \<Rightarrow> [] | Some xs \<Rightarrow> take (m_size v) xs)"

lemma on_base_simps [simp]:
  "on_base (Inl e, a) v = (Inl e, v\<lparr>base := a\<rparr>)" "on_base (Inr x, a) v = (Inr x, v\<lparr>base := a\<rparr>)"
  by (simp_all add: on_base_def)

lemma m_mapped_acquire:
  "acquire env AL_host AM_readwrite False a = (Inr p, a') \<Longrightarrow> m_mapped a' = m_mapped a"
  by (auto simp: acquire_unfold outcome_simps memcpyDeviceToHost_def check_cuda_error_simps
      split: if_splits data_location.splits option.splits)

lemma resize_returns:
  assumes "env_ok env" "gpu_array_ok a" "\<not> m_mapped a" "0 < n"
  shows "\<exists>a'. resize env n a = (Inr (), a') \<and> \<not> m_mapped a'"
proof -
  have err: "CHECK_CUDA_ERROR env site b = (Inr (), b)" for site b
    using assms(1) by (simp add: CHECK_CUDA_ERROR_def env_ok_def)
  obtain f g where f: "posix_memalign env n = Some f" "hipMalloc env n = Hip_block g"
    using assms(1) unfolding env_ok_def by blast
  show ?thesis
  proof (cases "h_data a")
    case None
    then show ?thesis
      using assms f err by (simp add: resize_def isNull_def allocate_def Let_def)
  next
    case (Some h)
    then show ?thesis
      using assms f err
      by (simp add: resize_def isNull_def resizeHostArray_def resizeDeviceArray_def Let_def
          remap_device_ptr_def)
  qed
qed

lemma resize_null_ok:
  assumes "resize env n a = (Inr u, a')" "gpu_array_ok a" "isNull a" "\<not> m_mapped a" "0 < n"
  shows "gpu_array_ok a' \<and> m_num_elements a' = n \<and> \<not> isNull a'"
proof -
  have "allocate env (a\<lparr>m_num_elements := n\<rparr>) = (Inr u, a')"
    using assms(1,3) by (simp add: resize_def)
  from allocate_ok [OF this] assms(2-5) show ?thesis
    by (cases "use_device a") (auto simp: gpu_array_ok_def isNull_def device_ok_def)
qed

lemma take_resized: "k \<le> length xs \<Longrightarrow> k \<le> n \<Longrightarrow> take k (resized n z xs) = take k xs"
  by (simp add: resized_def min_def)

lemma reallocate_ok:
  assumes "env_ok env" "vector_ok v" "0 < sz"
  shows "\<exists>v'. reallocate env sz v = (Inr (), v') \<and> vector_ok v' \<and> m_size v' = m_size v \<and>
    elements v' = elements v \<and> sz \<le> m_num_elements (base v') \<and> \<not> isNull (base v')"
proof (cases "sz > getNumElements (base v)")
  case False
  then show ?thesis
    using assms by (auto simp: reallocate_def getNumElements_def vector_ok_def)
next
  case True
  let ?n = "grow sz (if getNumElements (base v) \<noteq> 0 then getNumElements (base v) else 1)"
  have n: "0 < ?n" "sz \<le> ?n" by (simp_all add: grow_pos grow_ge)
  have ok: "gpu_array_ok (base v)" "\<not> m_mapped (base v)"
    using assms(2) by (auto simp: vector_ok_def)
  obtain a' where a': "resize env ?n (base v) = (Inr (), a')" "\<not> m_mapped a'"
    using resize_returns [OF assms(1) ok n(1)] by blast
  have re: "reallocate env sz v = (Inr (), v\<lparr>base := a'\<rparr>)"
    using True a' by (simp add: reallocate_def Let_def)
  show ?thesis
  proof (cases "h_data (base v)")
    case None
    then show ?thesis
      using resize_null_ok [OF a'(1) ok(1) _ ok(2) n(1)] re n a'(2) assms(2)
        gpu_array_ok_contents [of a']
      by (auto simp: vector_ok_def isNull_def elements_def split: option.splits)
  next
    case (Some h)
    note r = resize_ok [OF a'(1) ok(1) Some n(1)]
    obtain xs where xs: "contents (base v) = Some xs" "length xs = m_num_elements (base v)"
      using gpu_array_ok_contents [OF ok(1) Some] by blast
    have nn: "\<not> isNull a'"
      using r xs gpu_array_ok_null [of a'] by auto
    have "m_size v \<le> length xs" "length xs \<le> ?n"
      using assms(2) xs True n by (auto simp: vector_ok_def getNumElements_def)
    then show ?thesis
      using r re nn n a'(2) xs assms(2) by (auto simp: vector_ok_def elements_def take_resized)
  qed
qed

text \<open>What a host handle sees, and what writing through it does.\<close>

lemma acquireHost_ok:
  assumes "env_ok env" "vector_ok v" "\<not> isNull (base v)"
  shows "\<exists>v' xs. acquireHost env mode v = (Inr Host_ptr, v') \<and> host_data Host_ptr v' = xs \<and>
    length xs = m_num_elements (base v) \<and> elements v = take (m_size v) xs \<and>
    vector_ok v' \<and> m_size v' = m_size v \<and> elements v' = elements v \<and>
    (\<forall>ys k. length ys = length xs \<longrightarrow> k \<le> length ys \<longrightarrow>
      vector_ok ((write_host Host_ptr ys v')\<lparr>m_size := k\<rparr>) \<and>
      elements ((write_host Host_ptr ys v')\<lparr>m_size := k\<rparr>) = take k ys)"
proof -
  have ok: "gpu_array_ok (base v)" using assms(2) by (simp add: vector_ok_def)
  obtain h where h: "h_data (base v) = Some h" using assms(3) by (auto simp: isNull_def)
  obtain p a where acq: "acquire env AL_host AM_readwrite False (base v) = (Inr p, a)"
    using acquire_returns [OF ok, of env AL_host AM_readwrite False] assms(1)
    by (auto simp: env_ok_def)
  note sp = acquire_host [OF ok h acq]
  obtain xs where xs: "contents (base v) = Some xs" "length xs = m_num_elements (base v)"
    using gpu_array_ok_contents [OF ok h] by blast
  have ha: "h_data a = Some xs" "contents a = Some xs" using sp xs by simp_all
  have mp: "m_mapped a = m_mapped (base v)" using m_mapped_acquire acq sp by blast
  have w: "gpu_array_ok (write_ptr Host_ptr ys a) \<and> contents (write_ptr Host_ptr ys a) = Some ys"
    if "length ys = length xs" for ys
    using write_ptr_ok [of a xs ys Host_ptr] sp ha that xs by simp
  have f: "m_mapped (write_ptr Host_ptr ys a) = m_mapped a"
      "m_num_elements (write_ptr Host_ptr ys a) = m_num_elements a"
      "isNull (write_ptr Host_ptr ys a) = False" "isNull a = False" for ys
    using ha by (simp_all add: write_ptr_def isNull_def)
  show ?thesis
    using acq sp ha mp xs w f assms(2)
    by (auto simp: acquireHost_def host_data_def read_ptr_def elements_def vector_ok_def
        write_host_def)
qed

lemma length_elements: "vector_ok v \<Longrightarrow> length (elements v) = m_size v"
proof (cases "h_data (base v)")
  case None
  moreover assume "vector_ok v"
  ultimately show ?thesis
    using gpu_array_ok_null [of "base v"] by (auto simp: vector_ok_def elements_def isNull_def)
next
  case (Some h)
  moreover assume "vector_ok v"
  ultimately show ?thesis
    using gpu_array_ok_contents [of "base v" h] by (auto simp: vector_ok_def elements_def)
qed

lemma vector_not_null: "vector_ok v \<Longrightarrow> i < m_size v \<Longrightarrow> \<not> isNull (base v)"
  by (auto simp: vector_ok_def)

lemma push_back_ok:
  assumes "env_ok env" "vector_ok v"
  shows "\<exists>v'. push_back env x v = (Inr (), v') \<and> vector_ok v' \<and> elements v' = elements v @ [x]"
proof -
  obtain v1 where v1: "reallocate env (m_size v + 1) v = (Inr (), v1)" "vector_ok v1"
      "m_size v1 = m_size v" "elements v1 = elements v" "m_size v + 1 \<le> m_num_elements (base v1)"
      "\<not> isNull (base v1)"
    using reallocate_ok [OF assms, of "m_size v + 1"] by auto
  obtain v2 xs where v2: "acquireHost env AM_readwrite v1 = (Inr Host_ptr, v2)"
      "host_data Host_ptr v2 = xs" "length xs = m_num_elements (base v1)"
      "elements v1 = take (m_size v1) xs" "m_size v2 = m_size v1"
      and w: "\<And>ys k. length ys = length xs \<Longrightarrow> k \<le> length ys \<Longrightarrow>
        vector_ok ((write_host Host_ptr ys v2)\<lparr>m_size := k\<rparr>) \<and>
        elements ((write_host Host_ptr ys v2)\<lparr>m_size := k\<rparr>) = take k ys"
    using acquireHost_ok [OF assms(1) v1(2,6), of AM_readwrite] by blast
  have "take (m_size v + 1) (xs[m_size v := x]) = elements v @ [x]"
    using v1 v2 take_Suc_conv_app_nth [of "m_size v" "xs[m_size v := x]"] by simp
  then show ?thesis
    using v1 v2 w [of "xs[m_size v := x]" "m_size v + 1"] by (simp add: push_back_def)
qed

lemma vector_resize_ok:
  assumes "env_ok env" "vector_ok v"
  shows "\<exists>v'. vector_resize env n v = (Inr (), v') \<and> vector_ok v' \<and> m_size v' = n \<and>
    \<not> isNull (base v') \<and> take (min n (m_size v)) (elements v') = take n (elements v)"
proof -
  let ?k = "if n > 0 then n else 1"
  have k: "0 < ?k" by simp
  obtain v1 where v1: "reallocate env ?k v = (Inr (), v1)" "vector_ok v1"
      "m_size v1 = m_size v" "elements v1 = elements v" "?k \<le> m_num_elements (base v1)"
      "\<not> isNull (base v1)"
    using reallocate_ok [OF assms k] by blast
  have "vector_resize env n v = (Inr (), v1\<lparr>m_size := n\<rparr>)"
    using v1 by (simp add: vector_resize_def split: if_splits)
  moreover have "vector_ok (v1\<lparr>m_size := n\<rparr>)"
    using v1 by (auto simp: vector_ok_def split: if_splits)
  moreover have "take (min n (m_size v)) (elements (v1\<lparr>m_size := n\<rparr>)) = take n (elements v)"
    using v1(3,4) by (auto simp: elements_def split: option.splits intro: take_min_cong)
  ultimately show ?thesis using v1(6) by simp
qed

lemma vector_resize_value_ok:
  assumes "env_ok env" "vector_ok v"
  shows "\<exists>v'. vector_resize_value env n x v = (Inr (), v') \<and> vector_ok v' \<and>
    elements v' = take n (elements v) @ replicate (n - length (elements v)) x"
proof -
  obtain v1 where v1: "vector_resize env n v = (Inr (), v1)" "vector_ok v1" "m_size v1 = n"
      "\<not> isNull (base v1)" "take (min n (m_size v)) (elements v1) = take n (elements v)"
    using vector_resize_ok [OF assms, of n] by blast
  obtain v2 xs where v2: "acquireHost env AM_readwrite v1 = (Inr Host_ptr, v2)"
      "host_data Host_ptr v2 = xs" "length xs = m_num_elements (base v1)"
      "elements v1 = take (m_size v1) xs" "m_size v2 = m_size v1"
      and w: "\<And>ys k. length ys = length xs \<Longrightarrow> k \<le> length ys \<Longrightarrow>
        vector_ok ((write_host Host_ptr ys v2)\<lparr>m_size := k\<rparr>) \<and>
        elements ((write_host Host_ptr ys v2)\<lparr>m_size := k\<rparr>) = take k ys"
    using acquireHost_ok [OF assms(1) v1(2,4), of AM_readwrite] by blast
  have n: "n \<le> length xs" using v1(2,3) v2(3) by (simp add: vector_ok_def)
  let ?ys = "fill_range (m_size v) n x xs"
  have upd: "(write_host Host_ptr ?ys v2)\<lparr>m_size := n\<rparr> = write_host Host_ptr ?ys v2"
    using v1(3) v2(5) by (simp add: write_host_def)
  have "take n ?ys = take n (elements v) @ replicate (n - m_size v) x"
  proof (cases "m_size v \<le> n")
    case True
    then show ?thesis
      using n v1(3,5) v2(4) length_elements [OF assms(2)]
      by (simp add: fill_range_eq min.absorb1 min.absorb2)
  next
    case False
    then show ?thesis
      using n v1(3,5) v2(4) by (simp add: fill_range_none min.absorb1 min.absorb2)
  qed
  then show ?thesis
    using v1(1) v2(1,2) w [of ?ys n] upd n length_elements [OF assms(2)]
    by (simp add: vector_resize_value_def)
qed

lemma vector_erase_ok:
  assumes "env_ok env" "vector_ok v" "i < m_size v"
  shows "\<exists>v'. vector_erase env i v = (Inr (), v') \<and> vector_ok v' \<and>
    elements v' = take i (elements v) @ drop (Suc i) (elements v)"
proof -
  obtain v2 xs where v2: "acquireHost env AM_readwrite v = (Inr Host_ptr, v2)"
      "host_data Host_ptr v2 = xs" "length xs = m_num_elements (base v)"
      "elements v = take (m_size v) xs" "m_size v2 = m_size v"
      and w: "\<And>ys k. length ys = length xs \<Longrightarrow> k \<le> length ys \<Longrightarrow>
        vector_ok ((write_host Host_ptr ys v2)\<lparr>m_size := k\<rparr>) \<and>
        elements ((write_host Host_ptr ys v2)\<lparr>m_size := k\<rparr>) = take k ys"
    using acquireHost_ok [OF assms(1,2) vector_not_null [OF assms(2,3)], of AM_readwrite] by blast
  have m: "m_size v \<le> length xs" using assms(2) v2(3) by (simp add: vector_ok_def)
  obtain d where d: "erase_loop i (m_size v) xs = (m_size v - 1, d)" "length d = length xs"
      "take (m_size v - 1) d = take i xs @ drop (Suc i) (take (m_size v) xs)"
    using erase_loop_after [OF assms(3) m] by blast
  then show ?thesis
    using v2 w [of d "m_size v - 1"] m assms(3) by (simp add: vector_erase_def min_def)
qed

lemma vector_get_ok:
  assumes "env_ok env" "vector_ok v" "i < m_size v"
  shows "\<exists>v'. vector_get env i v = (Inr (elements v ! i), v') \<and> vector_ok v' \<and> elements v' = elements v"
proof -
  obtain v2 xs where "acquireHost env AM_read v = (Inr Host_ptr, v2)"
      "host_data Host_ptr v2 = xs" "elements v = take (m_size v) xs" "vector_ok v2"
      "elements v2 = elements v"
    using acquireHost_ok [OF assms(1,2) vector_not_null [OF assms(2,3)], of AM_read] by blast
  then show ?thesis using assms(3) by (simp add: vector_get_def)
qed

lemma vector_set_ok:
  assumes "env_ok env" "vector_ok v" "i < m_size v"
  shows "\<exists>v'. vector_set env i x v = (Inr (), v') \<and> vector_ok v' \<and> elements v' = (elements v)[i := x]"
proof -
  obtain v2 xs where v2: "acquireHost env AM_readwrite v = (Inr Host_ptr, v2)"
      "host_data Host_ptr v2 = xs" "length xs = m_num_elements (base v)"
      "elements v = take (m_size v) xs" "m_size v2 = m_size v"
      and w: "\<And>ys k. length ys = length xs \<Longrightarrow> k \<le> length ys \<Longrightarrow>
        vector_ok ((write_host Host_ptr ys v2)\<lparr>m_size := k\<rparr>) \<and>
        elements ((write_host Host_ptr ys v2)\<lparr>m_size := k\<rparr>) = take k ys"
    using acquireHost_ok [OF assms(1,2) vector_not_null [OF assms(2,3)], of AM_readwrite] by blast
  have m: "m_size v \<le> length xs" using assms(2) v2(3) by (simp add: vector_ok_def)
  have "(write_host Host_ptr (xs[i := x]) v2)\<lparr>m_size := m_size v\<rparr> = write_host Host_ptr (xs[i := x]) v2"
    using v2(5) by (simp add: write_host_def)
  then show ?thesis
    using v2 w [of "xs[i := x]" "m_size v"] m by (simp add: vector_set_def take_update_swap)
qed

text \<open>The operations as one step function, and what they do to the list of elements.\<close>

datatype 'a vector_op =
    VPush "'a hip_env" 'a
  | VPop
  | VErase "'a hip_env" nat
  | VClear
  | VResize "'a hip_env" nat 'a
  | VGet "'a hip_env" nat
  | VSet "'a hip_env" nat 'a

fun vector_step :: "'a vector_op \<Rightarrow> 'a gpu_vector \<Rightarrow> (exn + 'a option) \<times> 'a gpu_vector" where
  "vector_step (VPush env x) v = obind (push_back env x v) (\<lambda>_ v. (Inr None, v))"
| "vector_step VPop v = (Inr None, pop_back v)"
| "vector_step (VErase env i) v = obind (vector_erase env i v) (\<lambda>_ v. (Inr None, v))"
| "vector_step VClear v = (Inr None, vector_clear v)"
| "vector_step (VResize env n x) v = obind (vector_resize_value env n x v) (\<lambda>_ v. (Inr None, v))"
| "vector_step (VGet env i) v = obind (vector_get env i v) (\<lambda>x v. (Inr (Some x), v))"
| "vector_step (VSet env i x) v = obind (vector_set env i x v) (\<lambda>_ v. (Inr None, v))"

fun list_step :: "'a vector_op \<Rightarrow> 'a list \<Rightarrow> (exn + 'a option) \<times> 'a list" where
  "list_step (VPush env x) xs = (Inr None, xs @ [x])"
| "list_step VPop xs = (Inr None, butlast xs)"
| "list_step (VErase env i) xs = (Inr None, take i xs @ drop (Suc i) xs)"
| "list_step VClear xs = (Inr None, [])"
| "list_step (VResize env n x) xs = (Inr None, take n xs @ replicate (n - length xs) x)"
| "list_step (VGet env i) xs = (Inr (Some (xs ! i)), xs)"
| "list_step (VSet env i x) xs = (Inr None, xs[i := x])"

fun vector_pre :: "'a vector_op \<Rightarrow> 'a list \<Rightarrow> bool" where
  "vector_pre (VPush env x) xs \<longleftrightarrow> env_ok env"
| "vector_pre VPop xs \<longleftrightarrow> xs \<noteq> []"
| "vector_pre (VErase env i) xs \<longleftrightarrow> env_ok env \<and> i < length xs"
| "vector_pre VClear xs \<longleftrightarrow> True"
| "vector_pre (VResize env n x) xs \<longleftrightarrow> env_ok env"
| "vector_pre (VGet env i) xs \<longleftrightarrow> env_ok env \<and> i < length xs"
| "vector_pre (VSet env i x) xs \<longleftrightarrow> env_ok env \<and> i < length xs"

lemma vector_step_refines:
  assumes "vector_ok v" "vector_pre op (elements v)"
  shows "vector_ok (snd (vector_step op v)) \<and>
    fst (vector_step op v) = fst (list_step op (elements v)) \<and>
    elements (snd (vector_step op v)) = snd (list_step op (elements v))"
proof (cases op)
  case (VPush env x)
  then show ?thesis using push_back_ok [of env v x] assms by auto
next
  case VPop
  have "vector_ok (pop_back v)" "elements (pop_back v) = butlast (elements v)"
    using assms(1) length_elements [OF assms(1)]
    by (auto simp: vector_ok_def pop_back_def elements_def butlast_conv_take min_def
        split: option.splits)
  then show ?thesis using VPop by simp
next
  case (VErase env i)
  then show ?thesis using vector_erase_ok [of env v i] assms length_elements [OF assms(1)] by auto
next
  case VClear
  then show ?thesis
    using assms(1) by (auto simp: vector_ok_def vector_clear_def elements_def split: option.splits)
next
  case (VResize env n x)
  then show ?thesis using vector_resize_value_ok [of env v n x] assms by auto
next
  case (VGet env i)
  then show ?thesis using vector_get_ok [of env v i] assms length_elements [OF assms(1)] by auto
next
  case (VSet env i x)
  then show ?thesis using vector_set_ok [of env v i x] assms length_elements [OF assms(1)] by auto
qed

interpretation vec: refinement vector_ok elements vector_pre vector_step list_step
  by unfold_locales (auto dest: vector_step_refines)

section \<open>Properties\<close>

text \<open>C5: A GPUVector is a list: any sequence of push, pop, erase, clear, resize, read and write on
  the vector returns the same values and leaves the same elements as the sequence on a list, across
  all reallocations, as long as indices are in range and allocations succeed.\<close>

theorem vector_is_list:
  assumes "vector_ok v" and "pre_run vector_pre list_step ops (elements v)"
  shows "fst (run_ops vector_step ops v) = fst (run_ops list_step ops (elements v)) \<and>
    elements (snd (run_ops vector_step ops v)) = snd (run_ops list_step ops (elements v)) \<and>
    vector_ok (snd (run_ops vector_step ops v))"
  using vec.run_refines [OF assms] by simp

definition demo_vector :: "nat gpu_vector" where
  "demo_vector = snd (GPUVector_empty demo_env (Some demo_gpu))"

definition demo_vector_ops :: "nat vector_op list" where
  "demo_vector_ops = [VPush demo_env 5, VPush demo_env 6, VPush demo_env 7, VErase demo_env 1,
     VSet demo_env 0 8, VGet demo_env 1, VPop, VResize demo_env 3 1]"

lemma demo_env_ok: "env_ok demo_env"
  by (simp add: env_ok_def demo_env_def)

theorem vector_is_list_witness:
  "elements (snd (run_ops vector_step demo_vector_ops demo_vector)) = [8, 1, 1]"
proof -
  have ok: "vector_ok demo_vector" "elements demo_vector = []"
    by (simp_all add: demo_vector_def GPUVector_empty_def GPUArray_1d_def GPUArray_null_def
        allocate_def memclear_def vector_ok_def gpu_array_ok_def isNull_def elements_def
        contents_def)
  have pre: "pre_run vector_pre list_step demo_vector_ops (elements demo_vector)"
    by (simp add: ok demo_vector_ops_def demo_env_ok)
  show ?thesis
    using vector_is_list [OF ok(1) pre] unfolding ok(2)
    by (simp add: demo_vector_ops_def numeral_eq_Suc)
qed

text \<open>Reallocation always ends, provides at least the requested size, and allocates at most one
  eighth more than needed.\<close>

theorem grow_bounds:
  assumes "n < sz"
  shows "sz \<le> grow sz n \<and> grow sz n \<le> (sz - 1) * 9 div 8 + 1"
  using assms grow_ge [of sz n] grow_le [of sz n] by (auto simp: max_def split: if_splits)

theorem grow_bounds_witness: "100 \<le> grow 100 8 \<and> grow 100 8 \<le> 112"
  using grow_bounds [of 8 100] by simp

text \<open>Reading an element through \<open>operator[]\<close> marks the host copy as the only valid one, because
  \<open>acquireHost\<close> ignores the access mode it is asked for.\<close>

lemma vector_get_invalidates_device:
  assumes "env_ok env" "vector_ok v" "\<not> isNull (base v)"
  shows "\<exists>x v'. vector_get env i v = (Inr x, v') \<and> m_data_location (base v') = DL_host"
proof -
  have ok: "gpu_array_ok (base v)" using assms(2) by (simp add: vector_ok_def)
  obtain h where h: "h_data (base v) = Some h" using assms(3) by (auto simp: isNull_def)
  obtain p a where acq: "acquire env AL_host AM_readwrite False (base v) = (Inr p, a)"
    using acquire_returns [OF ok, of env AL_host AM_readwrite False] assms(1)
    by (auto simp: env_ok_def)
  show ?thesis
    using acquire_host [OF ok h acq] acq by (simp add: vector_get_def acquireHost_def)
qed

end
