(* ===== verification/Index1D.thy ===== *)
theory Index1D
  imports HOOMD_Prelude
begin

text \<open>
  Model of \<open>hoomd/Index1D.h\<close>: the maps from 2D, 3D and upper triangular index tuples to flat array
  indices. All quantities are 32-bit unsigned integers that wrap around, as in the source; the
  correctness lemmas state which sizes rule the wrap-around out.
\<close>

section \<open>Operations\<close>

type_synonym uint = "32 word"

record index2D =
  i2_w :: uint
  i2_h :: uint

definition Index2D :: "uint \<Rightarrow> uint \<Rightarrow> index2D" where
  "Index2D w h = \<lparr>i2_w = w, i2_h = h\<rparr>"

definition index2D_at :: "index2D \<Rightarrow> uint \<Rightarrow> uint \<Rightarrow> uint" where
  "index2D_at x i j = j * i2_w x + i"

definition index2D_getNumElements :: "index2D \<Rightarrow> uint" where
  "index2D_getNumElements x = i2_w x * i2_h x"

definition getPair :: "index2D \<Rightarrow> uint \<Rightarrow> uint \<times> uint" where
  "getPair x idx = (let ty = idx div i2_w x in (idx - ty * i2_w x, ty))"

record index3D =
  i3_w :: uint
  i3_h :: uint
  i3_d :: uint

definition Index3D :: "uint \<Rightarrow> uint \<Rightarrow> uint \<Rightarrow> index3D" where
  "Index3D w h d = \<lparr>i3_w = w, i3_h = h, i3_d = d\<rparr>"

definition index3D_at :: "index3D \<Rightarrow> uint \<Rightarrow> uint \<Rightarrow> uint \<Rightarrow> uint" where
  "index3D_at x i j k = (k * i3_h x + j) * i3_w x + i"

definition index3D_getNumElements :: "index3D \<Rightarrow> uint" where
  "index3D_getNumElements x = i3_w x * i3_h x * i3_d x"

definition getTriple :: "index3D \<Rightarrow> uint \<Rightarrow> uint \<times> uint \<times> uint" where
  "getTriple x idx =
     (let tz = idx div (i3_h x * i3_w x);
          ty = (idx - (tz * i3_h x * i3_w x)) div i3_w x
      in (idx - tz * i3_h x * i3_w x - ty * i3_w x, ty, tz))"

record index2DUpper =
  iu_w :: uint
  iu_term :: uint

definition Index2DUpperTriangular :: "uint \<Rightarrow> index2DUpper" where
  "Index2DUpperTriangular w = \<lparr>iu_w = w, iu_term = 2 * w - 1\<rparr>"

definition indexUpper_at :: "index2DUpper \<Rightarrow> uint \<Rightarrow> uint \<Rightarrow> uint" where
  "indexUpper_at x i j =
     (let (i, j) = (if j > i then (j, i) else (i, j))
      in j * (iu_term x - j) div 2 + i)"

definition indexUpper_getNumElements :: "index2DUpper \<Rightarrow> uint" where
  "indexUpper_getNumElements x = iu_w x * (iu_w x + 1) div 2"

section \<open>No wrap-around\<close>

lemma unat_mult_small: "unat (a :: uint) * unat b < 2 ^ 32 \<Longrightarrow> unat (a * b) = unat a * unat b"
  by (simp add: unat_word_ariths)

lemma unat_add_small: "unat (a :: uint) + unat b < 2 ^ 32 \<Longrightarrow> unat (a + b) = unat a + unat b"
  by (simp add: unat_word_ariths)

lemma unat_uint_less: "unat (a :: uint) < 2 ^ 32"
  using unsigned_less [of a] by simp

lemma row_major_bound:
  fixes i j w h :: nat
  assumes "i < w" "j < h"
  shows "j * w + i < h * w"
proof -
  have "Suc j * w \<le> h * w" using assms by (intro mult_le_mono1) simp
  then show ?thesis using assms by simp
qed

lemma unat_index2D:
  assumes "i < i2_w x" "j < i2_h x" "unat (i2_w x) * unat (i2_h x) < 2 ^ 32"
  shows "unat (index2D_at x i j) = unat j * unat (i2_w x) + unat i"
    and "unat j * unat (i2_w x) + unat i < unat (i2_h x) * unat (i2_w x)"
proof -
  have b: "unat j * unat (i2_w x) + unat i < unat (i2_h x) * unat (i2_w x)"
    using assms by (intro row_major_bound) (simp_all add: word_less_nat_alt)
  then show "unat j * unat (i2_w x) + unat i < unat (i2_h x) * unat (i2_w x)" .
  have "unat j * unat (i2_w x) + unat i < 2 ^ 32"
    using b assms(3) by (simp add: mult.commute)
  then show "unat (index2D_at x i j) = unat j * unat (i2_w x) + unat i"
    by (simp add: index2D_at_def unat_add_small unat_mult_small)
qed

lemma index2D_roundtrip:
  assumes "i < i2_w x" and "j < i2_h x" and "unat (i2_w x) * unat (i2_h x) < 2 ^ 32"
  shows "getPair x (index2D_at x i j) = (i, j) \<and> index2D_at x i j < index2D_getNumElements x"
proof -
  note u = unat_index2D [OF assms]
  have "0 < unat (i2_w x)" using assms(1) by (simp add: word_less_nat_alt)
  then have "unat (index2D_at x i j div i2_w x) = unat j"
    using u(1) assms(1) by (simp add: unat_div_distrib word_less_nat_alt)
  then have j: "index2D_at x i j div i2_w x = j"
    by (simp add: word_unat_eq_iff)
  have "unat (index2D_getNumElements x) = unat (i2_w x) * unat (i2_h x)"
    using assms(3) by (simp add: index2D_getNumElements_def unat_mult_small)
  then have "index2D_at x i j < index2D_getNumElements x"
    using u by (simp add: word_less_nat_alt mult.commute)
  moreover have "getPair x (index2D_at x i j) = (i, j)"
    using j by (simp add: getPair_def Let_def index2D_at_def)
  ultimately show ?thesis by simp
qed

section \<open>3D indices\<close>

lemma unat_index3D:
  assumes "i < i3_w x" "j < i3_h x" "k < i3_d x"
    and fit: "unat (i3_w x) * unat (i3_h x) * unat (i3_d x) < 2 ^ 32"
  shows "unat (index3D_at x i j k) = (unat k * unat (i3_h x) + unat j) * unat (i3_w x) + unat i"
    and "(unat k * unat (i3_h x) + unat j) * unat (i3_w x) + unat i <
      unat (i3_d x) * unat (i3_h x) * unat (i3_w x)"
    and "unat (i3_h x * i3_w x) = unat (i3_h x) * unat (i3_w x)"
proof -
  let ?w = "unat (i3_w x)" and ?h = "unat (i3_h x)" and ?d = "unat (i3_d x)"
  have l: "unat i < ?w" "unat j < ?h" "unat k < ?d"
    using assms by (simp_all add: word_less_nat_alt)
  have r: "unat k * ?h + unat j < ?d * ?h" using l by (intro row_major_bound) simp_all
  have b: "(unat k * ?h + unat j) * ?w + unat i < (?d * ?h) * ?w"
    using l r by (intro row_major_bound) simp_all
  then show "(unat k * ?h + unat j) * ?w + unat i < ?d * ?h * ?w" .
  have fit': "?d * ?h * ?w < 2 ^ 32" using fit by (simp add: ac_simps)
  have "1 * (?h * ?w) \<le> ?d * (?h * ?w)" using l by (intro mult_le_mono1) simp
  then have "?h * ?w < 2 ^ 32" using fit' unfolding mult.assoc by linarith
  then show "unat (i3_h x * i3_w x) = ?h * ?w" by (rule unat_mult_small)
  have X: "(unat k * ?h + unat j) * ?w < 2 ^ 32"
    using add_lessD1 [OF less_trans [OF b fit']] .
  moreover have "(unat k * ?h + unat j) * 1 \<le> (unat k * ?h + unat j) * ?w"
    using l by (intro mult_le_mono2) simp
  then have kj: "unat k * ?h + unat j < 2 ^ 32" using le_less_trans [OF _ X] by simp
  moreover have "unat k * ?h < 2 ^ 32" using add_lessD1 [OF kj] .
  ultimately show "unat (index3D_at x i j k) = (unat k * ?h + unat j) * ?w + unat i"
    using b fit' by (simp add: index3D_at_def unat_add_small unat_mult_small)
qed

lemma unat_triple:
  assumes "getTriple x idx = (tx, ty, tz)" "0 < i3_w x" "0 < i3_h x"
    and "unat (i3_h x) * unat (i3_w x) < 2 ^ 32"
  shows "unat tz = unat idx div (unat (i3_h x) * unat (i3_w x))"
    and "unat ty = unat idx mod (unat (i3_h x) * unat (i3_w x)) div unat (i3_w x)"
    and "unat tx = unat idx mod (unat (i3_h x) * unat (i3_w x)) mod unat (i3_w x)"
proof -
  let ?w = "unat (i3_w x)" and ?h = "unat (i3_h x)" and ?n = "unat idx"
  have hw: "unat (i3_h x * i3_w x) = ?h * ?w" using assms(4) by (rule unat_mult_small)
  have tz: "tz = idx div (i3_h x * i3_w x)" and ty: "ty = (idx - tz * i3_h x * i3_w x) div i3_w x"
      and tx: "tx = idx - tz * i3_h x * i3_w x - ty * i3_w x"
    using assms(1) by (auto simp: getTriple_def Let_def)
  show z: "unat tz = ?n div (?h * ?w)" using tz hw by (simp add: unat_div_distrib)
  have "unat tz * (?h * ?w) \<le> ?n" using z by (metis div_mult_mod_eq le_add1)
  then have "unat (tz * (i3_h x * i3_w x)) = unat tz * (?h * ?w)"
    using hw unat_uint_less [of idx] by (subst unat_mult_small) auto
  then have zz: "unat (tz * i3_h x * i3_w x) = ?n div (?h * ?w) * (?h * ?w)"
    using z by (simp add: mult.assoc)
  have le: "tz * i3_h x * i3_w x \<le> idx"
    unfolding word_le_nat_alt zz by (metis div_mult_mod_eq le_add1)
  have rem: "unat (idx - tz * i3_h x * i3_w x) = ?n mod (?h * ?w)"
    using unat_sub [OF le] zz by (simp add: minus_div_mult_eq_mod)
  then show y: "unat ty = ?n mod (?h * ?w) div ?w" using ty by (simp add: unat_div_distrib)
  have lt: "?n mod (?h * ?w) < 2 ^ 32"
    using unat_uint_less [of "idx - tz * i3_h x * i3_w x"] unfolding rem .
  have "unat ty * ?w < 2 ^ 32"
    unfolding y by (rule le_less_trans [OF div_times_less_eq_dividend lt])
  then have yy: "unat (ty * i3_w x) = ?n mod (?h * ?w) div ?w * ?w"
    using y unat_mult_small by simp
  have "ty * i3_w x \<le> idx - tz * i3_h x * i3_w x"
    unfolding word_le_nat_alt yy rem by (metis div_mult_mod_eq le_add1)
  then show "unat tx = ?n mod (?h * ?w) mod ?w"
    using tx rem yy by (simp add: unat_sub minus_div_mult_eq_mod)
qed

section \<open>Upper triangular indices\<close>

text \<open>Row \<open>j\<close> of the triangle starts at \<open>tri w j\<close> and has \<open>w - j\<close> entries.\<close>

definition tri :: "nat \<Rightarrow> nat \<Rightarrow> nat" where
  "tri w j = (\<Sum>k<j. w - k)"

lemma tri_closed: "j \<le> w \<Longrightarrow> 2 * tri w j = j * (2 * w + 1 - j)"
proof (induction j)
  case 0
  then show ?case by (simp add: tri_def)
next
  case (Suc j)
  then obtain d where d: "w = Suc j + d" by (auto simp: le_iff_add)
  from Suc show ?case by (simp add: tri_def d algebra_simps)
qed

lemma tri_formula:
  assumes "j < w"
  shows "j * (2 * w - 1 - j) div 2 + j = tri w j"
proof -
  obtain d where d: "w = Suc j + d" using assms by (auto simp: less_iff_Suc_add)
  have "j * (2 * w - 1 - j) + 2 * j = 2 * tri w j"
    using tri_closed [of j w] by (simp add: d algebra_simps)
  then show ?thesis by simp
qed

lemma tri_mono: "j \<le> k \<Longrightarrow> tri w j \<le> tri w k"
  unfolding tri_def by (intro sum_mono2) auto

lemma tri_Suc: "tri w (Suc j) = tri w j + (w - j)"
  by (simp add: tri_def)

lemma tri_row_exists:
  "m < tri w n \<Longrightarrow> \<exists>j<n. tri w j \<le> m \<and> m < tri w (Suc j)"
proof (induction n)
  case (Suc n)
  then show ?case by (cases "m < tri w n") (auto simp: less_Suc_eq)
qed (simp add: tri_def)

lemma unat_indexUpper:
  assumes "j \<le> i" "i < w" and fit: "unat w * (unat w + 1) < 2 ^ 32"
  shows "unat (indexUpper_at (Index2DUpperTriangular w) i j) = tri (unat w) (unat j) + (unat i - unat j)"
    and "unat (indexUpper_getNumElements (Index2DUpperTriangular w)) = tri (unat w) (unat w)"
proof -
  let ?w = "unat w" and ?i = "unat i" and ?j = "unat j"
  have l: "?j \<le> ?i" "?i < ?w" using assms by (simp_all add: word_less_nat_alt word_le_nat_alt)
  have w2: "?w \<le> ?w * ?w" by simp
  have wb: "?w + 1 < 2 ^ 32" "2 * ?w < 2 ^ 32"
  proof -
    have "?w + 1 \<le> ?w * (?w + 1)" using l by simp
    then show "?w + 1 < 2 ^ 32" using fit by linarith
    have "2 * ?w \<le> ?w * (?w + 1)" using l by simp
    then show "2 * ?w < 2 ^ 32" using fit by linarith
  qed
  have tm2: "unat (2 * w) = 2 * ?w"
    using wb by (subst unat_mult_small) auto
  have tm: "unat (2 * w - 1) = 2 * ?w - 1"
    using l tm2 by (subst unat_sub) (simp_all add: word_le_nat_alt)
  have jt: "unat (2 * w - 1 - j) = 2 * ?w - 1 - ?j"
    using l tm by (subst unat_sub) (simp_all add: word_le_nat_alt)
  have tt: "2 * tri ?w ?w = ?w * (?w + 1)" using tri_closed [of ?w ?w] by simp
  have "tri ?w ?j \<le> tri ?w ?w" using l by (intro tri_mono) simp
  moreover have f: "?j * (2 * ?w - 1 - ?j) div 2 + ?j = tri ?w ?j" using l by (intro tri_formula) simp
  moreover have "?j * (2 * ?w - 1 - ?j) \<le> ?j * (2 * ?w + 1 - ?j)" by (intro mult_le_mono2) simp
  ultimately have prod: "?j * (2 * ?w - 1 - ?j) < 2 ^ 32"
    using tri_closed [of ?j ?w] l tt fit by linarith
  have "?w - ?j > 0" "tri ?w (Suc ?j) \<le> tri ?w ?w" using l by (auto intro!: tri_mono)
  then have bound: "tri ?w ?j + (?i - ?j) < tri ?w ?w" using l by (simp add: tri_Suc)
  have half: "unat (j * (2 * w - 1 - j) div 2) = ?j * (2 * ?w - 1 - ?j) div 2"
    using jt prod by (simp add: unat_div_distrib unat_mult_small)
  show "unat (indexUpper_at (Index2DUpperTriangular w) i j) = tri ?w ?j + (?i - ?j)"
    using half f l bound tt fit assms(1)
    by (simp add: indexUpper_at_def Index2DUpperTriangular_def unat_add_small not_less [symmetric])
  have w1: "unat (w + 1) = ?w + 1" using wb by (subst unat_add_small) auto
  have "unat (w * (w + 1)) = ?w * (?w + 1)" using w1 fit by (subst unat_mult_small) auto
  then show "unat (indexUpper_getNumElements (Index2DUpperTriangular w)) = tri ?w ?w"
    using tt by (simp add: indexUpper_getNumElements_def Index2DUpperTriangular_def unat_div_distrib)
qed

section \<open>Properties\<close>

text \<open>C6: The 3D index map and \<open>getTriple\<close> are inverse to each other: every index triple of the
  array is recovered from its flat index, and every flat index below the number of elements is the
  index of exactly the triple that \<open>getTriple\<close> computes, provided the number of elements fits in
  32 bits.\<close>

theorem index3D_roundtrip:
  assumes fit: "unat (i3_w x) * unat (i3_h x) * unat (i3_d x) < 2 ^ 32"
  shows "(\<forall>i j k. i < i3_w x \<and> j < i3_h x \<and> k < i3_d x \<longrightarrow>
      getTriple x (index3D_at x i j k) = (i, j, k) \<and> index3D_at x i j k < index3D_getNumElements x) \<and>
    (\<forall>idx. idx < index3D_getNumElements x \<longrightarrow>
      (case getTriple x idx of (i, j, k) \<Rightarrow>
        i < i3_w x \<and> j < i3_h x \<and> k < i3_d x \<and> index3D_at x i j k = idx))"
proof -
  let ?w = "unat (i3_w x)" and ?h = "unat (i3_h x)" and ?d = "unat (i3_d x)"
  have num: "unat (index3D_getNumElements x) = ?w * ?h * ?d" if "0 < ?d"
  proof -
    have "?w * ?h \<le> ?w * ?h * ?d" using that by simp
    then have "unat (i3_w x * i3_h x) = ?w * ?h" using fit by (intro unat_mult_small) linarith
    then show ?thesis unfolding index3D_getNumElements_def using fit by (subst unat_mult_small) auto
  qed
  have hw: "?h * ?w < 2 ^ 32" if "0 < ?d"
  proof -
    have "?w * ?h * 1 \<le> ?w * ?h * ?d" using that by (intro mult_le_mono2) simp
    then show ?thesis using fit unfolding mult.commute [of ?h] by linarith
  qed
  have fwd: "getTriple x (index3D_at x i j k) = (i, j, k) \<and> index3D_at x i j k < index3D_getNumElements x"
    if l: "i < i3_w x" "j < i3_h x" "k < i3_d x" for i j k
  proof -
    note u = unat_index3D [OF l fit]
    have n: "unat i < ?w" "unat j < ?h" "unat k < ?d" using l by (simp_all add: word_less_nat_alt)
    obtain tx ty tz where t: "getTriple x (index3D_at x i j k) = (tx, ty, tz)" by (cases "getTriple x (index3D_at x i j k)")
    have row: "unat j * ?w + unat i < ?h * ?w" using n by (intro row_major_bound) simp_all
    have split: "unat (index3D_at x i j k) = unat k * (?h * ?w) + (unat j * ?w + unat i)"
      using u(1) by (simp add: algebra_simps)
    have "0 < i3_w x" "0 < i3_h x" "0 < ?d" using n by (auto simp: word_less_nat_alt)
    note tr = unat_triple [OF t this(1,2) hw [OF this(3)]]
    have "unat tz = unat k" "unat ty = unat j" "unat tx = unat i"
      using tr split row n by (auto simp: div_mult_self3 mod_mult_self3)
    then have "getTriple x (index3D_at x i j k) = (i, j, k)" using t by (simp add: word_unat_eq_iff)
    moreover have "index3D_at x i j k < index3D_getNumElements x"
      using u(1,2) num n by (simp add: word_less_nat_alt ac_simps)
    ultimately show ?thesis by simp
  qed
  have bwd: "case getTriple x idx of (i, j, k) \<Rightarrow>
      i < i3_w x \<and> j < i3_h x \<and> k < i3_d x \<and> index3D_at x i j k = idx"
    if l: "idx < index3D_getNumElements x" for idx
  proof -
    obtain i j k where t: "getTriple x idx = (i, j, k)" by (cases "getTriple x idx")
    have pos: "0 < ?w" "0 < ?h" "0 < ?d"
      using l by (auto simp: index3D_getNumElements_def unat_gt_0 intro!: gr0I)
    have n: "unat idx < ?w * ?h * ?d" using l num pos by (simp add: word_less_nat_alt)
    have "0 < i3_w x" "0 < i3_h x" using pos by (simp_all add: word_less_nat_alt)
    note tr = unat_triple [OF t this hw [OF pos(3)]]
    have "unat k < ?d" using tr(1) n pos by (simp add: less_mult_imp_div_less ac_simps)
    moreover have "unat j < ?h"
      using tr(2) pos by (simp add: less_mult_imp_div_less)
    moreover have "unat i < ?w" using tr(3) pos by simp
    ultimately have b: "i < i3_w x" "j < i3_h x" "k < i3_d x" by (simp_all add: word_less_nat_alt)
    have "unat (index3D_at x i j k) = unat idx"
    proof -
      have "unat (index3D_at x i j k) = unat k * (?h * ?w) + (unat j * ?w + unat i)"
        using unat_index3D(1) [OF b fit] by (simp add: algebra_simps)
      then show ?thesis unfolding tr div_mult_mod_eq .
    qed
    then show ?thesis using t b by (simp add: word_unat_eq_iff)
  qed
  show ?thesis using fwd bwd by blast
qed

theorem index3D_roundtrip_witness:
  "getTriple (Index3D 4 3 5) (index3D_at (Index3D 4 3 5) 3 1 2) = (3, 1, 2)"
  using index3D_roundtrip [of "Index3D 4 3 5"] by (simp add: Index3D_def)

text \<open>C7: The upper triangular index is symmetric in its arguments and maps the pairs of the
  triangle one to one onto the flat indices below the number of elements, provided \<open>w * (w + 1)\<close> fits
  in 32 bits.\<close>

theorem indexUpper_bijective:
  assumes fit: "unat w * (unat w + 1) < 2 ^ 32"
  shows "bij_betw (\<lambda>(i, j). indexUpper_at (Index2DUpperTriangular w) i j) {(i, j). j \<le> i \<and> i < w}
      {..<indexUpper_getNumElements (Index2DUpperTriangular w)} \<and>
    indexUpper_at (Index2DUpperTriangular w) a b = indexUpper_at (Index2DUpperTriangular w) b a"
proof -
  let ?f = "\<lambda>(i, j). indexUpper_at (Index2DUpperTriangular w) i j"
  let ?n = "indexUpper_getNumElements (Index2DUpperTriangular w)"
  note u = unat_indexUpper [OF _ _ fit]
  have row: "tri (unat w) (unat j) \<le> unat (?f (i, j)) \<and> unat (?f (i, j)) < tri (unat w) (Suc (unat j))"
    if "j \<le> i" "i < w" for i j
    using that unfolding prod.case u(1) [OF that] tri_Suc word_le_nat_alt word_less_nat_alt by linarith
  have "inj_on ?f {(i, j). j \<le> i \<and> i < w}"
  proof (rule inj_onI, clarify)
    fix i j i' j'
    assume l: "j \<le> i" "i < w" "j' \<le> i'" "i' < w"
      and eq: "indexUpper_at (Index2DUpperTriangular w) i j = indexUpper_at (Index2DUpperTriangular w) i' j'"
    have jj: "unat j = unat j'"
      using row [OF l(1,2)] row [OF l(3,4)] eq tri_mono [of "Suc (unat j)" "unat j'" "unat w"]
        tri_mono [of "Suc (unat j')" "unat j" "unat w"]
      by (cases "unat j" "unat j'" rule: linorder_cases) auto
    have "unat i - unat j = unat i' - unat j'"
      using u(1) [OF l(1,2)] u(1) [OF l(3,4)] eq jj by simp
    then have "unat i = unat i'" using jj l by (simp add: word_le_nat_alt)
    then show "i = i' \<and> j = j'" using jj by (simp add: word_unat_eq_iff)
  qed
  moreover have "?f ` {(i, j). j \<le> i \<and> i < w} = {..<?n}"
  proof (intro set_eqI iffI)
    fix m assume "m \<in> ?f ` {(i, j). j \<le> i \<and> i < w}"
    then obtain i j where l: "j \<le> i" "i < w" "m = ?f (i, j)" by auto
    have "unat m < tri (unat w) (unat w)"
      using row [OF l(1,2)] l tri_mono [of "Suc (unat j)" "unat w" "unat w"]
      by (simp add: word_le_nat_alt word_less_nat_alt)
    then show "m \<in> {..<?n}" using u(2) [OF l(1,2)] by (simp add: word_less_nat_alt)
  next
    fix m assume "m \<in> {..<?n}"
    then have lt: "m < ?n" by simp
    then have "0 < w" by (cases "w = 0") (auto simp: indexUpper_getNumElements_def Index2DUpperTriangular_def word_gt_0)
    then have "unat m < tri (unat w) (unat w)" using u(2) [of 0 0] lt by (simp add: word_less_nat_alt)
    then obtain jn where jn: "jn < unat w" "tri (unat w) jn \<le> unat m" "unat m < tri (unat w) (Suc jn)"
      using tri_row_exists by blast
    let ?in = "unat m - tri (unat w) jn + jn"
    have in_less: "?in < unat w" using jn by (simp add: tri_Suc)
    then have un: "unat (word_of_nat ?in :: uint) = ?in" "unat (word_of_nat jn :: uint) = jn"
      using unat_uint_less [of w] jn(1) unfolding unat_of_nat by simp_all
    have l: "(word_of_nat jn :: uint) \<le> word_of_nat ?in" "(word_of_nat ?in :: uint) < w"
      using un in_less unfolding word_le_nat_alt word_less_nat_alt by simp_all
    have "unat (?f (word_of_nat ?in, word_of_nat jn)) = unat m"
      using u(1) [OF l] un jn(2) by simp
    then have "m = ?f (word_of_nat ?in, word_of_nat jn)" by (simp add: word_unat_eq_iff)
    then show "m \<in> ?f ` {(i, j). j \<le> i \<and> i < w}" using l by blast
  qed
  ultimately show ?thesis
    by (auto simp: bij_betw_def indexUpper_at_def)
qed

theorem indexUpper_bijective_witness:
  "bij_betw (\<lambda>(i, j). indexUpper_at (Index2DUpperTriangular 4) i j) {(i, j). j \<le> i \<and> i < 4}
    {..<indexUpper_getNumElements (Index2DUpperTriangular 4)} \<and>
   indexUpper_at (Index2DUpperTriangular 4) 1 3 = indexUpper_at (Index2DUpperTriangular 4) 3 1"
  using indexUpper_bijective [of 4 1 3] by simp

text \<open>Beyond that bound the element count wraps: a 65536-wide triangle claims 32768 elements.\<close>

lemma indexUpper_wraps: "indexUpper_getNumElements (Index2DUpperTriangular 65536) = 32768"
  by (simp add: indexUpper_getNumElements_def Index2DUpperTriangular_def)

end
