(* ===== verification/BoxDim.thy ===== *)
theory BoxDim
  imports Complex_Main HOOMD_Prelude
begin

text \<open>
  The simulation box, \<open>src/hoomd/BoxDim.h\<close>: a triclinic periodic cell given by its corner
  coordinates, edge lengths, inverse lengths and tilt factors.  Coordinates are exact reals: the
  theorems are about the algebra of the code and not about floating point rounding.  Integer image
  counters are unbounded.  Division by zero is zero here and infinite in the code, so every theorem that
  divides by a box length assumes the length positive.

  The section on the model has one definition per method, in the order of the header.  The lemmas
  show that Cartesian and fractional coordinates are inverse to each other, that wrapping moves a vector by
  whole lattice vectors and into the box, that the host and device variants of the minimum image agree,
  and that the plane distances are those of the parallelepiped.
\<close>

section \<open>Vectors\<close>

text \<open>The element-wise operators on \<open>Scalar3\<close> and \<open>int3\<close> of \<open>HOOMDMath.h\<close>.\<close>

datatype 'a vec3 = Vec3 (vx: 'a) (vy: 'a) (vz: 'a)

type_synonym scalar3 = "real vec3"

type_synonym int3 = "int vec3"

instantiation vec3 :: (plus) plus
begin
definition plus_vec3 :: "'a vec3 \<Rightarrow> 'a vec3 \<Rightarrow> 'a vec3" where
  "plus_vec3 a b = Vec3 (vx a + vx b) (vy a + vy b) (vz a + vz b)"
instance ..
end

instantiation vec3 :: (minus) minus
begin
definition minus_vec3 :: "'a vec3 \<Rightarrow> 'a vec3 \<Rightarrow> 'a vec3" where
  "minus_vec3 a b = Vec3 (vx a - vx b) (vy a - vy b) (vz a - vz b)"
instance ..
end

instantiation vec3 :: (uminus) uminus
begin
definition uminus_vec3 :: "'a vec3 \<Rightarrow> 'a vec3" where
  "uminus_vec3 a = Vec3 (- vx a) (- vy a) (- vz a)"
instance ..
end

instantiation vec3 :: (times) times
begin
definition times_vec3 :: "'a vec3 \<Rightarrow> 'a vec3 \<Rightarrow> 'a vec3" where
  "times_vec3 a b = Vec3 (vx a * vx b) (vy a * vy b) (vz a * vz b)"
instance ..
end

instantiation vec3 :: (zero) zero
begin
definition zero_vec3 :: "'a vec3" where
  "zero_vec3 = Vec3 0 0 0"
instance ..
end

definition vec_div :: "scalar3 \<Rightarrow> scalar3 \<Rightarrow> scalar3" where
  "vec_div a b = Vec3 (vx a / vx b) (vy a / vy b) (vz a / vz b)"

definition scale3 :: "real \<Rightarrow> scalar3 \<Rightarrow> scalar3" where
  "scale3 c a = Vec3 (c * vx a) (c * vy a) (c * vz a)"

lemmas vec_defs = plus_vec3_def minus_vec3_def uminus_vec3_def times_vec3_def zero_vec3_def
  vec_div_def scale3_def

instance vec3 :: (ab_group_add) ab_group_add
  by standard (auto simp: vec_defs vec3.expand algebra_simps)

section \<open>Model\<close>

record boxDim =
  m_lo :: scalar3
  m_hi :: scalar3
  m_L :: scalar3
  m_Linv :: scalar3
  m_xy :: real
  m_xz :: real
  m_yz :: real
  m_periodic :: "bool vec3"

definition BoxDim_default :: boxDim where
  "BoxDim_default = \<lparr>m_lo = Vec3 0 0 0, m_hi = Vec3 0 0 0, m_L = Vec3 0 0 0, m_Linv = Vec3 0 0 0,
     m_xy = 0, m_xz = 0, m_yz = 0, m_periodic = Vec3 True True True\<rparr>"

definition setL :: "scalar3 \<Rightarrow> boxDim \<Rightarrow> boxDim" where
  "setL L b = (let hi = Vec3 (vx L / 2) (vy L / 2) (vz L / 2);
     inv = vec_div (Vec3 1 1 1) L;
     inv = (if vz L = 0 then Vec3 (vx inv) (vy inv) 0 else inv)
     in b\<lparr>m_hi := hi, m_lo := - hi, m_Linv := inv, m_L := L\<rparr>)"

definition setLoHi :: "scalar3 \<Rightarrow> scalar3 \<Rightarrow> boxDim \<Rightarrow> boxDim" where
  "setLoHi lo hi b = (let inv = vec_div (Vec3 1 1 1) (hi - lo);
     inv = (if vz hi = 0 \<and> vz lo = 0 then Vec3 (vx inv) (vy inv) 0 else inv)
     in b\<lparr>m_hi := hi, m_lo := lo, m_Linv := inv, m_L := hi - lo\<rparr>)"

definition setTiltFactors :: "real \<Rightarrow> real \<Rightarrow> real \<Rightarrow> boxDim \<Rightarrow> boxDim" where
  "setTiltFactors xy xz yz b = b\<lparr>m_xy := xy, m_xz := xz, m_yz := yz\<rparr>"

definition setPeriodic :: "bool vec3 \<Rightarrow> boxDim \<Rightarrow> boxDim" where
  "setPeriodic p b = b\<lparr>m_periodic := p\<rparr>"

definition BoxDim_L :: "scalar3 \<Rightarrow> boxDim" where
  "BoxDim_L L = (setL L BoxDim_default)\<lparr>m_periodic := Vec3 True True True, m_xz := 0, m_xy := 0, m_yz := 0\<rparr>"

definition BoxDim_tilted :: "real \<Rightarrow> real \<Rightarrow> real \<Rightarrow> real \<Rightarrow> boxDim" where
  "BoxDim_tilted Len xy xz yz =
     setPeriodic (Vec3 True True True) (setTiltFactors xy xz yz (setL (Vec3 Len Len Len) BoxDim_default))"

definition BoxDim_lohi :: "scalar3 \<Rightarrow> scalar3 \<Rightarrow> bool vec3 \<Rightarrow> boxDim" where
  "BoxDim_lohi lo hi periodic =
     (setLoHi lo hi BoxDim_default)\<lparr>m_periodic := periodic, m_xz := 0, m_xy := 0, m_yz := 0\<rparr>"

definition rsqrt :: "real \<Rightarrow> real" where
  "rsqrt x = 1 / sqrt x"

definition getNearestPlaneDistance :: "boxDim \<Rightarrow> scalar3" where
  "getNearestPlaneDistance b = Vec3
     (vx (m_L b) * rsqrt (1 + m_xy b * m_xy b + (m_xy b * m_yz b - m_xz b) * (m_xy b * m_yz b - m_xz b)))
     (vy (m_L b) * rsqrt (1 + m_yz b * m_yz b))
     (if vz (m_L b) = 0 then 1 else vz (m_L b))"

definition makeFraction :: "boxDim \<Rightarrow> scalar3 \<Rightarrow> scalar3 \<Rightarrow> scalar3" where
  "makeFraction b v ghost_width = (let delta = v - m_lo b;
     delta = Vec3 (vx delta - ((m_xz b - m_yz b * m_xy b) * vz v + m_xy b * vy v)) (vy delta) (vz delta);
     delta = Vec3 (vx delta) (vy delta - m_yz b * vz v) (vz delta);
     ghost_frac = vec_div ghost_width (getNearestPlaneDistance b)
     in vec_div (delta * m_Linv b + ghost_frac) (Vec3 1 1 1 + scale3 2 ghost_frac))"

definition makeCoordinates :: "boxDim \<Rightarrow> scalar3 \<Rightarrow> scalar3" where
  "makeCoordinates b f = (let v = m_lo b + f * m_L b;
     v = Vec3 (vx v + (m_xy b * vy v + m_xz b * vz v)) (vy v) (vz v)
     in Vec3 (vx v) (vy v + m_yz b * vz v) (vz v))"

text \<open>The conversion of a floating point value to \<open>int\<close> truncates; \<open>rint\<close> rounds halves to even.\<close>

definition to_int :: "real \<Rightarrow> int" where
  "to_int r = (if 0 \<le> r then \<lfloor>r\<rfloor> else \<lceil>r\<rceil>)"

definition rint :: "real \<Rightarrow> int" where
  "rint r = (let n = \<lfloor>r\<rfloor>; d = r - of_int n in
     if d < 1 / 2 then n else if 1 / 2 < d then n + 1 else if even n then n else n + 1)"

text \<open>The host branch of \<open>minImage\<close>, one definition per direction.\<close>

definition minImage_z :: "boxDim \<Rightarrow> scalar3 \<Rightarrow> scalar3" where
  "minImage_z b w =
    (if vz (m_periodic b) then
       if vz w \<ge> vz (m_hi b) then
         Vec3 (vx w - vz (m_L b) * m_xz b) (vy w - vz (m_L b) * m_yz b) (vz w - vz (m_L b))
       else if vz w < vz (m_lo b) then
         Vec3 (vx w + vz (m_L b) * m_xz b) (vy w + vz (m_L b) * m_yz b) (vz w + vz (m_L b))
       else w
     else w)"

definition minImage_y :: "boxDim \<Rightarrow> scalar3 \<Rightarrow> scalar3" where
  "minImage_y b w =
    (if vy (m_periodic b) then
       if vy w \<ge> vy (m_hi b) then
         let i = to_int (vy w * vy (m_Linv b) + 1 / 2) in
         Vec3 (vx w - of_int i * vy (m_L b) * m_xy b) (vy w - of_int i * vy (m_L b)) (vz w)
       else if vy w < vy (m_lo b) then
         let i = to_int (- vy w * vy (m_Linv b) + 1 / 2) in
         Vec3 (vx w + of_int i * vy (m_L b) * m_xy b) (vy w + of_int i * vy (m_L b)) (vz w)
       else w
     else w)"

definition minImage_x :: "boxDim \<Rightarrow> scalar3 \<Rightarrow> scalar3" where
  "minImage_x b w =
    (if vx (m_periodic b) then
       if vx w \<ge> vx (m_hi b) then
         let i = to_int (vx w * vx (m_Linv b) + 1 / 2) in
         Vec3 (vx w - of_int i * vx (m_L b)) (vy w) (vz w)
       else if vx w < vx (m_lo b) then
         let i = to_int (- vx w * vx (m_Linv b) + 1 / 2) in
         Vec3 (vx w + of_int i * vx (m_L b)) (vy w) (vz w)
       else w
     else w)"

definition minImage :: "boxDim \<Rightarrow> scalar3 \<Rightarrow> scalar3" where
  "minImage b v = minImage_x b (minImage_y b (minImage_z b v))"

text \<open>The device branch, which rounds to the nearest image.\<close>

definition minImage_device :: "boxDim \<Rightarrow> scalar3 \<Rightarrow> scalar3" where
  "minImage_device b v = (let
     w = (if vz (m_periodic b) then
            let img = of_int (rint (vz v * vz (m_Linv b))) in
            Vec3 (vx v - vz (m_L b) * m_xz b * img) (vy v - vz (m_L b) * m_yz b * img) (vz v - vz (m_L b) * img)
          else v);
     w = (if vy (m_periodic b) then
            let img = of_int (rint (vy w * vy (m_Linv b))) in
            Vec3 (vx w - vy (m_L b) * m_xy b * img) (vy w - vy (m_L b) * img) (vz w)
          else w)
     in if vx (m_periodic b) then
          Vec3 (vx w - vx (m_L b) * of_int (rint (vx w * vx (m_Linv b)))) (vy w) (vz w)
        else w)"

definition wrap_origin :: "boxDim \<Rightarrow> scalar3" where
  "wrap_origin b = (let c = m_hi b + m_lo b in Vec3 (vx c / 2)
     (if vy (m_periodic b) then vy c / 2 else 0) (if vz (m_periodic b) then vz c / 2 else 0))"

definition wrap_x :: "boxDim \<Rightarrow> int \<Rightarrow> scalar3 \<times> int3 \<Rightarrow> scalar3 \<times> int3" where
  "wrap_x b flag s = (case s of (w, img) \<Rightarrow>
    (if vx (m_periodic b) then
       let tilt_x = (m_xz b - m_xy b * m_yz b) * (vz w - vz (wrap_origin b))
             + m_xy b * (vy w - vy (wrap_origin b)) in
       if vx w \<ge> vx (m_hi b) + tilt_x \<and> flag = 0 \<or> flag = 1 then
         (Vec3 (vx w - vx (m_L b)) (vy w) (vz w), Vec3 (vx img + 1) (vy img) (vz img))
       else if vx w < vx (m_lo b) + tilt_x \<and> flag = 0 \<or> flag = - 1 then
         (Vec3 (vx w + vx (m_L b)) (vy w) (vz w), Vec3 (vx img - 1) (vy img) (vz img))
       else (w, img)
     else (w, img)))"

definition wrap_y :: "boxDim \<Rightarrow> int \<Rightarrow> scalar3 \<times> int3 \<Rightarrow> scalar3 \<times> int3" where
  "wrap_y b flag s = (case s of (w, img) \<Rightarrow>
    (if vy (m_periodic b) then
       let tilt_y = m_yz b * (vz w - vz (wrap_origin b)) in
       if vy w \<ge> vy (m_hi b) + tilt_y \<and> flag = 0 \<or> flag = 1 then
         (Vec3 (vx w - vy (m_L b) * m_xy b) (vy w - vy (m_L b)) (vz w),
          Vec3 (vx img) (vy img + 1) (vz img))
       else if vy w < vy (m_lo b) + tilt_y \<and> flag = 0 \<or> flag = - 1 then
         (Vec3 (vx w + vy (m_L b) * m_xy b) (vy w + vy (m_L b)) (vz w),
          Vec3 (vx img) (vy img - 1) (vz img))
       else (w, img)
     else (w, img)))"

definition wrap_z :: "boxDim \<Rightarrow> int \<Rightarrow> scalar3 \<times> int3 \<Rightarrow> scalar3 \<times> int3" where
  "wrap_z b flag s = (case s of (w, img) \<Rightarrow>
    (if vz (m_periodic b) then
       if vz w \<ge> vz (m_hi b) \<and> flag = 0 \<or> flag = 1 then
         (Vec3 (vx w - vz (m_L b) * m_xz b) (vy w - vz (m_L b) * m_yz b) (vz w - vz (m_L b)),
          Vec3 (vx img) (vy img) (vz img + 1))
       else if vz w < vz (m_lo b) \<and> flag = 0 \<or> flag = - 1 then
         (Vec3 (vx w + vz (m_L b) * m_xz b) (vy w + vz (m_L b) * m_yz b) (vz w + vz (m_L b)),
          Vec3 (vx img) (vy img) (vz img - 1))
       else (w, img)
     else (w, img)))"

definition wrap :: "boxDim \<Rightarrow> int3 \<Rightarrow> scalar3 \<Rightarrow> int3 \<Rightarrow> scalar3 \<times> int3" where
  "wrap b flags w img = wrap_z b (vz flags) (wrap_y b (vy flags) (wrap_x b (vx flags) (w, img)))"

definition getImage :: "boxDim \<Rightarrow> scalar3 \<Rightarrow> int3" where
  "getImage b v = (let f = makeFraction b v 0 - Vec3 (1 / 2) (1 / 2) (1 / 2);
     img = (\<lambda>c. to_int (if 0 \<le> c then c + 1 / 2 else c - 1 / 2)) in
     Vec3 (if vx (m_periodic b) then img (vx f) else 0)
          (if vy (m_periodic b) then img (vy f) else 0)
          (if vz (m_periodic b) then img (vz f) else 0))"

definition getLatticeVector :: "boxDim \<Rightarrow> nat \<Rightarrow> scalar3" where
  "getLatticeVector b i =
    (if i = 0 then Vec3 (vx (m_L b)) 0 0
     else if i = 1 then Vec3 (vy (m_L b) * m_xy b) (vy (m_L b)) 0
     else if i = 2 then Vec3 (vz (m_L b) * m_xz b) (vz (m_L b) * m_yz b) (vz (m_L b))
     else Vec3 0 0 0)"

definition shift :: "boxDim \<Rightarrow> scalar3 \<Rightarrow> int3 \<Rightarrow> scalar3" where
  "shift b v s = v + scale3 (of_int (vx s)) (getLatticeVector b 0)
     + scale3 (of_int (vy s)) (getLatticeVector b 1) + scale3 (of_int (vz s)) (getLatticeVector b 2)"

definition getVolume :: "boxDim \<Rightarrow> bool \<Rightarrow> real" where
  "getVolume b twod =
    (if twod then vx (m_L b) * vy (m_L b) else vx (m_L b) * vy (m_L b) * vz (m_L b))"

definition box_eq :: "boxDim \<Rightarrow> boxDim \<Rightarrow> bool" where
  "box_eq b c \<longleftrightarrow> m_L b = m_L c \<and> m_xy b = m_xy c \<and> m_xz b = m_xz c \<and> m_yz b = m_yz c"

section \<open>Well-formed boxes\<close>

definition box_ok :: "boxDim \<Rightarrow> bool" where
  "box_ok b \<longleftrightarrow> m_L b = m_hi b - m_lo b \<and> m_Linv b = vec_div (Vec3 1 1 1) (m_L b) \<and>
     0 < vx (m_L b) \<and> 0 < vy (m_L b) \<and> 0 < vz (m_L b)"

definition centred :: "boxDim \<Rightarrow> bool" where
  "centred b \<longleftrightarrow> (vx (m_periodic b) \<longrightarrow> vx (m_lo b) = - vx (m_hi b)) \<and>
     (vy (m_periodic b) \<longrightarrow> vy (m_lo b) = - vy (m_hi b)) \<and>
     (vz (m_periodic b) \<longrightarrow> vz (m_lo b) = - vz (m_hi b))"

lemma box_okD:
  assumes "box_ok b"
  shows "0 < vx (m_L b)" "0 < vy (m_L b)" "0 < vz (m_L b)"
    "vx (m_Linv b) = 1 / vx (m_L b)" "vy (m_Linv b) = 1 / vy (m_L b)" "vz (m_Linv b) = 1 / vz (m_L b)"
    "vx (m_L b) = vx (m_hi b) - vx (m_lo b)" "vy (m_L b) = vy (m_hi b) - vy (m_lo b)"
    "vz (m_L b) = vz (m_hi b) - vz (m_lo b)"
  using assms by (auto simp: box_ok_def vec_defs)

lemma setL_ok:
  assumes "0 < vx L" "0 < vy L" "0 < vz L"
  shows "box_ok (setL L b)" "centred (setL L b)"
  using assms by (auto simp: box_ok_def centred_def setL_def vec_defs Let_def vec3.expand)

lemma setLoHi_ok:
  assumes "vx lo < vx hi" "vy lo < vy hi" "vz lo < vz hi"
  shows "box_ok (setLoHi lo hi b)"
  using assms by (auto simp: box_ok_def setLoHi_def vec_defs Let_def)

lemma setTiltFactors_ok [simp]:
  "box_ok (setTiltFactors xy xz yz b) = box_ok b" "centred (setTiltFactors xy xz yz b) = centred b"
  by (auto simp: box_ok_def centred_def setTiltFactors_def)

lemma setPeriodic_ok [simp]: "box_ok (setPeriodic p b) = box_ok b"
  by (auto simp: box_ok_def setPeriodic_def)

lemma BoxDim_tilted_ok:
  "0 < Len \<Longrightarrow> box_ok (BoxDim_tilted Len xy xz yz) \<and> centred (BoxDim_tilted Len xy xz yz)"
  by (auto simp: BoxDim_tilted_def setL_ok)
   (auto simp: centred_def setPeriodic_def setTiltFactors_def setL_def vec_defs Let_def)

section \<open>Fractional coordinates\<close>

lemma makeFraction_0:
  "makeFraction b v 0 = Vec3
     ((vx v - vx (m_lo b) - ((m_xz b - m_yz b * m_xy b) * vz v + m_xy b * vy v)) * vx (m_Linv b))
     ((vy v - vy (m_lo b) - m_yz b * vz v) * vy (m_Linv b))
     ((vz v - vz (m_lo b)) * vz (m_Linv b))"
  by (simp add: makeFraction_def vec_defs Let_def)

lemma scaled_cancel:
  fixes c :: real
  assumes "0 < c"
  shows "1 \<le> d * (1 / c) \<longleftrightarrow> c \<le> d" "d * (1 / c) < 0 \<longleftrightarrow> d < 0" "d * (1 / c) * c = d"
  using assms by (auto simp: field_simps)

lemma fraction_shift:
  assumes "box_ok b"
  shows "makeFraction b (shift b v s) 0
     = makeFraction b v 0 + Vec3 (of_int (vx s)) (of_int (vy s)) (of_int (vz s))"
  using box_okD(1-6) [OF assms] unfolding makeFraction_0
  by (simp add: shift_def getLatticeVector_def vec_defs) (simp add: field_simps)

lemma makeFraction_inj:
  assumes "box_ok b" and "makeFraction b v 0 = makeFraction b w 0"
  shows "v = w"
  using box_okD [OF assms(1)] assms(2)
  by (cases v; cases w) (auto simp: makeFraction_0)

lemma makeCoordinates_makeFraction:
  assumes "box_ok b"
  shows "makeCoordinates b (makeFraction b v 0) = v"
  using box_okD(1-6) [OF assms] unfolding makeFraction_0
  by (cases v) (simp only: makeCoordinates_def vec_defs Let_def vec3.sel scaled_cancel,
      simp add: algebra_simps)

lemma makeFraction_makeCoordinates:
  assumes "box_ok b"
  shows "makeFraction b (makeCoordinates b f) 0 = f"
proof -
  have "vx (m_L b) \<noteq> 0" "vy (m_L b) \<noteq> 0" "vz (m_L b) \<noteq> 0"
    "vx (m_Linv b) = 1 / vx (m_L b)" "vy (m_Linv b) = 1 / vy (m_L b)" "vz (m_Linv b) = 1 / vz (m_L b)"
    using box_okD [OF assms] by auto
  then show ?thesis unfolding makeFraction_0
    by (cases f) (simp add: makeCoordinates_def vec_defs Let_def algebra_simps)
qed

section \<open>Wrapping\<close>

lemma shift_lattice:
  "shift b v s = Vec3
     (vx v + of_int (vx s) * vx (m_L b) + of_int (vy s) * (vy (m_L b) * m_xy b)
        + of_int (vz s) * (vz (m_L b) * m_xz b))
     (vy v + of_int (vy s) * vy (m_L b) + of_int (vz s) * (vz (m_L b) * m_yz b))
     (vz v + of_int (vz s) * vz (m_L b))"
  by (simp add: shift_def getLatticeVector_def vec_defs)

lemma shift_shift: "shift b (shift b v s) t = shift b v (s + t)"
  by (simp add: shift_lattice vec_defs algebra_simps)

lemma shift_0 [simp]: "shift b v 0 = v"
  by (simp add: shift_lattice vec_defs)

text \<open>Each wrapping step moves the vector by a number of lattice vectors and counts them in the image.\<close>

definition wrap_amount :: "bool \<Rightarrow> bool \<Rightarrow> bool \<Rightarrow> int \<Rightarrow> int" where
  "wrap_amount periodic over_hi under_lo flag =
    (if periodic then if over_hi \<and> flag = 0 \<or> flag = 1 then 1
       else if under_lo \<and> flag = 0 \<or> flag = - 1 then - 1 else 0 else 0)"

lemma wrap_x_shift: "wrap_x b flag (w, img) = (let n = wrap_amount (vx (m_periodic b))
    (vx w \<ge> vx (m_hi b) + ((m_xz b - m_xy b * m_yz b) * (vz w - vz (wrap_origin b))
       + m_xy b * (vy w - vy (wrap_origin b))))
    (vx w < vx (m_lo b) + ((m_xz b - m_xy b * m_yz b) * (vz w - vz (wrap_origin b))
       + m_xy b * (vy w - vy (wrap_origin b)))) flag
    in (shift b w (Vec3 (- n) 0 0), img + Vec3 n 0 0))"
  by (auto simp: wrap_x_def wrap_amount_def shift_lattice vec_defs Let_def vec3.expand)

lemma wrap_y_shift: "wrap_y b flag (w, img) = (let n = wrap_amount (vy (m_periodic b))
    (vy w \<ge> vy (m_hi b) + m_yz b * (vz w - vz (wrap_origin b)))
    (vy w < vy (m_lo b) + m_yz b * (vz w - vz (wrap_origin b))) flag
    in (shift b w (Vec3 0 (- n) 0), img + Vec3 0 n 0))"
  by (auto simp: wrap_y_def wrap_amount_def shift_lattice vec_defs Let_def vec3.expand)

lemma wrap_z_shift: "wrap_z b flag (w, img) = (let n = wrap_amount (vz (m_periodic b))
    (vz w \<ge> vz (m_hi b)) (vz w < vz (m_lo b)) flag
    in (shift b w (Vec3 0 0 (- n)), img + Vec3 0 0 n))"
  by (auto simp: wrap_z_def wrap_amount_def shift_lattice vec_defs Let_def vec3.expand)

text \<open>The tests of the code are tests on the fractional coordinates, and so do not depend on the
  order in which the directions are wrapped.\<close>

lemma wrap_frac:
  fixes w :: scalar3
  assumes ok: "box_ok b" and c: "centred b"
  defines "f \<equiv> makeFraction b w 0"
  shows "wrap b flags w img = (let
     n = Vec3 (wrap_amount (vx (m_periodic b)) (1 \<le> vx f) (vx f < 0) (vx flags))
              (wrap_amount (vy (m_periodic b)) (1 \<le> vy f) (vy f < 0) (vy flags))
              (wrap_amount (vz (m_periodic b)) (1 \<le> vz f) (vz f < 0) (vz flags))
     in (shift b w (- n), img + n))"
proof -
  note L = box_okD [OF ok]
  have oy: "vy (wrap_origin b) = 0" and oz: "vz (wrap_origin b) = 0"
    using c by (auto simp: wrap_origin_def centred_def Let_def vec_defs)
  have x: "(vx v \<ge> vx (m_hi b) + ((m_xz b - m_xy b * m_yz b) * (vz v - vz (wrap_origin b))
       + m_xy b * (vy v - vy (wrap_origin b)))) \<longleftrightarrow> 1 \<le> vx (makeFraction b v 0)"
    "(vx v < vx (m_lo b) + ((m_xz b - m_xy b * m_yz b) * (vz v - vz (wrap_origin b))
       + m_xy b * (vy v - vy (wrap_origin b)))) \<longleftrightarrow> vx (makeFraction b v 0) < 0" for v
    using L(7) unfolding makeFraction_0 vec3.sel oy oz L(4) scaled_cancel [OF L(1)]
    by (auto simp: algebra_simps)
  have y: "(vy v \<ge> vy (m_hi b) + m_yz b * (vz v - vz (wrap_origin b))) \<longleftrightarrow> 1 \<le> vy (makeFraction b v 0)"
    "(vy v < vy (m_lo b) + m_yz b * (vz v - vz (wrap_origin b))) \<longleftrightarrow> vy (makeFraction b v 0) < 0" for v
    using L(8) unfolding makeFraction_0 vec3.sel oz L(5) scaled_cancel [OF L(2)]
    by (auto simp: algebra_simps)
  have z: "(vz v \<ge> vz (m_hi b)) \<longleftrightarrow> 1 \<le> vz (makeFraction b v 0)"
    "(vz v < vz (m_lo b)) \<longleftrightarrow> vz (makeFraction b v 0) < 0" for v
    using L(9) unfolding makeFraction_0 vec3.sel L(6) scaled_cancel [OF L(3)] by auto
  show ?thesis
    by (simp only: wrap_def wrap_x_shift wrap_y_shift wrap_z_shift x y z Let_def f_def
          fraction_shift [OF ok] shift_shift)
       (simp add: vec_defs)
qed
lemma wrap_keeps_position:
  "shift b (fst (wrap b flags w img)) (snd (wrap b flags w img)) = shift b w img"
  by (simp add: wrap_def wrap_x_shift wrap_y_shift wrap_z_shift Let_def shift_shift add_ac)
     (simp add: vec_defs)

lemma wrap_fraction:
  assumes "box_ok b" "centred b"
  shows "makeFraction b (fst (wrap b 0 w img)) 0 = (let f = makeFraction b w 0 in f - Vec3
      (of_int (wrap_amount (vx (m_periodic b)) (1 \<le> vx f) (vx f < 0) 0))
      (of_int (wrap_amount (vy (m_periodic b)) (1 \<le> vy f) (vy f < 0) 0))
      (of_int (wrap_amount (vz (m_periodic b)) (1 \<le> vz f) (vz f < 0) 0)))"
  unfolding wrap_frac [OF assms] Let_def fst_conv fraction_shift [OF assms(1)]
  by (simp add: minus_vec3_def plus_vec3_def uminus_vec3_def zero_vec3_def [where 'a = int])

section \<open>Minimum images\<close>

definition image_count :: "bool \<Rightarrow> real \<Rightarrow> real \<Rightarrow> real \<Rightarrow> real \<Rightarrow> int" where
  "image_count periodic lo hi Linv w =
    (if periodic then if w \<ge> hi then to_int (w * Linv + 1 / 2)
       else if w < lo then - to_int (- w * Linv + 1 / 2) else 0 else 0)"

definition image_count_z :: "bool \<Rightarrow> real \<Rightarrow> real \<Rightarrow> real \<Rightarrow> int" where
  "image_count_z periodic lo hi w = (if periodic then if w \<ge> hi then 1 else if w < lo then - 1 else 0 else 0)"

lemma minImage_x_shift: "minImage_x b w =
    shift b w (Vec3 (- image_count (vx (m_periodic b)) (vx (m_lo b)) (vx (m_hi b)) (vx (m_Linv b)) (vx w)) 0 0)"
  by (cases w) (auto simp: minImage_x_def image_count_def shift_lattice Let_def)

lemma minImage_y_shift: "minImage_y b w =
    shift b w (Vec3 0 (- image_count (vy (m_periodic b)) (vy (m_lo b)) (vy (m_hi b)) (vy (m_Linv b)) (vy w)) 0)"
  by (cases w) (auto simp: minImage_y_def image_count_def shift_lattice Let_def)

lemma minImage_z_shift: "minImage_z b w =
    shift b w (Vec3 0 0 (- image_count_z (vz (m_periodic b)) (vz (m_lo b)) (vz (m_hi b)) (vz w)))"
  by (cases w) (auto simp: minImage_z_def image_count_z_def shift_lattice Let_def)

lemma image_count_half:
  fixes L w :: real
  assumes "0 < L"
  shows "\<bar>w - of_int (image_count True (- (L / 2)) (L / 2) (1 / L) w) * L\<bar> \<le> L / 2"
proof -
  have floor: "u - of_int \<lfloor>u / L + 1 / 2\<rfloor> * L < L / 2" "- (L / 2) \<le> u - of_int \<lfloor>u / L + 1 / 2\<rfloor> * L" for u
  proof -
    define n where "n = (of_int \<lfloor>u / L + 1 / 2\<rfloor> :: real)"
    have "n - 1 / 2 \<le> u / L" "u / L < n + 1 / 2" unfolding n_def by linarith+
    then have "(n - 1 / 2) * L \<le> u" "u < (n + 1 / 2) * L"
      using assms by (simp_all add: pos_le_divide_eq pos_divide_less_eq)
    then have "n * L - L / 2 \<le> u" "u < n * L + L / 2" by (simp_all add: algebra_simps)
    then show "u - of_int \<lfloor>u / L + 1 / 2\<rfloor> * L < L / 2" "- (L / 2) \<le> u - of_int \<lfloor>u / L + 1 / 2\<rfloor> * L"
      unfolding n_def by linarith+
  qed
  consider (up) "L / 2 \<le> w" | (down) "w < - (L / 2)" | (mid) "- (L / 2) \<le> w" "w < L / 2" by linarith
  then show ?thesis
  proof cases
    case up
    then have "0 \<le> w / L + 1 / 2" using assms by simp
    then show ?thesis using up floor [of w] unfolding abs_le_iff by (auto simp: image_count_def to_int_def)
  next
    case down
    then have "0 \<le> - w / L + 1 / 2" using assms by (simp add: field_simps)
    then show ?thesis using down assms floor [of "- w"] unfolding abs_le_iff by (auto simp: image_count_def to_int_def)
  next
    case mid
    then show ?thesis by (auto simp: image_count_def)
  qed
qed

lemma image_count_z_half:
  assumes "\<bar>w\<bar> \<le> 3 / 2 * L"
  shows "\<bar>w - of_int (image_count_z True (- (L / 2)) (L / 2) w) * L\<bar> \<le> L / 2"
  using assms unfolding image_count_z_def abs_le_iff by auto

lemma rint_nearest:
  assumes "\<bar>r - of_int n\<bar> < 1 / 2"
  shows "rint r = n"
proof -
  have "\<lfloor>r\<rfloor> = n \<or> \<lfloor>r\<rfloor> = n - 1" using assms by linarith
  then show ?thesis using assms by (auto simp: rint_def Let_def)
qed

lemma rint_image:
  fixes L :: real
  assumes "0 < L" "\<bar>w - of_int n * L\<bar> < L / 2"
  shows "rint (w * (1 / L)) = n"
proof (rule rint_nearest)
  have "w * (1 / L) - of_int n = (w - of_int n * L) / L"
    using assms(1) by (simp add: field_simps)
  then have "\<bar>w * (1 / L) - of_int n\<bar> = \<bar>w - of_int n * L\<bar> / L"
    using assms(1) by simp
  then show "\<bar>w * (1 / L) - of_int n\<bar> < 1 / 2"
    using assms by (simp add: pos_divide_less_eq)
qed

lemma centred_half:
  assumes "box_ok b" "centred b"
  shows "vx (m_periodic b) \<Longrightarrow> vx (m_hi b) = vx (m_L b) / 2 \<and> vx (m_lo b) = - (vx (m_L b) / 2)"
    "vy (m_periodic b) \<Longrightarrow> vy (m_hi b) = vy (m_L b) / 2 \<and> vy (m_lo b) = - (vy (m_L b) / 2)"
    "vz (m_periodic b) \<Longrightarrow> vz (m_hi b) = vz (m_L b) / 2 \<and> vz (m_lo b) = - (vz (m_L b) / 2)"
  using box_okD(7-9) [OF assms(1)] assms(2) by (auto simp: centred_def)

lemma minImage_shift: "\<exists>n. minImage b v = shift b v n \<and>
    (\<not> vx (m_periodic b) \<longrightarrow> vx n = 0) \<and> (\<not> vy (m_periodic b) \<longrightarrow> vy n = 0) \<and>
    (\<not> vz (m_periodic b) \<longrightarrow> vz n = 0)"
  unfolding minImage_def minImage_x_shift minImage_y_shift minImage_z_shift shift_shift
  by (rule exI, rule conjI, rule refl) (simp add: image_count_def image_count_z_def vec_defs)

lemma minImage_untouched [simp]:
  "vy (minImage_x b w) = vy w" "vz (minImage_x b w) = vz w" "vz (minImage_y b w) = vz w"
  by (simp_all add: minImage_x_shift minImage_y_shift shift_lattice)

lemma minImage_components:
  fixes b :: boxDim and v :: scalar3
  defines "z \<equiv> minImage_z b v"
  defines "y \<equiv> minImage_y b z"
  shows "vz (minImage b v) = vz v - of_int (image_count_z (vz (m_periodic b)) (vz (m_lo b)) (vz (m_hi b)) (vz v)) * vz (m_L b)"
    "vy (minImage b v) = vy z - of_int (image_count (vy (m_periodic b)) (vy (m_lo b)) (vy (m_hi b)) (vy (m_Linv b)) (vy z)) * vy (m_L b)"
    "vx (minImage b v) = vx y - of_int (image_count (vx (m_periodic b)) (vx (m_lo b)) (vx (m_hi b)) (vx (m_Linv b)) (vx y)) * vx (m_L b)"
proof -
  show "vz (minImage b v) = vz v - of_int (image_count_z (vz (m_periodic b)) (vz (m_lo b)) (vz (m_hi b)) (vz v)) * vz (m_L b)"
    unfolding minImage_def minImage_untouched by (simp add: minImage_z_shift shift_lattice)
  show "vy (minImage b v) = vy z - of_int (image_count (vy (m_periodic b)) (vy (m_lo b)) (vy (m_hi b)) (vy (m_Linv b)) (vy z)) * vy (m_L b)"
    unfolding minImage_def minImage_untouched z_def [symmetric] by (simp add: minImage_y_shift shift_lattice)
  show "vx (minImage b v) = vx y - of_int (image_count (vx (m_periodic b)) (vx (m_lo b)) (vx (m_hi b)) (vx (m_Linv b)) (vx y)) * vx (m_L b)"
    unfolding minImage_def z_def [symmetric] y_def [symmetric] by (simp add: minImage_x_shift shift_lattice)
qed

lemma minImage_half:
  assumes ok: "box_ok b" "centred b"
  shows "vx (m_periodic b) \<Longrightarrow> \<bar>vx (minImage b v)\<bar> \<le> vx (m_L b) / 2"
    "vy (m_periodic b) \<Longrightarrow> \<bar>vy (minImage b v)\<bar> \<le> vy (m_L b) / 2"
    "vz (m_periodic b) \<Longrightarrow> \<bar>vz v\<bar> \<le> 3 / 2 * vz (m_L b) \<Longrightarrow> \<bar>vz (minImage b v)\<bar> \<le> vz (m_L b) / 2"
proof -
  show "\<bar>vx (minImage b v)\<bar> \<le> vx (m_L b) / 2" if "vx (m_periodic b)"
    unfolding minImage_components using that image_count_half [OF box_okD(1) [OF ok(1)]]
    by (simp only: centred_half(1) [OF ok that] box_okD(4) [OF ok(1)])
  show "\<bar>vy (minImage b v)\<bar> \<le> vy (m_L b) / 2" if "vy (m_periodic b)"
    unfolding minImage_components using that image_count_half [OF box_okD(2) [OF ok(1)]]
    by (simp only: centred_half(2) [OF ok that] box_okD(5) [OF ok(1)])
  show "\<bar>vz (minImage b v)\<bar> \<le> vz (m_L b) / 2"
    if "vz (m_periodic b)" "\<bar>vz v\<bar> \<le> 3 / 2 * vz (m_L b)"
    unfolding minImage_components using that image_count_z_half [OF that(2)]
    by (simp only: centred_half(3) [OF ok that(1)])
qed

definition strictly_inside :: "boxDim \<Rightarrow> scalar3 \<Rightarrow> bool" where
  "strictly_inside b w \<longleftrightarrow> (vx (m_periodic b) \<longrightarrow> \<bar>vx w\<bar> < vx (m_L b) / 2) \<and>
     (vy (m_periodic b) \<longrightarrow> \<bar>vy w\<bar> < vy (m_L b) / 2) \<and> (vz (m_periodic b) \<longrightarrow> \<bar>vz w\<bar> < vz (m_L b) / 2)"

lemma device_rint:
  fixes b :: boxDim and v :: scalar3
  assumes ok: "box_ok b" and inside: "strictly_inside b (minImage b v)"
  defines "z \<equiv> minImage_z b v"
  defines "y \<equiv> minImage_y b z"
  shows "vz (m_periodic b) \<Longrightarrow> rint (vz v * vz (m_Linv b)) =
      image_count_z True (vz (m_lo b)) (vz (m_hi b)) (vz v)"
    "vy (m_periodic b) \<Longrightarrow> rint (vy z * vy (m_Linv b)) =
      image_count True (vy (m_lo b)) (vy (m_hi b)) (vy (m_Linv b)) (vy z)"
    "vx (m_periodic b) \<Longrightarrow> rint (vx y * vx (m_Linv b)) =
      image_count True (vx (m_lo b)) (vx (m_hi b)) (vx (m_Linv b)) (vx y)"
proof -
  note inside' = inside [unfolded strictly_inside_def minImage_components z_def [symmetric] y_def [symmetric]]
  show "rint (vz v * vz (m_Linv b)) = image_count_z True (vz (m_lo b)) (vz (m_hi b)) (vz v)"
    if "vz (m_periodic b)"
    unfolding box_okD(6) [OF ok] using inside' that by (intro rint_image box_okD(3) [OF ok]) simp
  show "rint (vy z * vy (m_Linv b)) = image_count True (vy (m_lo b)) (vy (m_hi b)) (vy (m_Linv b)) (vy z)"
    if "vy (m_periodic b)"
    unfolding box_okD(5) [OF ok] using inside' that
    by (intro rint_image box_okD(2) [OF ok]) (simp add: box_okD(5) [OF ok])
  show "rint (vx y * vx (m_Linv b)) = image_count True (vx (m_lo b)) (vx (m_hi b)) (vx (m_Linv b)) (vx y)"
    if "vx (m_periodic b)"
    unfolding box_okD(4) [OF ok] using inside' that
    by (intro rint_image box_okD(1) [OF ok]) (simp add: box_okD(4) [OF ok])
qed

section \<open>Properties\<close>

text \<open>The reference notions for the plane distances: cross product and norm.\<close>

definition cross3 :: "scalar3 \<Rightarrow> scalar3 \<Rightarrow> scalar3" where
  "cross3 a b = Vec3 (vy a * vz b - vz a * vy b) (vz a * vx b - vx a * vz b) (vx a * vy b - vy a * vx b)"

definition norm3 :: "scalar3 \<Rightarrow> real" where
  "norm3 a = sqrt (vx a * vx a + vy a * vy a + vz a * vz a)"

definition demo_box :: boxDim where
  "demo_box = BoxDim_tilted 10 (1 / 2) 0 (1 / 4)"

lemma demo_box_ok [simp]: "box_ok demo_box" "centred demo_box"
  by (simp_all add: demo_box_def BoxDim_tilted_ok)

lemma demo_box_eq: "demo_box = \<lparr>m_lo = Vec3 (- 5) (- 5) (- 5), m_hi = Vec3 5 5 5, m_L = Vec3 10 10 10,
    m_Linv = Vec3 (1 / 10) (1 / 10) (1 / 10), m_xy = 1 / 2, m_xz = 0, m_yz = 1 / 4,
    m_periodic = Vec3 True True True\<rparr>"
  by (simp add: demo_box_def BoxDim_tilted_def setL_def setTiltFactors_def setPeriodic_def
      BoxDim_default_def vec_defs Let_def)

text \<open>C8: Wrapping never changes the position a particle has in unwrapped space: the wrapped vector
  shifted by the new image is the old vector shifted by the old image, whatever the flags.  In a
  well-formed box, a vector that is at most one image away ends with all its fractional coordinates
  along periodic directions in the half-open unit interval, and the others are left alone.\<close>

theorem wrap_correct:
  assumes "box_ok b" "centred b"
    and f: "f = makeFraction b w 0" and g: "g = makeFraction b (fst (wrap b 0 w img)) 0"
  shows "shift b (fst (wrap b flags w img)) (snd (wrap b flags w img)) = shift b w img \<and>
      (vx (m_periodic b) \<longrightarrow> - 1 \<le> vx f \<and> vx f < 2 \<longrightarrow> 0 \<le> vx g \<and> vx g < 1) \<and>
      (vy (m_periodic b) \<longrightarrow> - 1 \<le> vy f \<and> vy f < 2 \<longrightarrow> 0 \<le> vy g \<and> vy g < 1) \<and>
      (vz (m_periodic b) \<longrightarrow> - 1 \<le> vz f \<and> vz f < 2 \<longrightarrow> 0 \<le> vz g \<and> vz g < 1) \<and>
      (\<not> vx (m_periodic b) \<longrightarrow> vx g = vx f) \<and> (\<not> vy (m_periodic b) \<longrightarrow> vy g = vy f) \<and>
      (\<not> vz (m_periodic b) \<longrightarrow> vz g = vz f)"
  unfolding g wrap_fraction [OF assms(1,2)] f [symmetric]
  by (auto simp: wrap_keeps_position wrap_amount_def minus_vec3_def Let_def)

theorem wrap_correct_witness:
  "wrap demo_box 0 (Vec3 9 2 0) 0 = (Vec3 (- 1) 2 0, Vec3 1 0 0) \<and>
   0 \<le> vx (makeFraction demo_box (fst (wrap demo_box 0 (Vec3 9 2 0) 0)) 0)"
proof -
  have p: "vx (m_periodic demo_box)" by (simp add: demo_box_eq)
  have "- 1 \<le> vx (makeFraction demo_box (Vec3 9 2 0) 0) \<and> vx (makeFraction demo_box (Vec3 9 2 0) 0) < 2"
    by (simp add: makeFraction_0 demo_box_eq)
  then have "0 \<le> vx (makeFraction demo_box (fst (wrap demo_box 0 (Vec3 9 2 0) 0)) 0)"
    using wrap_correct [OF demo_box_ok refl refl, where w = "Vec3 9 2 0" and img = 0] p by blast
  then show ?thesis
    by (simp add: wrap_def wrap_x_def wrap_y_def wrap_z_def wrap_origin_def demo_box_eq vec_defs Let_def)
qed

text \<open>C9: The minimum image differs from the vector by whole lattice vectors along periodic directions,
  and its components along these are at most half a box length, provided the z component starts within
  one image of the box.\<close>

theorem minImage_correct:
  assumes "box_ok b" "centred b" and "\<bar>vz v\<bar> \<le> 3 / 2 * vz (m_L b)"
  shows "(\<exists>n. minImage b v = shift b v n \<and> (\<not> vx (m_periodic b) \<longrightarrow> vx n = 0) \<and>
      (\<not> vy (m_periodic b) \<longrightarrow> vy n = 0) \<and> (\<not> vz (m_periodic b) \<longrightarrow> vz n = 0)) \<and>
    (vx (m_periodic b) \<longrightarrow> \<bar>vx (minImage b v)\<bar> \<le> vx (m_L b) / 2) \<and>
    (vy (m_periodic b) \<longrightarrow> \<bar>vy (minImage b v)\<bar> \<le> vy (m_L b) / 2) \<and>
    (vz (m_periodic b) \<longrightarrow> \<bar>vz (minImage b v)\<bar> \<le> vz (m_L b) / 2)"
  using minImage_shift minImage_half [OF assms(1,2)] assms(3) by simp

theorem minImage_correct_witness:
  "\<bar>vz (Vec3 17 (- 22) (12::real))\<bar> \<le> 3 / 2 * vz (m_L demo_box) \<and>
   \<bar>vy (minImage demo_box (Vec3 17 (- 22) 12))\<bar> \<le> 5"
proof -
  have h: "\<bar>vz (Vec3 17 (- 22) (12::real))\<bar> \<le> 3 / 2 * vz (m_L demo_box)"
    by (simp add: demo_box_eq)
  show ?thesis
    using minImage_correct [OF demo_box_ok h] h by (simp add: demo_box_eq)
qed

text \<open>C10: The host code (comparisons and a truncation) and the device code (rounding) of the minimum image
  compute the same vector whenever the host result is strictly inside the box, so they can differ only on
  its faces.\<close>

theorem minImage_device_agrees:
  assumes "box_ok b" and "strictly_inside b (minImage b v)"
  shows "minImage_device b v = minImage b v"
proof -
  have z: "minImage_z b v = (if vz (m_periodic b) then
            let img = of_int (rint (vz v * vz (m_Linv b))) in
            Vec3 (vx v - vz (m_L b) * m_xz b * img) (vy v - vz (m_L b) * m_yz b * img) (vz v - vz (m_L b) * img)
          else v)"
    using device_rint(1) [OF assms] unfolding minImage_z_shift shift_lattice
    by (cases v) (auto simp: image_count_z_def Let_def mult_ac)
  have y: "minImage_y b (minImage_z b v) = (let w = minImage_z b v in if vy (m_periodic b) then
            let img = of_int (rint (vy w * vy (m_Linv b))) in
            Vec3 (vx w - vy (m_L b) * m_xy b * img) (vy w - vy (m_L b) * img) (vz w)
          else w)"
    using device_rint(2) [OF assms] unfolding minImage_y_shift shift_lattice
    by (cases "minImage_z b v") (auto simp: image_count_def Let_def mult_ac)
  have x: "minImage b v = (let w = minImage_y b (minImage_z b v) in if vx (m_periodic b) then
          Vec3 (vx w - vx (m_L b) * of_int (rint (vx w * vx (m_Linv b)))) (vy w) (vz w)
        else w)"
    using device_rint(3) [OF assms] unfolding minImage_def minImage_x_shift shift_lattice
    by (cases "minImage_y b (minImage_z b v)") (auto simp: image_count_def Let_def mult_ac)
  show ?thesis
    unfolding x unfolding y unfolding z unfolding minImage_device_def Let_def ..
qed

theorem minImage_device_agrees_witness:
  "minImage_device demo_box (Vec3 9 (- 22) 12) = minImage demo_box (Vec3 9 (- 22) 12)"
proof -
  have "strictly_inside demo_box (minImage demo_box (Vec3 9 (- 22) 12))"
    by (simp add: minImage_def minImage_x_def minImage_y_def minImage_z_def demo_box_eq Let_def
        to_int_def strictly_inside_def)
  then show ?thesis by (rule minImage_device_agrees [OF demo_box_ok(1)])
qed

text \<open>C11: Fractional and Cartesian coordinates are inverse to each other in every well-formed triclinic box.\<close>

theorem fraction_roundtrip:
  assumes "box_ok b"
  shows "makeCoordinates b (makeFraction b v 0) = v \<and> makeFraction b (makeCoordinates b f) 0 = f"
  using assms by (simp add: makeCoordinates_makeFraction makeFraction_makeCoordinates)

theorem fraction_roundtrip_witness:
  "makeFraction demo_box (makeCoordinates demo_box (Vec3 (1 / 4) (1 / 2) (3 / 4))) 0 = Vec3 (1 / 4) (1 / 2) (3 / 4)"
  using fraction_roundtrip [OF demo_box_ok(1)] by blast

text \<open>The image of a fractional coordinate: its floor, except on the lower faces of the box and of its images with a
  non-positive index, where it is one less.\<close>

definition image_index :: "real \<Rightarrow> int" where
  "image_index f = (if f \<in> \<int> \<and> f \<le> 0 then \<lfloor>f\<rfloor> - 1 else \<lfloor>f\<rfloor>)"

lemma to_int_image: "to_int (if 0 \<le> f - 1 / 2 then f - 1 / 2 + 1 / 2 else f - 1 / 2 - 1 / 2) = image_index f"
proof (cases "f \<in> \<int>")
  case True
  then obtain n where "f = of_int n" by (elim Ints_cases)
  then show ?thesis by (cases "n \<le> 0") (auto simp: image_index_def to_int_def)
next
  case False
  then have "\<lceil>f\<rceil> = \<lfloor>f\<rfloor> + 1" by (simp add: ceiling_altdef) (metis Ints_of_int)
  then show ?thesis using False by (auto simp: image_index_def to_int_def)
qed

text \<open>C12: Along every periodic direction \<open>getImage\<close> is the floor of the fractional coordinate of that direction, except on
  the lower faces of the box and of its images with a non-positive index, where it is one less: there it disagrees with \<open>wrap\<close>,
  which counts a lower face as inside.  Along the other directions it is 0.\<close>

theorem getImage_floor:
  assumes "f = makeFraction b v 0"
  shows "getImage b v = Vec3 (if vx (m_periodic b) then image_index (vx f) else 0)
    (if vy (m_periodic b) then image_index (vy f) else 0) (if vz (m_periodic b) then image_index (vz f) else 0)"
  unfolding getImage_def Let_def minus_vec3_def vec3.sel to_int_image assms ..

theorem getImage_floor_witness:
  "getImage demo_box (Vec3 (- 25 / 4) 0 10) = Vec3 (- 1) 0 1 \<and>
   wrap demo_box 0 (Vec3 (- 5) 0 0) 0 = (Vec3 (- 5) 0 0, 0)"
proof -
  have f: "Vec3 0 (1 / 4) (3 / 2) = makeFraction demo_box (Vec3 (- 25 / 4) 0 10) 0" by (simp add: makeFraction_0 demo_box_eq)
  show ?thesis
    using getImage_floor [OF f]
    by (simp add: wrap_def wrap_x_def wrap_y_def wrap_z_def wrap_origin_def demo_box_eq vec_defs Let_def image_index_def)
qed

text \<open>C13: The nearest plane distances are the box volume divided by the area of the respective face, the norm
  of the cross product of the two lattice vectors that span it.\<close>

theorem plane_distance_correct:
  assumes "box_ok b"
  shows "vx (getNearestPlaneDistance b) * norm3 (cross3 (getLatticeVector b 1) (getLatticeVector b 2)) = getVolume b False \<and>
    vy (getNearestPlaneDistance b) * norm3 (cross3 (getLatticeVector b 2) (getLatticeVector b 0)) = getVolume b False \<and>
    vz (getNearestPlaneDistance b) * norm3 (cross3 (getLatticeVector b 0) (getLatticeVector b 1)) = getVolume b False"
proof -
  note L = box_okD(1-3) [OF assms]
  have root: "rsqrt s * sqrt (p * p * s) = p" if "0 < s" "0 < p" for s p
    using that by (simp add: rsqrt_def real_sqrt_mult)
  have sx: "0 < 1 + m_xy b * m_xy b + (m_xy b * m_yz b - m_xz b) * (m_xy b * m_yz b - m_xz b)"
    and sy: "0 < 1 + m_yz b * m_yz b"
    by (simp_all add: add_pos_nonneg)
  have x: "norm3 (cross3 (getLatticeVector b 1) (getLatticeVector b 2)) =
      sqrt (vy (m_L b) * vz (m_L b) * (vy (m_L b) * vz (m_L b)) *
        (1 + m_xy b * m_xy b + (m_xy b * m_yz b - m_xz b) * (m_xy b * m_yz b - m_xz b)))"
    by (simp add: norm3_def cross3_def getLatticeVector_def) (simp add: algebra_simps)
  have y: "norm3 (cross3 (getLatticeVector b 2) (getLatticeVector b 0)) =
      sqrt (vx (m_L b) * vz (m_L b) * (vx (m_L b) * vz (m_L b)) * (1 + m_yz b * m_yz b))"
    by (simp add: norm3_def cross3_def getLatticeVector_def) (simp add: algebra_simps)
  have z: "norm3 (cross3 (getLatticeVector b 0) (getLatticeVector b 1)) = vx (m_L b) * vy (m_L b)"
    using L by (simp add: norm3_def cross3_def getLatticeVector_def flip: power2_eq_square)
  show ?thesis
    unfolding x y z
    using L root [OF sx, of "vy (m_L b) * vz (m_L b)"] root [OF sy, of "vx (m_L b) * vz (m_L b)"]
    by (simp add: getNearestPlaneDistance_def getVolume_def mult.assoc)
qed

theorem plane_distance_correct_witness:
  "vz (getNearestPlaneDistance demo_box) * norm3 (cross3 (getLatticeVector demo_box 0) (getLatticeVector demo_box 1)) = 1000"
  using plane_distance_correct [OF demo_box_ok(1)] by (simp add: getVolume_def demo_box_eq)

end
