(* ===== verification/TagTable.thy ===== *)
theory TagTable
  imports GPUVector
begin

text \<open>
  Global tags and reverse lookup tables, shared by \<open>ParticleData\<close> and \<open>BondedGroupData\<close>.  Both classes
  keep the same bookkeeping: the local objects carry a unique global tag, a reverse table \<open>rtag\<close> maps a
  tag to a local index or to a sentinel, a \<open>std::set\<close> holds the active tags and a stack the tags that
  were removed and may be used again.

  A \<open>GlobalVector\<close> of the code is here the host buffer with its full capacity and the number of
  elements in use, because the code relies on the elements behind the end surviving a shrink.
\<close>

section \<open>Vectors as host buffers\<close>

record host_vector =
  hv_buf :: "nat list"
  hv_size :: nat

definition hv_resize :: "nat \<Rightarrow> host_vector \<Rightarrow> host_vector" where
  "hv_resize n v = (let need = max n 1; cap = length (hv_buf v);
     cap' = (if need > cap then grow need (if cap \<noteq> 0 then cap else 1) else cap)
     in \<lparr>hv_buf = hv_buf v @ replicate (cap' - cap) 0, hv_size = n\<rparr>)"

definition hv_set :: "nat \<Rightarrow> nat \<Rightarrow> host_vector \<Rightarrow> host_vector" where
  "hv_set i x v = v\<lparr>hv_buf := (hv_buf v)[i := x]\<rparr>"

section \<open>Tags\<close>

text \<open>The sentinel \<open>NOT_LOCAL\<close> of the particles and \<open>GROUP_NOT_LOCAL\<close> of the groups: \<open>0xffffffff\<close>.\<close>

definition NOT_LOCAL :: nat where
  "NOT_LOCAL = 4294967295"

text \<open>The next tag: the top of the stack of recycled tags, or else the number of active ones.\<close>

definition new_tag :: "nat \<Rightarrow> nat list \<Rightarrow> nat \<times> nat list" where
  "new_tag nglobal recycled = (case recycled of [] \<Rightarrow> (nglobal, []) | t # r \<Rightarrow> (t, r))"

text \<open>The loop that recomputes the reverse table from the local tags.\<close>

definition reindex :: "nat list \<Rightarrow> nat list \<Rightarrow> nat list" where
  "reindex ts rb = foldl (\<lambda>rb i. rb[ts ! i := i]) rb [0..<length ts]"

text \<open>Removing one element by moving the last one into its place.\<close>

definition swap_remove :: "nat \<Rightarrow> 'a list \<Rightarrow> 'a list" where
  "swap_remove i xs = butlast (xs[i := last xs])"

text \<open>The invariant: local tags \<open>ts\<close>, reverse table \<open>rb\<close>, active tags \<open>ac\<close> in ascending order and
  recycled tags \<open>rc\<close>.\<close>

definition tags_ok :: "nat list \<Rightarrow> nat list \<Rightarrow> nat list \<Rightarrow> nat list \<Rightarrow> bool" where
  "tags_ok ts rb ac rc \<longleftrightarrow>
     sorted ac \<and> distinct ac \<and> distinct rc \<and> set ac \<inter> set rc = {} \<and>
     set ac \<union> set rc = {..<length ac + length rc} \<and> length ac + length rc \<le> length rb \<and>
     (\<forall>i<length ts. ts ! i \<in> set ac \<and> rb ! (ts ! i) = i) \<and>
     (\<forall>t\<in>set ac. rb ! t \<noteq> NOT_LOCAL \<longrightarrow> rb ! t < length ts \<and> ts ! (rb ! t) = t) \<and>
     (\<forall>t\<in>set rc. rb ! t = NOT_LOCAL) \<and> length ts \<le> NOT_LOCAL"

lemma tags_okD:
  assumes "tags_ok ts rb ac rc"
  shows "sorted ac" "distinct ac" "distinct rc" "set ac \<inter> set rc = {}"
    "set ac \<union> set rc = {..<length ac + length rc}" "length ac + length rc \<le> length rb"
    "i < length ts \<Longrightarrow> ts ! i \<in> set ac" "i < length ts \<Longrightarrow> rb ! (ts ! i) = i"
    "t \<in> set ac \<Longrightarrow> rb ! t \<noteq> NOT_LOCAL \<Longrightarrow> rb ! t < length ts"
    "t \<in> set ac \<Longrightarrow> rb ! t \<noteq> NOT_LOCAL \<Longrightarrow> ts ! (rb ! t) = t"
    "t \<in> set rc \<Longrightarrow> rb ! t = NOT_LOCAL" "length ts \<le> NOT_LOCAL"
  using assms by (simp_all add: tags_ok_def)

lemma tags_ok_less:
  assumes "tags_ok ts rb ac rc" "t \<in> set ac \<union> set rc"
  shows "t < length rb"
  using tags_okD(5,6) [OF assms(1)] assms(2) by auto

lemma tags_ok_distinct: "tags_ok ts rb ac rc \<Longrightarrow> distinct ts"
  unfolding distinct_conv_nth by (metis tags_okD(8))

lemma tags_ok_set: "tags_ok ts rb ac rc \<Longrightarrow> set ts = {t \<in> set ac. rb ! t \<noteq> NOT_LOCAL}"
  using tags_okD(7-10,12) [of ts rb ac rc]
  by (auto simp: in_set_conv_nth) (metis less_le_not_le)+

lemma tags_ok_rtag:
  assumes "tags_ok ts rb ac rc" "t \<in> set ac"
  shows "rb ! t = NOT_LOCAL \<longleftrightarrow> \<not> rb ! t < length ts"
  using tags_okD(9) [OF assms(1), of t] tags_okD(12) [OF assms(1)] assms(2) by auto

text \<open>A fresh tag.\<close>

lemma new_tag_props:
  assumes ok: "tags_ok ts rb ac rc" and "new_tag (length ac) rc = (t, rc')"
  shows "t \<notin> set ac" "t \<notin> set rc'" "set rc' \<subseteq> set rc" "distinct rc'" "t \<le> length ac + length rc'"
    "set ac \<union> set rc' \<union> {t} = {..<length ac + length rc' + 1}" "t \<notin> set ts"
proof -
  note d = tags_okD(1-6) [OF ok]
  have goals: "t \<notin> set ac \<and> t \<notin> set rc' \<and> set rc' \<subseteq> set rc \<and> distinct rc' \<and>
    set ac \<union> set rc' \<union> {t} = {..<length ac + length rc' + 1}"
  proof (cases rc)
    case Nil
    then have "t = length ac" "rc' = []" using assms(2) by (auto simp: new_tag_def)
    moreover have "set ac = {..<length ac}" using d(5) Nil by simp
    ultimately show ?thesis by (simp add: lessThan_Suc)
  next
    case (Cons r rs)
    then have "t = r" "rc' = rs" using assms(2) by (auto simp: new_tag_def)
    moreover have "set ac \<union> insert r (set rs) = {..<length ac + Suc (length rs)}" using d(5) Cons by simp
    moreover have "r \<notin> set ac" "r \<notin> set rs" "distinct rs" using d(3,4) Cons by auto
    ultimately show ?thesis using Cons by (simp add: subset_insertI)
  qed
  show "t \<notin> set ac" "t \<notin> set rc'" "set rc' \<subseteq> set rc" "distinct rc'"
    "set ac \<union> set rc' \<union> {t} = {..<length ac + length rc' + 1}" using goals by blast+
  show "t \<le> length ac + length rc'"
  proof -
    have "t \<in> {..<length ac + length rc' + 1}" using goals by blast
    then show ?thesis by simp
  qed
  show "t \<notin> set ts"
    using goals tags_ok_set [OF ok] by auto
qed

lemma length_insort_insert: "t \<notin> set xs \<Longrightarrow> length (insort_insert t xs) = Suc (length xs)"
  by (simp add: insort_insert_key_def)

lemma tags_ok_add:
  assumes ok: "tags_ok ts rb ac rc" and new: "new_tag (length ac) rc = (t, rc')"
    and rb': "rb' = rb @ zs" and len: "t < length rb'" and room: "length ts < NOT_LOCAL"
  shows "tags_ok (ts @ [t]) (rb'[t := length ts]) (insort_insert t ac) rc'" (is ?local)
    and "tags_ok ts (rb'[t := NOT_LOCAL]) (insort_insert t ac) rc'" (is ?remote)
proof -
  note d = tags_okD [OF ok]
  note n = new_tag_props [OF ok new]
  have rec: "length rc' = length rc \<or> t = length ac \<and> rc = [] \<and> rc' = [] \<or> length rc = Suc (length rc')"
    using new by (auto simp: new_tag_def split: list.splits)
  have bound: "length ac + length rc' + 1 \<le> length rb'"
    using d(6) rb' len new by (auto simp: new_tag_def split: list.splits)
  have old: "rb' ! s = rb ! s" if "s \<in> set ac \<union> set rc'" for s
    using tags_ok_less [OF ok, of s] that n(3) by (auto simp: rb' nth_append)
  have rcnt: "rb ! s = NOT_LOCAL" if "s \<in> set rc'" for s
    using d(11) n(3) that by blast
  have common: "sorted (insort_insert t ac)" "distinct (insort_insert t ac)" "distinct rc'"
    "set (insort_insert t ac) \<inter> set rc' = {}"
    "set (insort_insert t ac) \<union> set rc' = {..<length (insort_insert t ac) + length rc'}"
    "length (insort_insert t ac) + length rc' \<le> length rb'"
    using d(1-6) n bound
    by (auto simp: sorted_insort_insert distinct_insort_insert set_insort_insert length_insort_insert)
  show ?local
    unfolding tags_ok_def
    using common d(7-10) n(1,2,7) len room old rcnt
    by (auto simp: nth_append nth_list_update set_insort_insert less_Suc_eq in_set_conv_nth)
  show ?remote
    unfolding tags_ok_def
    using common d(7-10) n(1,2,7) len room old rcnt
    by (auto simp: nth_list_update set_insort_insert)
qed


text \<open>Removing an object, local or not.\<close>

lemma swap_remove_nth:
  assumes "i < length xs" "j < length xs - 1"
  shows "swap_remove i xs ! j = (if j = i then last xs else xs ! j)"
  using assms by (auto simp: swap_remove_def nth_butlast nth_list_update)

lemma length_swap_remove [simp]: "length (swap_remove i xs) = length xs - 1"
  by (simp add: swap_remove_def)

lemma set_swap_remove:
  assumes "distinct xs" "i < length xs"
  shows "set (swap_remove i xs) = set xs - {xs ! i}"
proof (cases xs rule: rev_cases)
  case (snoc ys y)
  then show ?thesis
    using assms by (cases "i = length ys")
      (auto simp: swap_remove_def list_update_append nth_append butlast_append set_update_distinct)
qed (use assms in simp)

lemma tags_ok_remove_active:
  assumes ok: "tags_ok ts rb ac rc" and t: "t \<in> set ac"
  shows "sorted (remove1 t ac)" "distinct (remove1 t ac)" "distinct (t # rc)"
    "set (remove1 t ac) \<inter> set (t # rc) = {}"
    "set (remove1 t ac) \<union> set (t # rc) = {..<length (remove1 t ac) + length (t # rc)}"
    "length (remove1 t ac) + length (t # rc) \<le> length rb"
proof -
  note d = tags_okD(1-6) [OF ok]
  have len: "length (remove1 t ac) + length (t # rc) = length ac + length rc"
    using t length_pos_if_in_set [OF t] by (simp add: length_remove1)
  show "sorted (remove1 t ac)" "distinct (remove1 t ac)" "distinct (t # rc)"
    "set (remove1 t ac) \<inter> set (t # rc) = {}"
    using d t by (auto simp: sorted_remove1)
  show "set (remove1 t ac) \<union> set (t # rc) = {..<length (remove1 t ac) + length (t # rc)}"
    unfolding len d(5) [symmetric] using t d(2) by auto
  show "length (remove1 t ac) + length (t # rc) \<le> length rb"
    unfolding len by (rule d(6))
qed

lemma tags_ok_remove_remote:
  assumes ok: "tags_ok ts rb ac rc" and t: "t \<in> set ac" and r: "rb ! t = NOT_LOCAL"
  shows "tags_ok ts rb (remove1 t ac) (t # rc)"
  unfolding tags_ok_def
  using tags_ok_remove_active [OF ok t] tags_okD(2,7-12) [OF ok] r
  by (auto simp: set_remove1_eq)

lemma tags_ok_remove_local:
  assumes ok: "tags_ok ts rb ac rc" and t: "t \<in> set ac" and i: "i < length ts" "rb ! t = i"
  defines "rb' \<equiv> rb[t := NOT_LOCAL]"
  shows "tags_ok (swap_remove i ts) (if i < length ts - 1 then rb'[last ts := i] else rb')
    (remove1 t ac) (t # rc)"
proof -
  note d = tags_okD [OF ok] and dd = tags_ok_distinct [OF ok]
  have ne: "i \<noteq> NOT_LOCAL" using i d(12) by simp
  have ti: "ts ! i = t" using d(10) [OF t] i ne by simp
  have lt: "t < length rb" using tags_ok_less [OF ok] t by blast
  define l where "l = length ts - 1"
  have last: "last ts = ts ! l" using i by (cases ts rule: rev_cases) (auto simp: l_def)
  have ll: "last ts < length rb" "last ts \<in> set ac" "rb ! last ts = l"
    using d(7,8) [of l] tags_ok_less [OF ok] i by (auto simp: last l_def)
  define rb2 where "rb2 = (if i < length ts - 1 then rb'[last ts := i] else rb')"
  have rb2: "rb2 ! s = (if s = last ts \<and> i < l then i else if s = t then NOT_LOCAL else rb ! s)"
    if "s < length rb" for s
    using that lt ll by (auto simp: rb2_def rb'_def nth_list_update l_def)
  have len2: "length rb2 = length rb" by (simp add: rb2_def rb'_def)
  have neq: "last ts \<noteq> t" if "i < l"
    using that ti dd i by (auto simp: last l_def nth_eq_iff_index_eq)
  have 1: "swap_remove i ts ! j \<in> set (remove1 t ac) \<and> rb2 ! (swap_remove i ts ! j) = j"
    if "j < length ts - 1" for j
  proof (cases "j = i")
    case True
    then show ?thesis
      using that ll neq d(2) rb2 [OF ll(1)] by (simp add: swap_remove_nth i set_remove1_eq l_def)
  next
    case False
    then have "ts ! j \<noteq> t" "ts ! j \<noteq> last ts"
      using that ti dd i by (auto simp: last l_def nth_eq_iff_index_eq)
    then show ?thesis
      using that False d(2) d(7,8) [of j] rb2 [of "ts ! j"] tags_ok_less [OF ok, of "ts ! j"]
      by (simp add: swap_remove_nth i set_remove1_eq)
  qed
  have 2: "rb2 ! s < length ts - 1 \<and> swap_remove i ts ! (rb2 ! s) = s"
    if s: "s \<in> set (remove1 t ac)" "rb2 ! s \<noteq> NOT_LOCAL" for s
  proof -
    have sa: "s \<in> set ac" "s \<noteq> t" "s < length rb"
      using s(1) d(2) tags_ok_less [OF ok] by (auto simp: set_remove1_eq)
    show ?thesis
    proof (cases "s = last ts \<and> i < l")
      case True
      then show ?thesis using rb2 [OF sa(3)] i by (simp add: swap_remove_nth l_def)
    next
      case False
      then have e: "rb2 ! s = rb ! s" using rb2 [OF sa(3)] sa by (simp only: if_False)
      then have r: "rb ! s < length ts" "ts ! (rb ! s) = s" using d(9,10) [OF sa(1)] s(2) by auto
      have "rb ! s \<noteq> l"
      proof
        assume "rb ! s = l"
        then have "s = last ts" using r last by simp
        then have "i = l" using False i by (auto simp: l_def)
        then show False using \<open>s = last ts\<close> ti sa(2) last by simp
      qed
      moreover have "rb ! s \<noteq> i" using r ti sa(2) by auto
      ultimately show ?thesis using r e i by (simp add: swap_remove_nth l_def)
    qed
  qed
  have 3: "rb2 ! s = NOT_LOCAL" if "s \<in> set (t # rc)" for s
  proof -
    have "s \<noteq> last ts \<or> \<not> i < l" using that ll(2) neq d(4) by auto
    moreover have "s < length rb" using that tags_ok_less [OF ok] t by auto
    ultimately show ?thesis using rb2 [of s] that d(11) by auto
  qed
  show ?thesis
    unfolding rb2_def [symmetric] tags_ok_def length_swap_remove
    using tags_ok_remove_active [OF ok t] 1 2 3 d(12) len2 by simp
qed

text \<open>Recomputing the reverse table, and the two halves of a migration: dropping a set of local tags and
  appending tags that arrive from elsewhere.\<close>

lemma reindex_upto:
  assumes "distinct ts" "\<forall>t\<in>set ts. t < length rb" "n \<le> length ts"
  defines "r \<equiv> foldl (\<lambda>rb i. rb[ts ! i := i]) rb [0..<n]"
  shows "length r = length rb \<and> (\<forall>i<n. r ! (ts ! i) = i) \<and> (\<forall>t. t \<notin> set (take n ts) \<longrightarrow> r ! t = rb ! t)"
  using assms(3) unfolding r_def
proof (induction n)
  case 0
  then show ?case by simp
next
  case (Suc n)
  let ?r = "foldl (\<lambda>rb i. rb[ts ! i := i]) rb [0..<n]"
  have IH: "length ?r = length rb" "\<And>i. i < n \<Longrightarrow> ?r ! (ts ! i) = i"
    "\<And>t. t \<notin> set (take n ts) \<Longrightarrow> ?r ! t = rb ! t"
    using Suc by auto
  have "ts ! n < length rb" using assms(2) Suc.prems by simp
  moreover have "ts ! n \<noteq> ts ! i" if "i < n" for i
    using that assms(1) Suc.prems by (simp add: nth_eq_iff_index_eq)
  ultimately show ?case
    using IH Suc.prems
    by (auto simp: nth_list_update less_Suc_eq take_Suc_conv_app_nth)
qed

lemma reindex:
  assumes "distinct ts" "\<forall>t\<in>set ts. t < length rb"
  shows "length (reindex ts rb) = length rb" "i < length ts \<Longrightarrow> reindex ts rb ! (ts ! i) = i"
    "t \<notin> set ts \<Longrightarrow> reindex ts rb ! t = rb ! t"
  using reindex_upto [OF assms order_refl] unfolding reindex_def by auto

lemma reindex_ok:
  assumes "sorted ac" "distinct ac" "distinct rc" "set ac \<inter> set rc = {}"
    "set ac \<union> set rc = {..<length ac + length rc}" "length ac + length rc \<le> length rb"
    and ts: "distinct ts" "set ts \<subseteq> set ac" and out: "\<forall>t \<in> (set ac - set ts) \<union> set rc. rb ! t = NOT_LOCAL"
    and len: "length ts \<le> NOT_LOCAL"
  shows "tags_ok ts (reindex ts rb) ac rc"
proof -
  have b: "\<forall>t\<in>set ts. t < length rb"
  proof
    fix t assume "t \<in> set ts"
    then have "t \<in> set ac \<union> set rc" using ts(2) by blast
    then show "t < length rb" unfolding assms(5) using assms(6) by simp
  qed
  note r = reindex [OF ts(1) b]
  have in_ts: "reindex ts rb ! t < length ts \<and> ts ! (reindex ts rb ! t) = t" if "t \<in> set ts" for t
    using that r(2) by (metis in_set_conv_nth)
  have not_ts: "reindex ts rb ! t = NOT_LOCAL" if "t \<in> set ac \<union> set rc" "t \<notin> set ts" for t
    using r(3) [OF that(2)] out that by auto
  have rc_ts: "t \<notin> set ts" if "t \<in> set rc" for t
    using that ts(2) assms(4) by blast
  have "\<forall>i<length ts. ts ! i \<in> set ac \<and> reindex ts rb ! (ts ! i) = i"
    using r(2) ts(2) nth_mem by blast
  moreover have "\<forall>t\<in>set ac. reindex ts rb ! t \<noteq> NOT_LOCAL \<longrightarrow>
      reindex ts rb ! t < length ts \<and> ts ! (reindex ts rb ! t) = t"
    using in_ts not_ts by blast
  moreover have "\<forall>t\<in>set rc. reindex ts rb ! t = NOT_LOCAL"
    using not_ts rc_ts by blast
  ultimately show ?thesis
    unfolding tags_ok_def r(1) using assms(1-6) len by blast
qed

lemma reindex_filter_ok:
  assumes ok: "tags_ok ts rb ac rc"
    and rb': "\<And>t. rb' ! t = (if t \<in> set ts \<and> P t then NOT_LOCAL else rb ! t)" "length rb' = length rb"
  shows "tags_ok (filter (\<lambda>t. \<not> P t) ts) (reindex (filter (\<lambda>t. \<not> P t) ts) rb') ac rc"
proof (rule reindex_ok)
  show "distinct (filter (\<lambda>t. \<not> P t) ts)" using tags_ok_distinct [OF ok] by simp
  show "set (filter (\<lambda>t. \<not> P t) ts) \<subseteq> set ac" using tags_ok_set [OF ok] by auto
  show "\<forall>t \<in> (set ac - set (filter (\<lambda>t. \<not> P t) ts)) \<union> set rc. rb' ! t = NOT_LOCAL"
    using tags_ok_set [OF ok] tags_okD(11) [OF ok] by (auto simp: rb')
  show "length (filter (\<lambda>t. \<not> P t) ts) \<le> NOT_LOCAL"
    by (rule le_trans [OF length_filter_le tags_okD(12) [OF ok]])
qed (use tags_okD(1-6) [OF ok] rb'(2) in auto)

lemma reindex_append_ok:
  assumes ok: "tags_ok ts rb ac rc"
    and new: "distinct us" "set us \<subseteq> set ac" "set us \<inter> set ts = {}" "length ts + length us \<le> NOT_LOCAL"
  shows "tags_ok (ts @ us) (reindex (ts @ us) rb) ac rc"
proof (rule reindex_ok)
  show "distinct (ts @ us)" using tags_ok_distinct [OF ok] new by auto
  show "set (ts @ us) \<subseteq> set ac" using tags_ok_set [OF ok] new by auto
  show "\<forall>t \<in> (set ac - set (ts @ us)) \<union> set rc. rb ! t = NOT_LOCAL"
    using tags_ok_set [OF ok] tags_okD(11) [OF ok] by auto
qed (use tags_okD(1-6) [OF ok] new in auto)

section \<open>Vectors and buffers\<close>

lemma hv_resize_props:
  shows "n \<le> length (hv_buf (hv_resize n v))" "hv_size (hv_resize n v) = n"
    "\<exists>zs. hv_buf (hv_resize n v) = hv_buf v @ zs"
proof -
  have "n \<le> length (hv_buf v) + (grow (max n 1) m - length (hv_buf v))" for m
    using grow_ge [of "max n 1" m] by auto
  then show "n \<le> length (hv_buf (hv_resize n v))"
    by (auto simp: hv_resize_def Let_def)
qed (auto simp: hv_resize_def Let_def)

end
