(* ===== verification/ParticleData.thy ===== *)
theory ParticleData
  imports TagTable BoxDim "HOL-Library.List_Lexorder" "HOL-Library.Char_ord"
begin

text \<open>
  The particle container, \<open>src/hoomd/ParticleData.cc\<close> and \<open>ParticleData.h\<close>: dynamic arrays of local particles
  followed by ghosts, global tags with a reverse lookup table, accessors by tag, insertion and removal of
  particles, the two halves of a migration between ranks, and snapshots.

  The arrays of one property per particle (\<open>m_pos\<close>, \<open>m_vel\<close>, ...) are one list of \<open>pdata_element\<close>
  records, the struct the code itself uses to pack a particle; an assignment to some of the arrays at
  an index is an update of the respective fields.  All arrays have \<open>m_max_nparticles\<close> elements: what is behind
  the last particle is whatever was left there.  The arrays with the suffix \<open>_alt\<close> are a second such list.
  Signals are recorded in the order in which they are emitted.  Collective operations of MPI are
  parameters.
\<close>

section \<open>Model\<close>

subsection \<open>State\<close>

type_synonym scalar4 = "real \<times> real \<times> real \<times> real"

definition NO_BODY :: nat where
  "NO_BODY = 4294967295"

record pdata_element =
  p_pos :: scalar3
  p_type :: nat
  p_vel :: scalar3
  p_mass :: real
  p_accel :: scalar3
  p_charge :: real
  p_diameter :: real
  p_image :: int3
  p_body :: nat
  p_orientation :: scalar4
  p_angmom :: scalar4
  p_inertia :: scalar3
  p_tag :: nat
  p_net_force :: scalar4
  p_net_torque :: scalar4
  p_net_virial :: "real list"

definition zero4 :: scalar4 where
  "zero4 = (0, 0, 0, 0)"

text \<open>Zero-filled memory.\<close>

definition zero_element :: pdata_element where
  "zero_element = \<lparr>p_pos = 0, p_type = 0, p_vel = 0, p_mass = 0, p_accel = 0, p_charge = 0,
     p_diameter = 0, p_image = 0, p_body = 0, p_orientation = zero4, p_angmom = zero4, p_inertia = 0,
     p_tag = 0, p_net_force = zero4, p_net_torque = zero4, p_net_virial = replicate 6 0\<rparr>"

datatype pd_signal = Sort_signal | Boxchange_signal | Max_particle_num_signal
  | Global_particle_num_signal | Ghost_particles_removed_signal nat

record particle_data =
  m_box :: boxDim
  m_global_box :: boxDim
  m_nparticles :: nat
  m_nghosts :: nat
  m_max_nparticles :: nat
  m_nglobal :: nat
  m_accel_set :: bool
  m_arrays_allocated :: bool
  ptl :: "pdata_element list"
  ptl_alt :: "pdata_element list"
  m_comm_flags :: "nat list"
  m_rtag :: host_vector
  m_tag_set :: "nat list"
  m_recycled_tags :: "nat list"
  m_cached_tag_set :: "nat list"
  m_invalid_cached_tags :: bool
  m_origin :: scalar3
  m_o_image :: int3
  m_type_mapping :: "string list"
  signals :: "pd_signal list"

text \<open>The part of the environment that depends on MPI: rank, whether there is a domain decomposition, and the
  results of the reductions over all ranks as a function of the local contribution.\<close>

record mpi_env =
  getRank :: nat
  decomposed :: bool
  allreduce_sum :: "nat \<Rightarrow> nat"
  allreduce_max :: "int \<Rightarrow> int"

definition emit :: "pd_signal \<Rightarrow> particle_data \<Rightarrow> particle_data" where
  "emit s d = d\<lparr>signals := signals d @ [s]\<rparr>"

subsection \<open>Boxes, types and sizes\<close>

text \<open>Without a domain decomposition the local box is the global box.\<close>

definition setGlobalBox :: "boxDim \<Rightarrow> particle_data \<Rightarrow> particle_data" where
  "setGlobalBox box d = emit Boxchange_signal (d\<lparr>m_global_box := box, m_box := box\<rparr>)"

text \<open>With a decomposition: \<open>bcast\<close> yields the box of the root rank and \<open>calculateLocalBox\<close> the box of the
  domain.  The overload that takes a pointer uses the broadcast box, the one that takes a reference broadcasts
  into a copy and then uses its own argument.\<close>

definition setGlobalBox_ptr_mpi ::
  "(boxDim \<Rightarrow> boxDim) \<Rightarrow> (boxDim \<Rightarrow> boxDim) \<Rightarrow> boxDim \<Rightarrow> particle_data \<Rightarrow> particle_data" where
  "setGlobalBox_ptr_mpi bcast calculateLocalBox box d = (let global_box = bcast box in
     emit Boxchange_signal (d\<lparr>m_global_box := global_box, m_box := calculateLocalBox global_box\<rparr>))"

definition setGlobalBox_ref_mpi ::
  "(boxDim \<Rightarrow> boxDim) \<Rightarrow> (boxDim \<Rightarrow> boxDim) \<Rightarrow> boxDim \<Rightarrow> particle_data \<Rightarrow> particle_data" where
  "setGlobalBox_ref_mpi bcast calculateLocalBox box d = (let global_box = bcast box in
     emit Boxchange_signal (d\<lparr>m_global_box := box, m_box := calculateLocalBox box\<rparr>))"

definition getNTypes :: "particle_data \<Rightarrow> nat" where
  "getNTypes d = length (m_type_mapping d)"

fun find_type :: "string \<Rightarrow> nat \<Rightarrow> string list \<Rightarrow> nat option" where
  "find_type name i [] = None"
| "find_type name i (n # ns) = (if n = name then Some i else find_type name (Suc i) ns)"

definition getTypeByName :: "string \<Rightarrow> particle_data \<Rightarrow> exn + nat" where
  "getTypeByName name d = (case find_type name 0 (m_type_mapping d) of
     Some i \<Rightarrow> Inr i | None \<Rightarrow> Inl (Runtime_error (''Type '' @ name @ '' not found!'')))"

definition getNameByType :: "nat \<Rightarrow> particle_data \<Rightarrow> exn + string" where
  "getNameByType ty d = (if ty \<ge> getNTypes d
     then Inl (Runtime_error (''Requesting type name for non-existent type '' @ nat_str ty @ ''.''))
     else Inr (m_type_mapping d ! ty))"

definition setTypeName :: "nat \<Rightarrow> string \<Rightarrow> particle_data \<Rightarrow> (unit, particle_data) outcome" where
  "setTypeName ty name d = (if ty \<ge> getNTypes d
     then (Inl (Runtime_error (''Setting name for non-existent type '' @ nat_str ty @ ''.'')), d)
     else (Inr (), d\<lparr>m_type_mapping := (m_type_mapping d)[ty := name]\<rparr>))"

definition notifyParticleSort :: "particle_data \<Rightarrow> particle_data" where
  "notifyParticleSort d = emit Sort_signal d"

text \<open>The argument of the signal is what \<open>getNGhosts()\<close> returns to its subscribers.\<close>

definition notifyGhostParticlesRemoved :: "particle_data \<Rightarrow> particle_data" where
  "notifyGhostParticlesRemoved d = emit (Ghost_particles_removed_signal (m_nghosts d)) d"

definition removeAllGhostParticles :: "particle_data \<Rightarrow> particle_data" where
  "removeAllGhostParticles d = notifyGhostParticlesRemoved (d\<lparr>m_nghosts := 0\<rparr>)"

definition setNGlobal :: "nat \<Rightarrow> particle_data \<Rightarrow> particle_data" where
  "setNGlobal n d = emit Global_particle_num_signal (d\<lparr>m_nglobal := n\<rparr>)"

definition allocateAlternateArrays :: "nat \<Rightarrow> particle_data \<Rightarrow> particle_data" where
  "allocateAlternateArrays n d = d\<lparr>ptl_alt := replicate n zero_element\<rparr>"

declare allocateAlternateArrays_def [simp]

definition pd_allocate :: "nat \<Rightarrow> particle_data \<Rightarrow> particle_data" where
  "pd_allocate n d = (emit Max_particle_num_signal (allocateAlternateArrays n (d\<lparr>m_max_nparticles := n,
     ptl := replicate n zero_element, m_comm_flags := replicate n 0\<rparr>)))\<lparr>m_arrays_allocated := True\<rparr>"

text \<open>Reallocation keeps the common prefix of every array, fills new memory with zeros, and clears the
  net force, torque and virial of every particle.\<close>

definition clear_net :: "pdata_element \<Rightarrow> pdata_element" where
  "clear_net p = p\<lparr>p_net_force := zero4, p_net_torque := zero4, p_net_virial := replicate 6 0\<rparr>"

definition pd_reallocate :: "nat \<Rightarrow> particle_data \<Rightarrow> particle_data" where
  "pd_reallocate n d =
    (if \<not> m_arrays_allocated d then pd_allocate n d
     else emit Max_particle_num_signal (d\<lparr>m_max_nparticles := n,
       ptl := map clear_net (resized n zero_element (ptl d)),
       m_comm_flags := resized n 0 (m_comm_flags d),
       ptl_alt := map clear_net (resized n zero_element (ptl_alt d))\<rparr>))"

text \<open>The capacity grows as that of a vector, by the factor 9/8 (\<open>m_resize_factor\<close>).  The code computes the product in single
  precision, which is exact for capacities below \<open>2^20\<close>; above, the last digits of the new capacity can differ, on which only the amount
  of spare room depends.\<close>

definition pd_resize :: "nat \<Rightarrow> particle_data \<Rightarrow> particle_data" where
  "pd_resize n d =
    (if n = 0 then (if \<not> m_arrays_allocated d then pd_allocate 1 d else d)\<lparr>m_nparticles := 0\<rparr>
     else let d = (if \<not> m_arrays_allocated d then pd_allocate n d else d);
              d = (if n > m_max_nparticles d then pd_reallocate (grow n (m_max_nparticles d)) d else d)
          in d\<lparr>m_nparticles := n\<rparr>)"

definition addGhostParticles :: "nat \<Rightarrow> particle_data \<Rightarrow> particle_data" where
  "addGhostParticles k d = (let d = d\<lparr>m_nghosts := m_nghosts d + k\<rparr>;
     total = m_nparticles d + m_nghosts d in
     if total > m_max_nparticles d then pd_reallocate (grow total (m_max_nparticles d)) d else d)"

subsection \<open>Tags\<close>

definition rtag_at :: "nat \<Rightarrow> particle_data \<Rightarrow> nat" where
  "rtag_at tag d = hv_buf (m_rtag d) ! tag"

definition getRTag :: "nat \<Rightarrow> particle_data \<Rightarrow> nat" where
  "getRTag tag d = rtag_at tag d"

definition isParticleLocal :: "nat \<Rightarrow> particle_data \<Rightarrow> bool" where
  "isParticleLocal tag d \<longleftrightarrow> rtag_at tag d < m_nparticles d"

definition isTagActive :: "nat \<Rightarrow> particle_data \<Rightarrow> bool" where
  "isTagActive tag d \<longleftrightarrow> tag \<in> set (m_tag_set d)"

definition getMaximumTag :: "particle_data \<Rightarrow> nat" where
  "getMaximumTag d = (if m_tag_set d = [] then 4294967295 else last (m_tag_set d))"

definition maybe_rebuild_tag_cache :: "particle_data \<Rightarrow> particle_data" where
  "maybe_rebuild_tag_cache d =
    (if \<not> m_invalid_cached_tags d then d
     else d\<lparr>m_cached_tag_set := m_tag_set d, m_invalid_cached_tags := False\<rparr>)"

definition getNthTag :: "nat \<Rightarrow> particle_data \<Rightarrow> (nat, particle_data) outcome" where
  "getNthTag n d = (if n \<ge> m_nglobal d
     then (Inl (Runtime_error (''Particle id '' @ nat_str n @ ''does not exist!'')), d)
     else let d = maybe_rebuild_tag_cache d in (Inr (m_cached_tag_set d ! n), d))"

definition getOwnerRank :: "mpi_env \<Rightarrow> nat \<Rightarrow> particle_data \<Rightarrow> exn + nat" where
  "getOwnerRank mpi tag d = (let is_local = (if getRTag tag d < m_nparticles d then 1 else 0);
     n_found = allreduce_sum mpi is_local in
     if n_found = 0 then
       Inl (Runtime_error (''Could not find particle '' @ nat_str tag @ '' on any processor.''))
     else if n_found > 1 then
       Inl (Runtime_error (''Found particle '' @ nat_str tag @ '' on multiple processors.''))
     else Inr (nat (allreduce_max mpi (if is_local = 1 then int (getRank mpi) else - 1))))"

subsection \<open>Access by tag\<close>

text \<open>The common part of the accessors without a domain decomposition: the element at the index the reverse
  table gives, if it is local; a default value otherwise.\<close>

definition local_value :: "(pdata_element \<Rightarrow> 'v) \<Rightarrow> 'v \<Rightarrow> nat \<Rightarrow> particle_data \<Rightarrow> 'v" where
  "local_value f dflt tag d = (let idx = getRTag tag d in
     if idx < m_nparticles d then f (ptl d ! idx) else dflt)"

definition update_local :: "(pdata_element \<Rightarrow> pdata_element) \<Rightarrow> nat \<Rightarrow> particle_data \<Rightarrow> particle_data" where
  "update_local f tag d = (let idx = getRTag tag d in
     if idx < m_nparticles d then d\<lparr>ptl := (ptl d)[idx := f (ptl d ! idx)]\<rparr> else d)"

definition getPosition :: "nat \<Rightarrow> particle_data \<Rightarrow> scalar3" where
  "getPosition tag d = (let result = local_value (\<lambda>p. p_pos p - m_origin d) 0 tag d;
     img = local_value (\<lambda>p. p_image p - m_o_image d) 0 tag d
     in fst (wrap (m_global_box d) 0 result img))"

definition getVelocity :: "nat \<Rightarrow> particle_data \<Rightarrow> scalar3" where
  "getVelocity = local_value p_vel 0"

definition getAcceleration :: "nat \<Rightarrow> particle_data \<Rightarrow> scalar3" where
  "getAcceleration = local_value p_accel 0"

definition pd_getImage :: "nat \<Rightarrow> particle_data \<Rightarrow> int3" where
  "pd_getImage tag d = (let result = local_value p_image 0 tag d;
     pos = local_value (\<lambda>p. p_pos p - m_origin d) 0 tag d
     in snd (wrap (m_global_box d) 0 pos (result - m_o_image d)))"

definition getCharge :: "nat \<Rightarrow> particle_data \<Rightarrow> real" where
  "getCharge = local_value p_charge 0"

definition getMass :: "nat \<Rightarrow> particle_data \<Rightarrow> real" where
  "getMass = local_value p_mass 0"

definition getDiameter :: "nat \<Rightarrow> particle_data \<Rightarrow> real" where
  "getDiameter = local_value p_diameter 0"

definition getBody :: "nat \<Rightarrow> particle_data \<Rightarrow> nat" where
  "getBody = local_value p_body 0"

definition getType :: "nat \<Rightarrow> particle_data \<Rightarrow> nat" where
  "getType = local_value p_type 0"

definition getOrientation :: "nat \<Rightarrow> particle_data \<Rightarrow> scalar4" where
  "getOrientation = local_value p_orientation zero4"

definition getAngularMomentum :: "nat \<Rightarrow> particle_data \<Rightarrow> scalar4" where
  "getAngularMomentum = local_value p_angmom zero4"

definition getMomentsOfInertia :: "nat \<Rightarrow> particle_data \<Rightarrow> scalar3" where
  "getMomentsOfInertia = local_value p_inertia 0"

definition getPNetForce :: "nat \<Rightarrow> particle_data \<Rightarrow> scalar4" where
  "getPNetForce = local_value p_net_force zero4"

definition getNetTorque :: "nat \<Rightarrow> particle_data \<Rightarrow> scalar4" where
  "getNetTorque = local_value p_net_torque zero4"

definition getPNetVirial :: "nat \<Rightarrow> nat \<Rightarrow> particle_data \<Rightarrow> real" where
  "getPNetVirial component = local_value (\<lambda>p. p_net_virial p ! component) 0"

definition setPosition :: "nat \<Rightarrow> scalar3 \<Rightarrow> particle_data \<Rightarrow> particle_data" where
  "setPosition tag pos d = (let tmp_pos = pos + m_origin d;
     img = local_value p_image 0 tag d;
     w = wrap (m_global_box d) 0 tmp_pos img
     in update_local (\<lambda>p. p\<lparr>p_pos := fst w, p_image := snd w\<rparr>) tag d)"

definition setVelocity :: "nat \<Rightarrow> scalar3 \<Rightarrow> particle_data \<Rightarrow> particle_data" where
  "setVelocity tag vel = update_local (\<lambda>p. p\<lparr>p_vel := vel\<rparr>) tag"

definition setImage :: "nat \<Rightarrow> int3 \<Rightarrow> particle_data \<Rightarrow> particle_data" where
  "setImage tag img d = update_local (\<lambda>p. p\<lparr>p_image := img + m_o_image d\<rparr>) tag d"

definition setCharge :: "nat \<Rightarrow> real \<Rightarrow> particle_data \<Rightarrow> particle_data" where
  "setCharge tag charge = update_local (\<lambda>p. p\<lparr>p_charge := charge\<rparr>) tag"

definition setMass :: "nat \<Rightarrow> real \<Rightarrow> particle_data \<Rightarrow> particle_data" where
  "setMass tag mass = update_local (\<lambda>p. p\<lparr>p_mass := mass\<rparr>) tag"

definition setDiameter :: "nat \<Rightarrow> real \<Rightarrow> particle_data \<Rightarrow> particle_data" where
  "setDiameter tag diameter = update_local (\<lambda>p. p\<lparr>p_diameter := diameter\<rparr>) tag"

definition setBody :: "nat \<Rightarrow> nat \<Rightarrow> particle_data \<Rightarrow> particle_data" where
  "setBody tag body = update_local (\<lambda>p. p\<lparr>p_body := body\<rparr>) tag"

definition setType :: "nat \<Rightarrow> nat \<Rightarrow> particle_data \<Rightarrow> particle_data" where
  "setType tag typ d = (let found = getRTag tag d < m_nparticles d;
     d = update_local (\<lambda>p. p\<lparr>p_type := typ\<rparr>) tag d
     in if found then notifyParticleSort d else d)"

definition setOrientation :: "nat \<Rightarrow> scalar4 \<Rightarrow> particle_data \<Rightarrow> particle_data" where
  "setOrientation tag orientation = update_local (\<lambda>p. p\<lparr>p_orientation := orientation\<rparr>) tag"

definition setAngularMomentum :: "nat \<Rightarrow> scalar4 \<Rightarrow> particle_data \<Rightarrow> particle_data" where
  "setAngularMomentum tag angmom = update_local (\<lambda>p. p\<lparr>p_angmom := angmom\<rparr>) tag"

definition setMomentsOfInertia :: "nat \<Rightarrow> scalar3 \<Rightarrow> particle_data \<Rightarrow> particle_data" where
  "setMomentsOfInertia tag inertia = update_local (\<lambda>p. p\<lparr>p_inertia := inertia\<rparr>) tag"

definition translateOrigin :: "scalar3 \<Rightarrow> particle_data \<Rightarrow> particle_data" where
  "translateOrigin a d = (let w = wrap (m_global_box d) 0 (m_origin d + a) (m_o_image d)
     in d\<lparr>m_origin := fst w, m_o_image := snd w\<rparr>)"

definition setOrigin :: "scalar3 \<Rightarrow> int3 \<Rightarrow> particle_data \<Rightarrow> particle_data" where
  "setOrigin origin img d = d\<lparr>m_origin := origin, m_o_image := img\<rparr>"

definition resetOrigin :: "particle_data \<Rightarrow> particle_data" where
  "resetOrigin d = d\<lparr>m_origin := 0, m_o_image := 0\<rparr>"

subsection \<open>Adding and removing particles\<close>

definition default_element :: "nat \<Rightarrow> nat \<Rightarrow> pdata_element \<Rightarrow> pdata_element" where
  "default_element typ tag p = p\<lparr>p_pos := 0, p_type := typ, p_vel := 0, p_mass := 1, p_accel := 0,
     p_charge := 0, p_diameter := 1, p_image := 0, p_angmom := zero4, p_inertia := 0, p_body := NO_BODY,
     p_orientation := (1, 0, 0, 0), p_tag := tag\<rparr>"

definition addParticle :: "mpi_env \<Rightarrow> nat \<Rightarrow> particle_data \<Rightarrow> nat \<times> particle_data" where
  "addParticle mpi typ d = (let
     d = removeAllGhostParticles d;
     (tag, recycled) = new_tag (m_nglobal d) (m_recycled_tags d);
     d = d\<lparr>m_recycled_tags := recycled, m_tag_set := insort_insert tag (m_tag_set d),
           m_invalid_cached_tags := True\<rparr>;
     d = d\<lparr>m_rtag := hv_resize (getMaximumTag d + 1) (m_rtag d)\<rparr>;
     d = d\<lparr>m_rtag := hv_set tag (if getRank mpi = 0 then m_nparticles d else NOT_LOCAL) (m_rtag d)\<rparr>;
     d = (if getRank mpi = 0 then
            let idx = m_nparticles d;
                d = pd_resize (idx + 1) d
            in d\<lparr>ptl := (ptl d)[idx := default_element typ tag (ptl d ! idx)],
                 m_comm_flags := (m_comm_flags d)[idx := 0]\<rparr>
          else d);
     d = setNGlobal (m_nglobal d + 1) d
     in (tag, notifyParticleSort d))"

text \<open>The fields that are copied when the last particle is moved into the place of the removed one.\<close>

definition move_element :: "pdata_element \<Rightarrow> pdata_element \<Rightarrow> pdata_element" where
  "move_element from to = to\<lparr>p_pos := p_pos from, p_type := p_type from, p_vel := p_vel from,
     p_mass := p_mass from, p_accel := p_accel from, p_charge := p_charge from,
     p_diameter := p_diameter from, p_image := p_image from, p_body := p_body from,
     p_orientation := p_orientation from, p_tag := p_tag from\<rparr>"

definition removeParticle :: "mpi_env \<Rightarrow> nat \<Rightarrow> particle_data \<Rightarrow> (unit, particle_data) outcome" where
  "removeParticle mpi tag d =
    (if m_nglobal d = 0 then
       (Inl (Runtime_error ''Trying to remove particle when there are zero particles!''), d)
     else let d = removeAllGhostParticles d in
     if tag \<ge> hv_size (m_rtag d) then
       (Inl (Runtime_error (''Trying to remove particle '' @ nat_str tag @ '' which does not exist.'')), d)
     else let idx = rtag_at tag d;
       is_local = idx < m_nparticles d;
       is_available = (if decomposed mpi then allreduce_sum mpi (if is_local then 1 else 0) \<noteq> 0 else is_local) in
     if \<not> is_available then
       (Inl (Runtime_error (''Trying to remove particle '' @ nat_str tag @ '' which has been previously removed!'')), d)
     else let
       d = d\<lparr>m_rtag := hv_set tag NOT_LOCAL (m_rtag d)\<rparr>;
       d = (if is_local then
              let sz = m_nparticles d;
                  d = (if idx < sz - 1 then
                         let d = d\<lparr>ptl := (ptl d)[idx := move_element (ptl d ! (sz - 1)) (ptl d ! idx)],
                                   m_comm_flags := (m_comm_flags d)[idx := m_comm_flags d ! (sz - 1)]\<rparr>;
                             last_tag = p_tag (ptl d ! (sz - 1))
                         in d\<lparr>m_rtag := hv_set last_tag idx (m_rtag d)\<rparr>
                       else d)
              in pd_resize (m_nparticles d - 1) d
            else d);
       d = d\<lparr>m_tag_set := remove1 tag (m_tag_set d), m_recycled_tags := tag # m_recycled_tags d,
             m_invalid_cached_tags := True\<rparr>;
       d = setNGlobal (m_nglobal d - 1) d
       in (Inr (), notifyParticleSort d))"

subsection \<open>Migration\<close>

definition mark_removed :: "particle_data \<Rightarrow> host_vector \<times> nat" where
  "mark_removed d = foldl (\<lambda>(r, k) i. if m_comm_flags d ! i \<noteq> 0
       then (hv_set (p_tag (ptl d ! i)) NOT_LOCAL r, k + 1) else (r, k)) (m_rtag d, 0) [0..<m_nparticles d]"

text \<open>One iteration of the loop that splits the local particles into those that stay, packed into the alternate
  arrays, and those that leave, written to the output buffer.\<close>

definition split_step :: "pdata_element list \<Rightarrow> nat list \<Rightarrow>
    nat \<times> nat \<times> pdata_element list \<times> pdata_element list \<Rightarrow> nat \<Rightarrow>
    nat \<times> nat \<times> pdata_element list \<times> pdata_element list" where
  "split_step ps rb s i = (case s of (n, m, alt, out) \<Rightarrow>
     if rb ! p_tag (ps ! i) \<noteq> NOT_LOCAL then (n + 1, m, alt[n := ps ! i], out)
     else (n, m + 1, alt, out[m := ps ! i]))"

definition removeParticles :: "particle_data \<Rightarrow> pdata_element list \<times> nat list \<times> particle_data" where
  "removeParticles d = (let
     (rtag, num_remove_ptls) = mark_removed d;
     old_nparticles = m_nparticles d;
     new_nparticles = old_nparticles - num_remove_ptls;
     d = pd_resize new_nparticles (d\<lparr>m_rtag := rtag\<rparr>);
     (n, m, alt, out) = foldl (split_step (ptl d) (hv_buf (m_rtag d)))
       (0, 0, ptl_alt d, replicate num_remove_ptls zero_element) [0..<old_nparticles];
     comm_flags = filter (\<lambda>f. f \<noteq> 0) (take old_nparticles (m_comm_flags d));
     d = d\<lparr>m_comm_flags := replicate new_nparticles 0 @ drop new_nparticles (m_comm_flags d)\<rparr>;
     d = d\<lparr>ptl := alt, ptl_alt := ptl d\<rparr>;
     d = d\<lparr>m_rtag := (m_rtag d)\<lparr>hv_buf := reindex (map p_tag (take (m_nparticles d) (ptl d))) (hv_buf (m_rtag d))\<rparr>\<rparr>
     in (out, comm_flags, notifyParticleSort d))"

definition addParticles :: "pdata_element list \<Rightarrow> particle_data \<Rightarrow> particle_data" where
  "addParticles inp d = (let
     old_nparticles = m_nparticles d;
     new_nparticles = old_nparticles + length inp;
     d = pd_resize new_nparticles d;
     d = d\<lparr>ptl := snd (foldl (\<lambda>(n, ps) p. (n + 1, ps[n := p])) (old_nparticles, ptl d) inp)\<rparr>;
     d = d\<lparr>m_comm_flags := take old_nparticles (m_comm_flags d) @ replicate (length inp) 0
             @ drop new_nparticles (m_comm_flags d)\<rparr>;
     d = d\<lparr>m_rtag := (m_rtag d)\<lparr>hv_buf := reindex (map p_tag (take (m_nparticles d) (ptl d))) (hv_buf (m_rtag d))\<rparr>\<rparr>
     in notifyParticleSort d)"

subsection \<open>Snapshots\<close>

record snapshot_particle_data =
  s_size :: nat
  s_pos :: "scalar3 list"
  s_vel :: "scalar3 list"
  s_accel :: "scalar3 list"
  s_type :: "nat list"
  s_mass :: "real list"
  s_charge :: "real list"
  s_diameter :: "real list"
  s_image :: "int3 list"
  s_body :: "nat list"
  s_orientation :: "scalar4 list"
  s_angmom :: "scalar4 list"
  s_inertia :: "scalar3 list"
  s_type_mapping :: "string list"
  is_accel_set :: bool

definition snapshot_resize :: "nat \<Rightarrow> snapshot_particle_data \<Rightarrow> snapshot_particle_data" where
  "snapshot_resize n s = s\<lparr>s_pos := resized n 0 (s_pos s), s_vel := resized n 0 (s_vel s),
     s_accel := resized n 0 (s_accel s), s_type := resized n 0 (s_type s), s_mass := resized n 1 (s_mass s),
     s_charge := resized n 0 (s_charge s), s_diameter := resized n 1 (s_diameter s),
     s_image := resized n 0 (s_image s), s_body := resized n NO_BODY (s_body s),
     s_orientation := resized n (1, 0, 0, 0) (s_orientation s), s_angmom := resized n zero4 (s_angmom s),
     s_inertia := resized n 0 (s_inertia s), s_size := n, is_accel_set := False\<rparr>"

definition SnapshotParticleData :: "nat \<Rightarrow> snapshot_particle_data" where
  "SnapshotParticleData n = snapshot_resize n \<lparr>s_size = n, s_pos = [], s_vel = [], s_accel = [], s_type = [],
     s_mass = [], s_charge = [], s_diameter = [], s_image = [], s_body = [], s_orientation = [],
     s_angmom = [], s_inertia = [], s_type_mapping = [], is_accel_set = False\<rparr>"

definition insert_at :: "nat \<Rightarrow> nat \<Rightarrow> 'a \<Rightarrow> 'a list \<Rightarrow> 'a list" where
  "insert_at i n x xs = take i xs @ replicate n x @ drop i xs"

definition snapshot_insert :: "nat \<Rightarrow> nat \<Rightarrow> snapshot_particle_data \<Rightarrow> snapshot_particle_data" where
  "snapshot_insert i n s = s\<lparr>s_pos := insert_at i n 0 (s_pos s), s_vel := insert_at i n 0 (s_vel s),
     s_accel := insert_at i n 0 (s_accel s), s_type := insert_at i n 0 (s_type s),
     s_mass := insert_at i n 1 (s_mass s), s_charge := insert_at i n 0 (s_charge s),
     s_diameter := insert_at i n 1 (s_diameter s), s_image := insert_at i n 0 (s_image s),
     s_body := insert_at i n NO_BODY (s_body s),
     s_orientation := insert_at i n (1, 0, 0, 0) (s_orientation s),
     s_angmom := insert_at i n zero4 (s_angmom s), s_inertia := insert_at i n 0 (s_inertia s),
     s_size := s_size s + n, is_accel_set := False\<rparr>"

definition validate :: "snapshot_particle_data \<Rightarrow> exn + unit" where
  "validate s =
    (if length (s_pos s) \<noteq> s_size s \<or> length (s_vel s) \<noteq> s_size s \<or> length (s_accel s) \<noteq> s_size s
        \<or> length (s_type s) \<noteq> s_size s \<or> length (s_mass s) \<noteq> s_size s \<or> length (s_charge s) \<noteq> s_size s
        \<or> length (s_diameter s) \<noteq> s_size s \<or> length (s_image s) \<noteq> s_size s \<or> length (s_body s) \<noteq> s_size s
        \<or> length (s_orientation s) \<noteq> s_size s \<or> length (s_angmom s) \<noteq> s_size s
        \<or> length (s_inertia s) \<noteq> s_size s
     then Inl (Runtime_error ''All array sizes must match.'')
     else if length (remdups_adj (sort (s_type_mapping s))) \<noteq> length (s_type_mapping s)
     then Inl (Runtime_error ''Type names must be unique.'')
     else Inr ())"

text \<open>Positions are accepted up to a tolerance of \<open>1e-5\<close> in fractional coordinates.\<close>

definition inBox :: "snapshot_particle_data \<Rightarrow> particle_data \<Rightarrow> bool" where
  "inBox s d = list_all (\<lambda>i. let f = makeFraction (m_global_box d) (s_pos s ! i) 0; tol = 1 / 100000 in
     \<not> (vx f < - tol \<or> vx f > 1 + tol \<or> vy f < - tol \<or> vy f > 1 + tol \<or> vz f < - tol \<or> vz f > 1 + tol))
     [0..<s_size s]"

text \<open>The serial branch of the initialization: one iteration of the loop over the snapshot.\<close>

definition load_element :: "snapshot_particle_data \<Rightarrow> nat \<Rightarrow> nat \<Rightarrow> pdata_element \<Rightarrow> pdata_element" where
  "load_element s i tag p = p\<lparr>p_pos := s_pos s ! i, p_type := s_type s ! i, p_vel := s_vel s ! i,
     p_mass := s_mass s ! i, p_accel := s_accel s ! i, p_charge := s_charge s ! i,
     p_diameter := s_diameter s ! i, p_image := s_image s ! i, p_tag := tag, p_body := s_body s ! i,
     p_orientation := s_orientation s ! i, p_angmom := s_angmom s ! i, p_inertia := s_inertia s ! i\<rparr>"

definition load_step :: "snapshot_particle_data \<Rightarrow> bool \<Rightarrow>
    nat \<times> nat \<times> pdata_element list \<times> host_vector \<Rightarrow> nat \<Rightarrow> nat \<times> nat \<times> pdata_element list \<times> host_vector" where
  "load_step s ignore_bodies st i = (case st of (nglobal, max_typeid, ps, rtag) \<Rightarrow>
     if ignore_bodies \<and> s_body s ! i \<noteq> NO_BODY then st
     else (nglobal + 1, max max_typeid (s_type s ! i),
           ps[nglobal := load_element s i nglobal (ps ! nglobal)], hv_set nglobal nglobal rtag))"

definition initializeFromSnapshot ::
  "snapshot_particle_data \<Rightarrow> bool \<Rightarrow> particle_data \<Rightarrow> (unit, particle_data) outcome" where
  "initializeFromSnapshot s ignore_bodies d = (let d = removeAllGhostParticles d in
     case validate s of Inl e \<Rightarrow> (Inl e, d)
     | Inr _ \<Rightarrow> (let
         d = d\<lparr>m_tag_set := [], m_recycled_tags := []\<rparr>;
         d = d\<lparr>m_rtag := hv_resize (s_size s) (m_rtag d), m_invalid_cached_tags := True\<rparr>;
         d = pd_resize (s_size s) d;
         (nglobal, max_typeid, ps, rtag) = foldl (load_step s ignore_bodies) (0, 0, ptl d, m_rtag d) [0..<s_size s];
         d = d\<lparr>ptl := ps, m_rtag := rtag, m_nparticles := nglobal\<rparr>;
         d = d\<lparr>m_tag_set := foldl (\<lambda>ts t. insort_insert t ts) (m_tag_set d) [0..<nglobal]\<rparr>;
         d = d\<lparr>m_rtag := hv_resize nglobal (m_rtag d)\<rparr>;
         d = d\<lparr>m_type_mapping := s_type_mapping s\<rparr>;
         d = d\<lparr>m_accel_set := is_accel_set s\<rparr>;
         d = setNGlobal nglobal d;
         d = notifyParticleSort d;
         d = d\<lparr>m_origin := 0, m_o_image := 0\<rparr>
         in if s_size s \<noteq> 0 \<and> max_typeid \<ge> length (m_type_mapping d) then
              (Inl (Runtime_error (''Particle typeid '' @ nat_str max_typeid @ '' is invalid in a system with ''
                 @ nat_str (length (m_type_mapping d)) @ '' types.'')), d)
            else (Inr (), d)))"

text \<open>The constructor that takes a snapshot starts from an object without particles and without memory.\<close>

definition empty_particle_data :: particle_data where
  "empty_particle_data = \<lparr>m_box = BoxDim_default, m_global_box = BoxDim_default, m_nparticles = 0, m_nghosts = 0,
     m_max_nparticles = 0, m_nglobal = 0, m_accel_set = False, m_arrays_allocated = False, ptl = [],
     ptl_alt = [], m_comm_flags = [], m_rtag = \<lparr>hv_buf = [], hv_size = 0\<rparr>, m_tag_set = [],
     m_recycled_tags = [], m_cached_tag_set = [], m_invalid_cached_tags = True, m_origin = 0, m_o_image = 0,
     m_type_mapping = [], signals = []\<rparr>"

definition ParticleData_snapshot ::
  "snapshot_particle_data \<Rightarrow> boxDim \<Rightarrow> (unit, particle_data) outcome" where
  "ParticleData_snapshot s box = (let d = setGlobalBox box empty_particle_data in
     if \<not> inBox s d then (Inl (Runtime_error ''Error initializing ParticleData''), d)
     else obind (initializeFromSnapshot s False d) (\<lambda>_ d. (Inr (), d\<lparr>m_origin := 0, m_o_image := 0\<rparr>)))"

text \<open>Taking a snapshot without a domain decomposition.  The inner loop skips the tags that are not local; reading
  past the reverse table is the result \<open>None\<close>.\<close>

function next_local :: "nat list \<Rightarrow> nat \<Rightarrow> nat \<Rightarrow> nat option" where
  "next_local rb n tag = (if tag < length rb
     then if rb ! tag < n then Some tag else next_local rb n (tag + 1) else None)"
  by pat_completeness auto
termination
  by (relation "measure (\<lambda>(rb, n, tag). length rb - tag)") auto

declare next_local.simps [simp del]

definition store_element :: "particle_data \<Rightarrow> nat \<Rightarrow> pdata_element \<Rightarrow> snapshot_particle_data \<Rightarrow> snapshot_particle_data" where
  "store_element d k p s = (let w = wrap (m_global_box d) 0 (p_pos p - m_origin d) (p_image p - m_o_image d) in
     s\<lparr>s_pos := (s_pos s)[k := fst w], s_vel := (s_vel s)[k := p_vel p], s_accel := (s_accel s)[k := p_accel p],
       s_type := (s_type s)[k := p_type p], s_mass := (s_mass s)[k := p_mass p],
       s_charge := (s_charge s)[k := p_charge p], s_diameter := (s_diameter s)[k := p_diameter p],
       s_image := (s_image s)[k := snd w], s_body := (s_body s)[k := p_body p],
       s_orientation := (s_orientation s)[k := p_orientation p], s_angmom := (s_angmom s)[k := p_angmom p],
       s_inertia := (s_inertia s)[k := p_inertia p]\<rparr>)"

fun store_particles :: "particle_data \<Rightarrow> nat \<Rightarrow> nat \<Rightarrow> nat \<Rightarrow> snapshot_particle_data \<Rightarrow> snapshot_particle_data option" where
  "store_particles d 0 snap_id tag s = Some s"
| "store_particles d (Suc k) snap_id tag s =
     (case next_local (hv_buf (m_rtag d)) (m_nparticles d) tag of None \<Rightarrow> None
      | Some t \<Rightarrow> store_particles d k (snap_id + 1) (t + 1)
          (store_element d snap_id (ptl d ! rtag_at t d) s))"

definition takeSnapshot :: "particle_data \<Rightarrow> snapshot_particle_data \<Rightarrow> snapshot_particle_data option" where
  "takeSnapshot d s = map_option (\<lambda>s. s\<lparr>s_type_mapping := m_type_mapping d, is_accel_set := m_accel_set d\<rparr>)
     (store_particles d (m_nparticles d) 0 0 (snapshot_resize (m_nglobal d) s))"

end
