(* ===== verification/ParticleTags.thy ===== *)
theory ParticleTags
  imports ParticleData
begin

text \<open>
  Tags of particles: the invariant of the particle arrays and the tag bookkeeping of \<open>ParticleData\<close>, its
  preservation by \<open>addParticle\<close> and \<open>removeParticle\<close> on every rank, and the refinement of sequences
  of these operations without a domain decomposition to a finite map from tags to particles, first without the two fields that a
  removal does not move, then exactly.  The last section
  lifts the invariant to all ranks of a parallel simulation, in which the operations are collective.
\<close>

section \<open>Invariant\<close>

definition local_tags :: "particle_data \<Rightarrow> nat list" where
  "local_tags d = map p_tag (take (m_nparticles d) (ptl d))"

definition arrays_ok :: "particle_data \<Rightarrow> bool" where
  "arrays_ok d \<longleftrightarrow> m_arrays_allocated d \<and> length (ptl d) = m_max_nparticles d \<and>
     length (ptl_alt d) = m_max_nparticles d \<and> length (m_comm_flags d) = m_max_nparticles d \<and>
     m_nparticles d + m_nghosts d \<le> m_max_nparticles d"

definition pd_ok :: "particle_data \<Rightarrow> bool" where
  "pd_ok d \<longleftrightarrow> arrays_ok d \<and>
     tags_ok (local_tags d) (hv_buf (m_rtag d)) (m_tag_set d) (m_recycled_tags d) \<and>
     m_nglobal d = length (m_tag_set d) \<and> hv_size (m_rtag d) \<le> length (m_tag_set d) + length (m_recycled_tags d) \<and>
     (\<forall>t\<in>set (m_tag_set d). t < hv_size (m_rtag d)) \<and>
     (m_recycled_tags d = [] \<longrightarrow> hv_size (m_rtag d) = m_nglobal d) \<and>
     (\<not> m_invalid_cached_tags d \<longrightarrow> m_cached_tag_set d = m_tag_set d)"

text \<open>Without a domain decomposition every active particle is local.\<close>

definition all_local :: "particle_data \<Rightarrow> bool" where
  "all_local d \<longleftrightarrow> (\<forall>t\<in>set (m_tag_set d). rtag_at t d \<noteq> NOT_LOCAL)"

lemma pd_okD:
  assumes "pd_ok d"
  shows "arrays_ok d" "tags_ok (local_tags d) (hv_buf (m_rtag d)) (m_tag_set d) (m_recycled_tags d)"
    "m_nglobal d = length (m_tag_set d)"
    "hv_size (m_rtag d) \<le> length (m_tag_set d) + length (m_recycled_tags d)"
    "t \<in> set (m_tag_set d) \<Longrightarrow> t < hv_size (m_rtag d)"
    "m_recycled_tags d = [] \<Longrightarrow> hv_size (m_rtag d) = m_nglobal d"
    "\<not> m_invalid_cached_tags d \<Longrightarrow> m_cached_tag_set d = m_tag_set d"
  using assms by (simp_all add: pd_ok_def)

lemma arrays_okD:
  assumes "arrays_ok d"
  shows "m_arrays_allocated d" "length (ptl d) = m_max_nparticles d"
     "length (ptl_alt d) = m_max_nparticles d" "length (m_comm_flags d) = m_max_nparticles d"
     "m_nparticles d + m_nghosts d \<le> m_max_nparticles d"
  using assms by (simp_all add: arrays_ok_def)

lemma length_local_tags: "arrays_ok d \<Longrightarrow> length (local_tags d) = m_nparticles d"
  by (simp add: local_tags_def arrays_ok_def)

lemma nth_local_tags:
  "arrays_ok d \<Longrightarrow> i < m_nparticles d \<Longrightarrow> local_tags d ! i = p_tag (ptl d ! i)"
  by (simp add: local_tags_def arrays_ok_def)

text \<open>Up to the net force, torque and virial, which reallocation clears.\<close>

lemma clear_net_idem [simp]: "clear_net (clear_net p) = clear_net p"
  by (simp add: clear_net_def)

lemma clear_net_fields [simp]:
  "p_pos (clear_net p) = p_pos p" "p_type (clear_net p) = p_type p" "p_vel (clear_net p) = p_vel p"
  "p_mass (clear_net p) = p_mass p" "p_accel (clear_net p) = p_accel p" "p_charge (clear_net p) = p_charge p"
  "p_diameter (clear_net p) = p_diameter p" "p_image (clear_net p) = p_image p" "p_body (clear_net p) = p_body p"
  "p_orientation (clear_net p) = p_orientation p" "p_angmom (clear_net p) = p_angmom p"
  "p_inertia (clear_net p) = p_inertia p" "p_tag (clear_net p) = p_tag p"
  by (simp_all add: clear_net_def)

lemma emit_fields [simp]:
  "m_nparticles (emit s d) = m_nparticles d" "m_nghosts (emit s d) = m_nghosts d"
  "m_max_nparticles (emit s d) = m_max_nparticles d" "m_nglobal (emit s d) = m_nglobal d"
  "m_arrays_allocated (emit s d) = m_arrays_allocated d" "ptl (emit s d) = ptl d"
  "ptl_alt (emit s d) = ptl_alt d" "m_comm_flags (emit s d) = m_comm_flags d" "m_rtag (emit s d) = m_rtag d"
  "m_tag_set (emit s d) = m_tag_set d" "m_recycled_tags (emit s d) = m_recycled_tags d"
  "m_cached_tag_set (emit s d) = m_cached_tag_set d"
  "m_invalid_cached_tags (emit s d) = m_invalid_cached_tags d" "m_origin (emit s d) = m_origin d"
  "m_o_image (emit s d) = m_o_image d" "m_type_mapping (emit s d) = m_type_mapping d"
  "m_global_box (emit s d) = m_global_box d" "m_accel_set (emit s d) = m_accel_set d"
  by (simp_all add: emit_def)

lemmas notify_defs = removeAllGhostParticles_def notifyGhostParticlesRemoved_def notifyParticleSort_def
  setNGlobal_def

text \<open>What resizing the arrays does: nothing but a change of the particle number if there is room, and otherwise
  larger arrays with the old particles in front.\<close>

lemma pd_resize_fields [simp]:
  "m_nparticles (pd_resize n d) = n" "m_nghosts (pd_resize n d) = m_nghosts d"
  "m_nglobal (pd_resize n d) = m_nglobal d" "m_rtag (pd_resize n d) = m_rtag d"
  "m_tag_set (pd_resize n d) = m_tag_set d" "m_recycled_tags (pd_resize n d) = m_recycled_tags d"
  "m_cached_tag_set (pd_resize n d) = m_cached_tag_set d"
  "m_invalid_cached_tags (pd_resize n d) = m_invalid_cached_tags d" "m_origin (pd_resize n d) = m_origin d"
  "m_o_image (pd_resize n d) = m_o_image d" "m_type_mapping (pd_resize n d) = m_type_mapping d"
  "m_global_box (pd_resize n d) = m_global_box d" "m_accel_set (pd_resize n d) = m_accel_set d"
  by (simp_all add: pd_resize_def pd_reallocate_def pd_allocate_def Let_def)

lemma pd_resize_arrays:
  assumes "arrays_ok d \<or> \<not> m_arrays_allocated d"
  shows "m_arrays_allocated (pd_resize n d)" "length (ptl (pd_resize n d)) = m_max_nparticles (pd_resize n d)"
    "length (ptl_alt (pd_resize n d)) = m_max_nparticles (pd_resize n d)"
    "length (m_comm_flags (pd_resize n d)) = m_max_nparticles (pd_resize n d)"
    "n \<le> m_max_nparticles (pd_resize n d)"
    "m_arrays_allocated d \<Longrightarrow> m_max_nparticles d \<le> m_max_nparticles (pd_resize n d)"
  using assms grow_ge [of n "m_max_nparticles d"]
  by (auto simp: pd_resize_def pd_reallocate_def pd_allocate_def Let_def arrays_ok_def)

lemma pd_resize_room:
  "m_arrays_allocated d \<Longrightarrow> n \<le> m_max_nparticles d \<Longrightarrow> pd_resize n d = d\<lparr>m_nparticles := n\<rparr>"
  by (simp add: pd_resize_def Let_def)

lemma pd_resize_ptl:
  assumes "arrays_ok d" "i < m_max_nparticles d"
  shows "clear_net (ptl (pd_resize n d) ! i) = clear_net (ptl d ! i)"
  using assms grow_ge [of n "m_max_nparticles d"]
  by (auto simp: pd_resize_def pd_reallocate_def Let_def arrays_ok_def resized_def nth_append)

lemma p_tag_clear_net: "clear_net p = clear_net q \<Longrightarrow> p_tag p = p_tag q"
  by (metis clear_net_fields(13))

lemma pd_resize_tags:
  assumes "arrays_ok d" "n \<le> m_max_nparticles d"
  shows "map p_tag (take n (ptl (pd_resize m d))) = map p_tag (take n (ptl d))"
  using assms pd_resize_arrays(2,6) [of d m] arrays_okD [OF assms(1)]
  by (auto simp: list_eq_iff_nth_eq p_tag_clear_net [OF pd_resize_ptl [OF assms(1)]])
section \<open>Adding a particle\<close>

lemma sorted_last_ge: "sorted xs \<Longrightarrow> x \<in> set xs \<Longrightarrow> x \<le> last xs"
  by (induction xs rule: rev_induct) (auto simp: sorted_append)

lemma last_insort_insert:
  fixes ac :: "nat list"
  assumes "sorted ac"
  shows "\<forall>s\<in>set (insort_insert t ac). s < last (insort_insert t ac) + 1"
  using sorted_last_ge [OF sorted_insort_insert [OF assms]] by (auto simp: less_Suc_eq_le)

text \<open>The state after the tag has been assigned and the reverse table extended.\<close>

definition tag_assigned :: "nat \<Rightarrow> particle_data \<Rightarrow> nat \<times> particle_data" where
  "tag_assigned idx d = (let d = removeAllGhostParticles d;
     (tag, recycled) = new_tag (m_nglobal d) (m_recycled_tags d);
     d = d\<lparr>m_recycled_tags := recycled, m_tag_set := insort_insert tag (m_tag_set d), m_invalid_cached_tags := True\<rparr>;
     d = d\<lparr>m_rtag := hv_resize (getMaximumTag d + 1) (m_rtag d)\<rparr>
     in (tag, d\<lparr>m_rtag := hv_set tag idx (m_rtag d)\<rparr>))"

lemma addParticle_split: "addParticle mpi typ d =
    (let (tag, d) = tag_assigned (if getRank mpi = 0 then m_nparticles d else NOT_LOCAL) d;
         d = (if getRank mpi = 0 then
            let idx = m_nparticles d;
                d = pd_resize (idx + 1) d
            in d\<lparr>ptl := (ptl d)[idx := default_element typ tag (ptl d ! idx)],
                 m_comm_flags := (m_comm_flags d)[idx := 0]\<rparr>
          else d)
     in (tag, notifyParticleSort (setNGlobal (m_nglobal d + 1) d)))"
  by (simp add: addParticle_def tag_assigned_def Let_def split_beta notify_defs)

lemma tag_assigned_fields:
  assumes "tag_assigned idx d = (t, d')"
  shows "m_nparticles d' = m_nparticles d" "m_nghosts d' = 0" "m_max_nparticles d' = m_max_nparticles d"
    "ptl d' = ptl d" "ptl_alt d' = ptl_alt d" "m_comm_flags d' = m_comm_flags d" "m_nglobal d' = m_nglobal d"
    "m_arrays_allocated d' = m_arrays_allocated d" "new_tag (m_nglobal d) (m_recycled_tags d) = (t, m_recycled_tags d')"
    "m_tag_set d' = insort_insert t (m_tag_set d)" "m_invalid_cached_tags d'"
    "hv_size (m_rtag d') = last (insort_insert t (m_tag_set d)) + 1"
    "\<exists>zs. hv_buf (m_rtag d') = (hv_buf (m_rtag d) @ zs)[t := idx] \<and>
       last (insort_insert t (m_tag_set d)) < length (hv_buf (m_rtag d) @ zs)"
    "m_origin d' = m_origin d" "m_o_image d' = m_o_image d" "m_type_mapping d' = m_type_mapping d"
    "m_global_box d' = m_global_box d"
proof -
  have ne: "insort_insert t (m_tag_set d) \<noteq> []" for t
    by (simp add: insort_insert_key_def insort_not_Nil) (metis empty_iff list.set(1))
  let ?n = "last (insort_insert t (m_tag_set d)) + 1"
  show "\<exists>zs. hv_buf (m_rtag d') = (hv_buf (m_rtag d) @ zs)[t := idx] \<and>
       last (insort_insert t (m_tag_set d)) < length (hv_buf (m_rtag d) @ zs)"
    using assms hv_resize_props [of ?n "m_rtag d"] ne
    by (auto simp: tag_assigned_def Let_def split_beta notify_defs getMaximumTag_def hv_set_def)
qed (use assms in \<open>auto simp: tag_assigned_def Let_def split_beta notify_defs getMaximumTag_def hv_set_def
    hv_resize_def insort_insert_key_def insort_not_Nil\<close>)

lemma tag_assigned_ok:
  assumes ok: "pd_ok d" and "tag_assigned idx d = (t, d')" and room: "m_nparticles d < NOT_LOCAL"
  shows "idx = m_nparticles d \<Longrightarrow>
      tags_ok (local_tags d @ [t]) (hv_buf (m_rtag d')) (m_tag_set d') (m_recycled_tags d')"
    "idx = NOT_LOCAL \<Longrightarrow> tags_ok (local_tags d) (hv_buf (m_rtag d')) (m_tag_set d') (m_recycled_tags d')"
    "hv_size (m_rtag d') \<le> length (m_tag_set d') + length (m_recycled_tags d')" "\<forall>s\<in>set (m_tag_set d'). s < hv_size (m_rtag d')"
    "m_recycled_tags d' = [] \<Longrightarrow> hv_size (m_rtag d') = m_nglobal d + 1"
    "length (m_tag_set d') = m_nglobal d + 1" "t \<notin> set (m_tag_set d)"
    "s \<in> set (m_tag_set d) \<Longrightarrow> rtag_at s d' = rtag_at s d" "rtag_at t d' = idx"
proof -
  note f = tag_assigned_fields [OF assms(2)]
  note p = pd_okD [OF ok] and T = tags_okD [OF pd_okD(2) [OF ok]]
  obtain zs where zs: "hv_buf (m_rtag d') = (hv_buf (m_rtag d) @ zs)[t := idx]"
      "last (insort_insert t (m_tag_set d)) < length (hv_buf (m_rtag d) @ zs)"
    using f(13) by blast
  note lt = last_insort_insert [OF T(1), of t]
  have t_in: "t \<in> set (insort_insert t (m_tag_set d))" by (simp add: set_insort_insert)
  have len: "t < length (hv_buf (m_rtag d) @ zs)" using bspec [OF lt t_in] zs(2) by linarith
  have new: "new_tag (length (m_tag_set d)) (m_recycled_tags d) = (t, m_recycled_tags d')"
    using f(9) p(3) by simp
  note add = tags_ok_add [OF p(2) new refl len]
  have room': "length (local_tags d) < NOT_LOCAL" using room length_local_tags [OF p(1)] by simp
  show "tags_ok (local_tags d @ [t]) (hv_buf (m_rtag d')) (m_tag_set d') (m_recycled_tags d')"
    if "idx = m_nparticles d"
    using add(1) [OF room'] that by (simp add: zs(1) f(10) length_local_tags [OF p(1)])
  show "tags_ok (local_tags d) (hv_buf (m_rtag d')) (m_tag_set d') (m_recycled_tags d')"
    if "idx = NOT_LOCAL"
    using add(2) [OF room'] that by (simp add: zs(1) f(10))
  show "\<forall>s\<in>set (m_tag_set d'). s < hv_size (m_rtag d')" using lt by (simp add: f(10,12))
  note n = new_tag_props [OF p(2) new]
  show n1: "length (m_tag_set d') = m_nglobal d + 1"
    using n(1) p(3) by (simp add: f(10) length_insort_insert)
  show "t \<notin> set (m_tag_set d)" by (rule n(1))
  show "hv_size (m_rtag d') \<le> length (m_tag_set d') + length (m_recycled_tags d')"
  proof -
    have "last (insort_insert t (m_tag_set d)) \<in> set (m_tag_set d) \<union> set (m_recycled_tags d') \<union> {t}"
      using last_in_set [of "insort_insert t (m_tag_set d)"] t_in
      by (cases "insort_insert t (m_tag_set d) = []") (auto simp: set_insort_insert)
    then show ?thesis unfolding n(6) using n1 p(3) f(12) by simp
  qed
  show "hv_size (m_rtag d') = m_nglobal d + 1" if "m_recycled_tags d' = []"
  proof -
    have s: "set (insort_insert t (m_tag_set d)) = {..<m_nglobal d + 1}"
      using n(6) that p(3) by (simp add: set_insort_insert)
    then have "m_nglobal d \<in> set (insort_insert t (m_tag_set d))" by simp
    then have ge: "m_nglobal d \<le> last (insort_insert t (m_tag_set d))"
      by (rule sorted_last_ge [OF sorted_insort_insert [OF T(1)]])
    have "insort_insert t (m_tag_set d) \<noteq> []"
      using t_in by (cases "insort_insert t (m_tag_set d)") simp_all
    then have "last (insort_insert t (m_tag_set d)) \<in> {..<m_nglobal d + 1}"
      unfolding s [symmetric] by (rule last_in_set)
    then show ?thesis using ge f(12) by simp
  qed
  show "rtag_at s d' = rtag_at s d" if "s \<in> set (m_tag_set d)"
  proof -
    have "t \<noteq> s" using that n(1) by blast
    then show ?thesis
      using that tags_ok_less [OF p(2), of s] by (simp add: rtag_at_def zs(1) nth_append)
  qed
  show "rtag_at t d' = idx" using len by (simp add: rtag_at_def zs(1))
qed

lemma local_tags_append:
  assumes "length ps = length qs" "\<forall>i<n. p_tag (ps ! i) = p_tag (qs ! i)" "n < length qs"
  shows "map p_tag (take (Suc n) (ps[n := q])) = map p_tag (take n qs) @ [p_tag q]"
  using assms by (auto simp: list_eq_iff_nth_eq nth_append less_Suc_eq)

lemma addParticle_rank0:
  assumes ok: "pd_ok d" and rank: "getRank mpi = 0" and room: "m_nparticles d < NOT_LOCAL"
    and add: "addParticle mpi typ d = (t, d')"
  shows "pd_ok d'" "m_nparticles d' = m_nparticles d + 1" "t \<notin> set (m_tag_set d)"
    "new_tag (m_nglobal d) (m_recycled_tags d) = (t, m_recycled_tags d')"
    "m_tag_set d' = insort_insert t (m_tag_set d)" "hv_size (m_rtag d') = last (m_tag_set d') + 1"
    "rtag_at t d' = m_nparticles d" "s \<in> set (m_tag_set d) \<Longrightarrow> rtag_at s d' = rtag_at s d"
    "\<exists>q. ptl d' ! m_nparticles d = default_element typ t q"
    "i < m_nparticles d \<Longrightarrow> clear_net (ptl d' ! i) = clear_net (ptl d ! i)" "local_tags d' = local_tags d @ [t]"
proof -
  let ?n = "m_nparticles d"
  obtain u e where "tag_assigned ?n d = (u, e)" by fastforce
  then have e: "tag_assigned ?n d = (t, e)"
    using add rank by (simp add: addParticle_split Let_def)
  note f = tag_assigned_fields [OF e] and g = tag_assigned_ok [OF ok e room]
  note A = arrays_okD [OF pd_okD(1) [OF ok]]
  have aok: "arrays_ok e" using A by (simp add: arrays_ok_def f)
  define r where "r = pd_resize (?n + 1) e"
  have d': "d' = notifyParticleSort (setNGlobal (m_nglobal d + 1)
      (r\<lparr>ptl := (ptl r)[?n := default_element typ t (ptl r ! ?n)], m_comm_flags := (m_comm_flags r)[?n := 0]\<rparr>))"
    using add rank by (simp add: addParticle_split e Let_def r_def f)
  note R = pd_resize_arrays [OF disjI1 [OF aok], of "?n + 1", folded r_def]
  have old: "clear_net (ptl r ! i) = clear_net (ptl d ! i)" if "i < ?n" for i
    using pd_resize_ptl [OF aok, of i "?n + 1"] that A(5) by (simp add: r_def f)
  show tags: "local_tags d' = local_tags d @ [t]"
  proof -
    have "local_tags d' = map p_tag (take ?n (ptl r)) @ [t]"
      using local_tags_append [of "ptl r" "ptl r" ?n] R(2,5)
      by (simp add: local_tags_def d' notify_defs r_def default_element_def)
    also have "map p_tag (take ?n (ptl r)) = local_tags d"
      unfolding r_def local_tags_def using pd_resize_tags [OF aok, of ?n] A(5) f(3,4) by simp
    finally show ?thesis .
  qed
  show "m_nparticles d' = ?n + 1" "new_tag (m_nglobal d) (m_recycled_tags d) = (t, m_recycled_tags d')"
    "m_tag_set d' = insort_insert t (m_tag_set d)" "hv_size (m_rtag d') = last (m_tag_set d') + 1"
    "t \<notin> set (m_tag_set d)"
    using f g(7) by (simp_all add: d' notify_defs r_def)
  have buf: "hv_buf (m_rtag d') = hv_buf (m_rtag e)" "hv_size (m_rtag d') = hv_size (m_rtag e)"
    "m_tag_set d' = m_tag_set e" "m_recycled_tags d' = m_recycled_tags e"
    by (simp_all add: d' notify_defs r_def)
  show "rtag_at t d' = ?n" "s \<in> set (m_tag_set d) \<Longrightarrow> rtag_at s d' = rtag_at s d"
    using g(8,9) buf by (simp_all add: rtag_at_def)
  show "\<exists>q. ptl d' ! ?n = default_element typ t q"
    using R(2,5) by (auto simp: d' notify_defs)
  show "clear_net (ptl d' ! i) = clear_net (ptl d ! i)" if "i < ?n"
    using old [OF that] that by (simp add: d' notify_defs)
  have "arrays_ok d'"
    using R by (simp add: arrays_ok_def d' notify_defs r_def f)
  moreover have "m_nglobal d' = length (m_tag_set d')" "m_invalid_cached_tags d'" "m_nglobal d' = m_nglobal d + 1"
    using g(6) f(11) by (simp_all add: d' notify_defs r_def)
  ultimately show "pd_ok d'"
    using g(1) [OF refl] g(3,4,5) by (simp add: pd_ok_def tags buf)
qed
lemma addParticle_other:
  assumes ok: "pd_ok d" and rank: "getRank mpi \<noteq> 0" and room: "m_nparticles d < NOT_LOCAL"
    and add: "addParticle mpi typ d = (t, d')"
  shows "pd_ok d'" "local_tags d' = local_tags d" "m_tag_set d' = insort_insert t (m_tag_set d)"
    "new_tag (m_nglobal d) (m_recycled_tags d) = (t, m_recycled_tags d')" "rtag_at t d' = NOT_LOCAL"
proof -
  obtain u e where "tag_assigned NOT_LOCAL d = (u, e)" by fastforce
  then have e: "tag_assigned NOT_LOCAL d = (t, e)"
    using add rank by (simp add: addParticle_split Let_def)
  note f = tag_assigned_fields [OF e] and g = tag_assigned_ok [OF ok e room]
  have d': "d' = notifyParticleSort (setNGlobal (m_nglobal d + 1) e)"
    using add rank by (simp add: addParticle_split e Let_def f)
  show lt: "local_tags d' = local_tags d" by (simp add: local_tags_def d' notify_defs f)
  show "m_tag_set d' = insort_insert t (m_tag_set d)"
    "new_tag (m_nglobal d) (m_recycled_tags d) = (t, m_recycled_tags d')" "rtag_at t d' = NOT_LOCAL"
    using f g(9) by (simp_all add: d' notify_defs rtag_at_def)
  have "arrays_ok d'"
    using arrays_okD [OF pd_okD(1) [OF ok]] by (simp add: arrays_ok_def d' notify_defs f)
  then show "pd_ok d'"
    using g(2) [OF refl] g(3,4,5,6) f(11) by (simp add: pd_ok_def lt) (simp add: d' notify_defs)
qed

section \<open>Removing a particle\<close>

definition remove_available :: "mpi_env \<Rightarrow> nat \<Rightarrow> particle_data \<Rightarrow> bool" where
  "remove_available mpi t d = (if decomposed mpi
     then allreduce_sum mpi (if isParticleLocal t d then 1 else 0) \<noteq> 0 else isParticleLocal t d)"

lemma removeParticle_errors:
  assumes "pd_ok d"
  shows "m_nglobal d = 0 \<Longrightarrow>
      removeParticle mpi t d = (Inl (Runtime_error ''Trying to remove particle when there are zero particles!''), d)"
    "m_nglobal d \<noteq> 0 \<Longrightarrow> t \<ge> hv_size (m_rtag d) \<Longrightarrow> removeParticle mpi t d =
      (Inl (Runtime_error (''Trying to remove particle '' @ nat_str t @ '' which does not exist.'')),
       removeAllGhostParticles d)"
    "m_nglobal d \<noteq> 0 \<Longrightarrow> t < hv_size (m_rtag d) \<Longrightarrow> \<not> remove_available mpi t d \<Longrightarrow> removeParticle mpi t d =
      (Inl (Runtime_error (''Trying to remove particle '' @ nat_str t @ '' which has been previously removed!'')),
       removeAllGhostParticles d)"
  by (auto simp: removeParticle_def Let_def notify_defs remove_available_def isParticleLocal_def rtag_at_def
      split: if_splits)

lemma pd_ok_ghosts: "pd_ok d \<Longrightarrow> pd_ok (removeAllGhostParticles d)"
  by (simp add: pd_ok_def arrays_ok_def notify_defs local_tags_def)

text \<open>The effect on the arrays when the particle is local.\<close>

lemma local_tags_swap_remove:
  assumes "arrays_ok d" "i < m_nparticles d"
  defines "n \<equiv> m_nparticles d"
  shows "map p_tag (take (n - 1) (if i < n - 1 then (ptl d)[i := move_element (ptl d ! (n - 1)) (ptl d ! i)] else ptl d))
    = swap_remove i (local_tags d)"
proof -
  have n: "n \<le> length (ptl d)" "i < n" using assms arrays_okD(2,5) [OF assms(1)] by auto
  have l: "last (local_tags d) = p_tag (ptl d ! (n - 1))"
  proof -
    have "local_tags d \<noteq> []" using n by (auto simp: local_tags_def n_def)
    then show ?thesis using n by (simp add: last_conv_nth local_tags_def n_def)
  qed
  show ?thesis
    using n by (auto simp: list_eq_iff_nth_eq swap_remove_nth l length_local_tags [OF assms(1)] n_def [symmetric]
        nth_local_tags [OF assms(1)] nth_list_update move_element_def)
qed

lemma removeParticle_local:
  assumes ok: "pd_ok d" and t: "t \<in> set (m_tag_set d)" and loc: "isParticleLocal t d"
    and av: "remove_available mpi t d" and rem: "removeParticle mpi t d = (r, d')"
  defines "n \<equiv> m_nparticles d" and "i \<equiv> rtag_at t d"
  shows "r = Inr ()" "pd_ok d'" "m_tag_set d' = remove1 t (m_tag_set d)" "m_recycled_tags d' = t # m_recycled_tags d"
    "m_nparticles d' = n - 1" "hv_size (m_rtag d') = hv_size (m_rtag d)" "local_tags d' = swap_remove i (local_tags d)"
    "j < n - 1 \<Longrightarrow> ptl d' ! j = (if j = i then move_element (ptl d ! (n - 1)) (ptl d ! i) else ptl d ! j)"
    "hv_buf (m_rtag d') = (let rb = (hv_buf (m_rtag d))[t := NOT_LOCAL] in
      if i < n - 1 then rb[p_tag (ptl d ! (n - 1)) := i] else rb)"
proof -
  note p = pd_okD [OF ok] and A = arrays_okD [OF pd_okD(1) [OF ok]]
  have nz: "m_nglobal d \<noteq> 0" using t p(3) by auto
  have lt: "t < hv_size (m_rtag d)" using p(5) t by simp
  have i: "i < n" using loc by (simp add: isParticleLocal_def i_def n_def)
  define P where "P = (if i < n - 1 then (ptl d)[i := move_element (ptl d ! (n - 1)) (ptl d ! i)] else ptl d)"
  define rb where "rb = (let rb = (hv_buf (m_rtag d))[t := NOT_LOCAL] in
      if i < n - 1 then rb[p_tag (ptl d ! (n - 1)) := i] else rb)"
  have av': "(if decomposed mpi then allreduce_sum mpi (if rtag_at t d < m_nparticles d then 1 else 0) \<noteq> 0
      else rtag_at t d < m_nparticles d)"
    using av unfolding remove_available_def isParticleLocal_def .
  have A5: "n - 1 \<le> m_max_nparticles d" using A(5) by (simp add: n_def)
  have body: "r = Inr () \<and> d' = notifyParticleSort (setNGlobal (m_nglobal d - 1)
      ((removeAllGhostParticles d)\<lparr>m_rtag := (m_rtag d)\<lparr>hv_buf := rb\<rparr>, ptl := P,
         m_comm_flags := (if i < n - 1 then (m_comm_flags d)[i := m_comm_flags d ! (n - 1)] else m_comm_flags d),
         m_nparticles := n - 1,
         m_tag_set := remove1 t (m_tag_set d), m_recycled_tags := t # m_recycled_tags d, m_invalid_cached_tags := True\<rparr>))"
    using rem nz lt av' i A(1) A5
    by (cases "i < n - 1") (auto simp: removeParticle_def Let_def notify_defs rtag_at_def i_def n_def P_def rb_def
        hv_set_def emit_def pd_resize_room split: if_splits)
  show "r = Inr ()" using body ..
  have d': "d' = notifyParticleSort (setNGlobal (m_nglobal d - 1)
      ((removeAllGhostParticles d)\<lparr>m_rtag := (m_rtag d)\<lparr>hv_buf := rb\<rparr>, ptl := P,
         m_comm_flags := (if i < n - 1 then (m_comm_flags d)[i := m_comm_flags d ! (n - 1)] else m_comm_flags d),
         m_nparticles := n - 1,
         m_tag_set := remove1 t (m_tag_set d), m_recycled_tags := t # m_recycled_tags d, m_invalid_cached_tags := True\<rparr>))"
    using body ..
  show f: "m_tag_set d' = remove1 t (m_tag_set d)" "m_recycled_tags d' = t # m_recycled_tags d"
    "m_nparticles d' = n - 1" "hv_size (m_rtag d') = hv_size (m_rtag d)"
    "hv_buf (m_rtag d') = (let rb = (hv_buf (m_rtag d))[t := NOT_LOCAL] in
      if i < n - 1 then rb[p_tag (ptl d ! (n - 1)) := i] else rb)"
    by (simp_all add: d' notify_defs rb_def)
  show "ptl d' ! j = (if j = i then move_element (ptl d ! (n - 1)) (ptl d ! i) else ptl d ! j)" if "j < n - 1"
    using that i A(2,5) by (auto simp: d' notify_defs P_def n_def)
  show tags: "local_tags d' = swap_remove i (local_tags d)"
  proof -
    have "local_tags d' = map p_tag (take (n - 1) P)" by (simp add: local_tags_def d' notify_defs)
    also have "\<dots> = swap_remove i (local_tags d)"
      unfolding P_def n_def by (rule local_tags_swap_remove [OF p(1)]) (use i in \<open>simp add: n_def\<close>)
    finally show ?thesis .
  qed
  have last: "last (local_tags d) = p_tag (ptl d ! (n - 1))"
    using i nth_local_tags [OF p(1), of "n - 1"] length_local_tags [OF p(1)]
      last_conv_nth [of "local_tags d"] by (cases "local_tags d = []") (auto simp: n_def)
  have "tags_ok (local_tags d') (hv_buf (m_rtag d')) (m_tag_set d') (m_recycled_tags d')"
    unfolding tags f Let_def last [symmetric] unfolding length_local_tags [OF p(1), folded n_def, symmetric]
    by (rule tags_ok_remove_local [OF p(2) t])
       (use i length_local_tags [OF p(1)] in \<open>simp_all add: n_def i_def rtag_at_def\<close>)
  moreover have "arrays_ok d'"
    using A by (auto simp: arrays_ok_def d' notify_defs P_def n_def)
  moreover have "m_nglobal d' = length (m_tag_set d')"
    using t p(3) by (simp add: d' notify_defs length_remove1)
  moreover have "hv_size (m_rtag d') \<le> length (m_tag_set d') + length (m_recycled_tags d')"
    using p(4) t length_pos_if_in_set [OF t] by (simp add: f length_remove1)
  moreover have "\<forall>s\<in>set (m_tag_set d'). s < hv_size (m_rtag d')"
    using p(5) by (auto simp: f dest: notin_set_remove1 set_remove1_subset [THEN subsetD])
  moreover have "m_invalid_cached_tags d'" by (simp add: d' notify_defs)
  ultimately show "pd_ok d'" by (simp add: pd_ok_def f(2))
qed
lemma removeParticle_remote:
  assumes ok: "pd_ok d" and t: "t \<in> set (m_tag_set d)" and loc: "\<not> isParticleLocal t d"
    and av: "remove_available mpi t d" and rem: "removeParticle mpi t d = (r, d')"
  shows "r = Inr ()" "pd_ok d'" "m_tag_set d' = remove1 t (m_tag_set d)" "m_recycled_tags d' = t # m_recycled_tags d"
    "local_tags d' = local_tags d"
proof -
  note p = pd_okD [OF ok] and A = arrays_okD [OF pd_okD(1) [OF ok]]
  have nz: "m_nglobal d \<noteq> 0" using t p(3) by auto
  have lt: "t < hv_size (m_rtag d)" using p(5) t by simp
  have nl: "hv_buf (m_rtag d) ! t = NOT_LOCAL"
    using tags_ok_rtag [OF p(2) t] loc length_local_tags [OF p(1)]
    by (simp add: isParticleLocal_def rtag_at_def)
  have keep: "(hv_buf (m_rtag d))[t := NOT_LOCAL] = hv_buf (m_rtag d)"
    using nl by (metis list_update_id)
  have body: "r = Inr () \<and> d' = notifyParticleSort (setNGlobal (m_nglobal d - 1)
      ((removeAllGhostParticles d)\<lparr>m_tag_set := remove1 t (m_tag_set d),
         m_recycled_tags := t # m_recycled_tags d, m_invalid_cached_tags := True\<rparr>))"
    using rem nz lt loc av unfolding remove_available_def isParticleLocal_def
    by (auto simp: removeParticle_def Let_def notify_defs rtag_at_def hv_set_def emit_def keep split: if_splits)
  then have d': "d' = notifyParticleSort (setNGlobal (m_nglobal d - 1)
      ((removeAllGhostParticles d)\<lparr>m_tag_set := remove1 t (m_tag_set d),
         m_recycled_tags := t # m_recycled_tags d, m_invalid_cached_tags := True\<rparr>))" ..
  show "r = Inr ()" using body ..
  show f: "m_tag_set d' = remove1 t (m_tag_set d)" "m_recycled_tags d' = t # m_recycled_tags d"
    "local_tags d' = local_tags d"
    by (simp_all add: d' notify_defs local_tags_def)
  have "tags_ok (local_tags d') (hv_buf (m_rtag d')) (m_tag_set d') (m_recycled_tags d')"
    using tags_ok_remove_remote [OF p(2) t nl] by (simp add: f) (simp add: d' notify_defs)
  moreover have "arrays_ok d'" using A by (auto simp: arrays_ok_def d' notify_defs)
  moreover have "m_nglobal d' = length (m_tag_set d')"
    using t p(3) by (simp add: d' notify_defs length_remove1)
  moreover have "\<forall>s\<in>set (m_tag_set d'). s < hv_size (m_rtag d')"
    using p(5) set_remove1_subset [of t "m_tag_set d"]
    unfolding f by (auto simp: d' notify_defs)
  moreover have "hv_size (m_rtag d') \<le> length (m_tag_set d') + length (m_recycled_tags d')"
    using p(4) t length_pos_if_in_set [OF t] unfolding f by (simp add: length_remove1 d' notify_defs)
  ultimately show "pd_ok d'"
    by (simp add: pd_ok_def f(2)) (simp add: d' notify_defs)
qed

section \<open>Abstract specification\<close>

text \<open>A particle without the fields that reallocation clears and without angular momentum and
  moments of inertia, which \<open>removeParticle\<close> does not move along.\<close>

definition core :: "pdata_element \<Rightarrow> pdata_element" where
  "core p = (clear_net p)\<lparr>p_angmom := zero4, p_inertia := 0\<rparr>"

lemma core_clear_net: "clear_net p = clear_net q \<Longrightarrow> core p = core q"
  by (simp add: core_def)

lemma core_move [simp]: "core (move_element p q) = core p"
  by (simp add: core_def move_element_def clear_net_def)

lemma core_default: "core (default_element typ t p) = core (default_element typ t q)"
  by (simp add: core_def default_element_def clear_net_def)

definition pd_view :: "particle_data \<Rightarrow> nat \<Rightarrow> pdata_element option" where
  "pd_view d t = (if t \<in> set (m_tag_set d) \<and> isParticleLocal t d then Some (core (ptl d ! rtag_at t d)) else None)"

definition serial_env :: mpi_env where
  "serial_env = \<lparr>getRank = 0, decomposed = False, allreduce_sum = id, allreduce_max = id\<rparr>"

datatype pd_op = Op_add nat | Op_remove nat | Op_nth nat

fun pd_step :: "pd_op \<Rightarrow> particle_data \<Rightarrow> (exn + nat option) \<times> particle_data" where
  "pd_step (Op_add typ) d = (case addParticle serial_env typ d of (t, d) \<Rightarrow> (Inr (Some t), d))"
| "pd_step (Op_remove t) d = obind (removeParticle serial_env t d) (\<lambda>_ d. (Inr None, d))"
| "pd_step (Op_nth n) d = obind (getNthTag n d) (\<lambda>t d. (Inr (Some t), d))"

text \<open>The abstract state: the particles by tag, the stack of tags to use again, and the bound below which a tag
  counts as having existed.\<close>

type_synonym pd_abs_state = "(nat \<rightharpoonup> pdata_element) \<times> nat list \<times> nat"

fun pd_spec :: "pd_op \<Rightarrow> pd_abs_state \<Rightarrow> (exn + nat option) \<times> pd_abs_state" where
  "pd_spec (Op_add typ) (m, rc, sz) = (let (t, rc') = new_tag (card (dom m)) rc;
     m' = m(t \<mapsto> core (default_element typ t zero_element))
     in (Inr (Some t), (m', rc', Max (dom m') + 1)))"
| "pd_spec (Op_remove t) (m, rc, sz) =
    (if dom m = {} then (Inl (Runtime_error ''Trying to remove particle when there are zero particles!''), (m, rc, sz))
     else if t \<ge> sz then
       (Inl (Runtime_error (''Trying to remove particle '' @ nat_str t @ '' which does not exist.'')), (m, rc, sz))
     else if t \<notin> dom m then
       (Inl (Runtime_error (''Trying to remove particle '' @ nat_str t @ '' which has been previously removed!'')), (m, rc, sz))
     else (Inr None, (m(t := None), t # rc, sz)))"
| "pd_spec (Op_nth n) (m, rc, sz) =
    (if n \<ge> card (dom m) then (Inl (Runtime_error (''Particle id '' @ nat_str n @ ''does not exist!'')), (m, rc, sz))
     else (Inr (Some (sorted_list_of_set (dom m) ! n)), (m, rc, sz)))"

fun pd_pre :: "pd_op \<Rightarrow> pd_abs_state \<Rightarrow> bool" where
  "pd_pre (Op_add typ) (m, rc, sz) \<longleftrightarrow> card (dom m) < NOT_LOCAL"
| "pd_pre _ _ \<longleftrightarrow> True"

definition pd_inv :: "particle_data \<Rightarrow> bool" where
  "pd_inv d \<longleftrightarrow> pd_ok d \<and> all_local d"

definition pd_abs :: "particle_data \<Rightarrow> pd_abs_state" where
  "pd_abs d = (pd_view d, m_recycled_tags d, hv_size (m_rtag d))"

lemma pd_inv_local:
  assumes "pd_inv d" "t \<in> set (m_tag_set d)"
  shows "isParticleLocal t d" "rtag_at t d < m_nparticles d" "p_tag (ptl d ! rtag_at t d) = t"
proof -
  have ok: "pd_ok d" and l: "rtag_at t d \<noteq> NOT_LOCAL"
    using assms by (auto simp: pd_inv_def all_local_def)
  note T = pd_okD(2) [OF ok]
  show lt: "rtag_at t d < m_nparticles d"
    using tags_okD(9) [OF T assms(2)] l length_local_tags [OF pd_okD(1) [OF ok]] by (simp add: rtag_at_def)
  then show "isParticleLocal t d" by (simp add: isParticleLocal_def)
  show "p_tag (ptl d ! rtag_at t d) = t"
    using tags_okD(10) [OF T assms(2)] l nth_local_tags [OF pd_okD(1) [OF ok] lt] by (simp add: rtag_at_def)
qed

lemma dom_pd_view: "pd_inv d \<Longrightarrow> dom (pd_view d) = set (m_tag_set d)"
  using pd_inv_local(1) by (auto simp: pd_view_def split: if_splits)

lemma pd_view_Some: "pd_inv d \<Longrightarrow> t \<in> set (m_tag_set d) \<Longrightarrow> pd_view d t = Some (core (ptl d ! rtag_at t d))"
  using pd_inv_local(1) by (simp add: pd_view_def)

lemma pd_inv_counts:
  assumes "pd_inv d"
  shows "card (dom (pd_view d)) = m_nglobal d" "m_nparticles d = m_nglobal d"
    "sorted_list_of_set (dom (pd_view d)) = m_tag_set d"
proof -
  have ok: "pd_ok d" using assms by (simp add: pd_inv_def)
  note T = tags_okD [OF pd_okD(2) [OF ok]]
  show "card (dom (pd_view d)) = m_nglobal d"
    using T(2) pd_okD(3) [OF ok] by (simp add: dom_pd_view [OF assms] distinct_card)
  show "sorted_list_of_set (dom (pd_view d)) = m_tag_set d"
    unfolding dom_pd_view [OF assms] by (rule sorted_distinct_set_unique) (use T(1,2) in auto)
  have "set (local_tags d) = set (m_tag_set d)"
    using tags_ok_set [OF pd_okD(2) [OF ok]] assms by (auto simp: pd_inv_def all_local_def rtag_at_def)
  then show "m_nparticles d = m_nglobal d"
    using tags_ok_distinct [OF pd_okD(2) [OF ok]] T(2) length_local_tags [OF pd_okD(1) [OF ok]] pd_okD(3) [OF ok]
    by (metis distinct_card)
qed
lemma pd_add_refines:
  assumes inv: "pd_inv d" and pre: "pd_pre (Op_add typ) (pd_abs d)"
    and step: "addParticle serial_env typ d = (t, d')"
  shows "pd_inv d'" "pd_spec (Op_add typ) (pd_abs d) = (Inr (Some t), pd_abs d')"
proof -
  have ok: "pd_ok d" using inv by (simp add: pd_inv_def)
  note c = pd_inv_counts [OF inv]
  have room: "m_nparticles d < NOT_LOCAL" using pre c by (simp add: pd_abs_def)
  note a = addParticle_rank0 [OF ok _ room step]
  have rank: "getRank serial_env = 0" by (simp add: serial_env_def)
  note a = a [OF rank]
  have "all_local d'"
    using inv a(5,7,8) room unfolding pd_inv_def all_local_def by (auto simp: set_insort_insert)
  then show inv': "pd_inv d'" using a(1) by (simp add: pd_inv_def)
  have view: "pd_view d' = (pd_view d)(t \<mapsto> core (default_element typ t zero_element))"
  proof
    fix s
    show "pd_view d' s = ((pd_view d)(t \<mapsto> core (default_element typ t zero_element))) s"
    proof (cases "s = t")
      case True
      then show ?thesis
        using pd_view_Some [OF inv', of t] a(5,7,9) core_default by (auto simp: set_insort_insert)
    next
      case False
      show ?thesis
      proof (cases "s \<in> set (m_tag_set d)")
        case True
        then have "pd_view d' s = Some (core (ptl d' ! rtag_at s d))"
          using pd_view_Some [OF inv', of s] a(5,8) by (simp add: set_insort_insert)
        also have "core (ptl d' ! rtag_at s d) = core (ptl d ! rtag_at s d)"
          by (intro core_clear_net a(10) pd_inv_local(2) [OF inv True])
        finally show ?thesis using pd_view_Some [OF inv True] False by simp
      next
        case out: False
        then show ?thesis using False a(5) by (simp add: pd_view_def set_insort_insert)
      qed
    qed
  qed
  have dom: "dom (pd_view d') = insert t (dom (pd_view d))"
    unfolding view by simp
  have "Max (dom (pd_view d')) = last (m_tag_set d')"
  proof (rule Max_eqI)
    show "finite (dom (pd_view d'))" by (simp add: dom_pd_view [OF inv'])
    show "y \<le> last (m_tag_set d')" if "y \<in> dom (pd_view d')" for y
      using that sorted_last_ge tags_okD(1) [OF pd_okD(2) [OF a(1)]] by (simp add: dom_pd_view [OF inv'])
    show "last (m_tag_set d') \<in> dom (pd_view d')"
    proof -
      have "t \<in> set (m_tag_set d')" by (simp add: a(5) set_insort_insert)
      then have "m_tag_set d' \<noteq> []" by (cases "m_tag_set d'") simp_all
      then show ?thesis unfolding dom_pd_view [OF inv'] by (rule last_in_set)
    qed
  qed
  then show "pd_spec (Op_add typ) (pd_abs d) = (Inr (Some t), pd_abs d')"
    using a(4,6) c(1) dom by (simp add: pd_abs_def view Let_def)
qed

text \<open>What a removal does to the other particles: the one that was last takes the place of the removed one, and
  all fields but angular momentum and moments of inertia move with it.\<close>

lemma pd_remove_index:
  assumes inv: "pd_inv d" and t: "t \<in> set (m_tag_set d)" and step: "removeParticle serial_env t d = (r, d')"
    and s: "s \<in> set (m_tag_set d)" "s \<noteq> t"
  defines "n \<equiv> m_nparticles d" and "i \<equiv> rtag_at t d"
  shows "rtag_at s d' = (if rtag_at s d = n - 1 then i else rtag_at s d)" "rtag_at s d' < n - 1"
    "ptl d' ! rtag_at s d' = (if rtag_at s d = n - 1 then move_element (ptl d ! (n - 1)) (ptl d ! i) else ptl d ! rtag_at s d)"
proof -
  have ok: "pd_ok d" using inv by (simp add: pd_inv_def)
  note l = pd_inv_local [OF inv t] and ls = pd_inv_local [OF inv s(1)]
  have av: "remove_available serial_env t d"
    using l(1) by (simp add: remove_available_def serial_env_def)
  note R = removeParticle_local [OF ok t l(1) av step, folded n_def i_def]
  note T = pd_okD(2) [OF ok]
  have less: "s < length (hv_buf (m_rtag d))" "t < length (hv_buf (m_rtag d))"
    using tags_ok_less [OF T] s t by blast+
  have "p_tag (ptl d ! (n - 1)) = s \<longleftrightarrow> rtag_at s d = n - 1"
  proof
    assume "p_tag (ptl d ! (n - 1)) = s"
    then show "rtag_at s d = n - 1"
      using tags_okD(8) [OF T, of "n - 1"] nth_local_tags [OF pd_okD(1) [OF ok], of "n - 1"] ls(2)
        length_local_tags [OF pd_okD(1) [OF ok]] by (simp add: n_def rtag_at_def)
  qed (use ls(3) in simp)
  moreover have neq: "rtag_at s d \<noteq> i" using ls(3) l(3) s(2) by (auto simp: i_def)
  moreover have "i < n" using l(2) by (simp add: i_def n_def)
  moreover have "i < n - 1" if "rtag_at s d = n - 1" using that neq \<open>i < n\<close> by simp
  ultimately show r: "rtag_at s d' = (if rtag_at s d = n - 1 then i else rtag_at s d)"
    using less s(2) R(9) by (auto simp: rtag_at_def [of s d'] nth_list_update Let_def) (auto simp: rtag_at_def)
  show lt: "rtag_at s d' < n - 1"
    unfolding r using neq ls(2) \<open>i < n\<close> by (auto simp: n_def)
  show "ptl d' ! rtag_at s d' = (if rtag_at s d = n - 1 then move_element (ptl d ! (n - 1)) (ptl d ! i) else ptl d ! rtag_at s d)"
    using R(8) [OF lt] neq by (auto simp: r)
qed

lemma pd_remove_other:
  assumes inv: "pd_inv d" and t: "t \<in> set (m_tag_set d)" and step: "removeParticle serial_env t d = (r, d')"
    and s: "s \<in> set (m_tag_set d)" "s \<noteq> t"
  shows "isParticleLocal s d'" "core (ptl d' ! rtag_at s d') = core (ptl d ! rtag_at s d)" "rtag_at s d' < m_nparticles d"
proof -
  note I = pd_remove_index [OF assms]
  have ok: "pd_ok d" using inv by (simp add: pd_inv_def)
  note l = pd_inv_local [OF inv t]
  have av: "remove_available serial_env t d"
    using l(1) by (simp add: remove_available_def serial_env_def)
  show "isParticleLocal s d'"
    using I(2) removeParticle_local(5) [OF ok t l(1) av step] by (simp add: isParticleLocal_def)
  show "core (ptl d' ! rtag_at s d') = core (ptl d ! rtag_at s d)" using I(3) by simp
  show "rtag_at s d' < m_nparticles d" using I(2) by simp
qed

lemma pd_remove_refines:
  assumes inv: "pd_inv d" and step: "removeParticle serial_env t d = (r, d')"
  shows "pd_inv d'" "pd_spec (Op_remove t) (pd_abs d) = (map_sum id (\<lambda>_. None) r, pd_abs d')"
proof -
  have ok: "pd_ok d" using inv by (simp add: pd_inv_def)
  note c = pd_inv_counts [OF inv] and dom = dom_pd_view [OF inv]
  have serial: "remove_available serial_env t d = isParticleLocal t d"
    by (simp add: remove_available_def serial_env_def)
  note e = removeParticle_errors [OF ok, where mpi = serial_env and t = t]
  have g: "pd_inv (removeAllGhostParticles d)" "pd_abs (removeAllGhostParticles d) = pd_abs d"
    using inv pd_ok_ghosts [OF ok]
    by (auto simp: pd_inv_def all_local_def pd_abs_def pd_view_def isParticleLocal_def rtag_at_def notify_defs fun_eq_iff)
  have dom0: "dom (pd_view d) = {} \<longleftrightarrow> m_nglobal d = 0"
    using dom pd_okD(3) [OF ok] by simp
  have local_active: "t \<in> set (m_tag_set d)" if "t < hv_size (m_rtag d)" "isParticleLocal t d"
  proof -
    note T = tags_okD [OF pd_okD(2) [OF ok]]
    have "t \<in> set (m_tag_set d) \<union> set (m_recycled_tags d)"
      unfolding T(5) using that(1) pd_okD(4) [OF ok] by simp
    moreover have "t \<notin> set (m_recycled_tags d)"
      using that(2) T(11) [of t] T(12) length_local_tags [OF pd_okD(1) [OF ok]]
      by (auto simp: isParticleLocal_def rtag_at_def)
    ultimately show ?thesis by blast
  qed
  consider (empty) "m_nglobal d = 0" | (unknown) "m_nglobal d \<noteq> 0" "t \<ge> hv_size (m_rtag d)"
    | (gone) "m_nglobal d \<noteq> 0" "t < hv_size (m_rtag d)" "t \<notin> set (m_tag_set d)"
    | (active) "t \<in> set (m_tag_set d)" by (metis not_less)
  then have "pd_inv d' \<and> pd_spec (Op_remove t) (pd_abs d) = (map_sum id (\<lambda>_. None) r, pd_abs d')"
  proof cases
    case empty
    then show ?thesis using e(1) step inv dom0 by (simp add: pd_abs_def)
  next
    case unknown
    then show ?thesis using e(2) step g dom0 by (simp add: pd_abs_def)
  next
    case gone
    then have "\<not> remove_available serial_env t d" using serial local_active by blast
    then show ?thesis using e(3) gone step g dom0 dom by (simp add: pd_abs_def)
  next
    case active
    note l = pd_inv_local [OF inv active]
    have av: "remove_available serial_env t d" using serial l(1) by simp
    note R = removeParticle_local [OF ok active l(1) av step]
    have T: "tags_ok (local_tags d) (hv_buf (m_rtag d)) (m_tag_set d) (m_recycled_tags d)"
      by (rule pd_okD(2) [OF ok])
    have set': "set (m_tag_set d') = set (m_tag_set d) - {t}"
      using R(3) tags_okD(2) [OF T] by (simp add: set_remove1_eq)
    have other: "isParticleLocal s d' \<and> core (ptl d' ! rtag_at s d') = core (ptl d ! rtag_at s d)"
      if s: "s \<in> set (m_tag_set d')" for s
      using pd_remove_other [OF inv active step] s set' by blast
    have "rtag_at s d' \<noteq> NOT_LOCAL" if "s \<in> set (m_tag_set d')" for s
      using pd_remove_other(3) [OF inv active step, of s] that set' tags_okD(12) [OF T]
        length_local_tags [OF pd_okD(1) [OF ok]] by auto
    then have inv': "pd_inv d'" using R(2) by (simp add: pd_inv_def all_local_def)
    have "pd_view d' = (pd_view d)(t := None)"
      using other set' pd_inv_local(1) [OF inv] by (auto simp: pd_view_def fun_eq_iff)
    then show ?thesis
      using R(1,4,6) inv' active pd_okD(3) [OF ok] pd_okD(5) [OF ok active] dom dom0 by (auto simp: pd_abs_def)
  qed
  then show "pd_inv d'" "pd_spec (Op_remove t) (pd_abs d) = (map_sum id (\<lambda>_. None) r, pd_abs d')" by auto
qed

lemma pd_nth_refines:
  assumes inv: "pd_inv d" and step: "getNthTag n d = (r, d')"
  shows "pd_inv d'" "pd_spec (Op_nth n) (pd_abs d) = (map_sum id Some r, pd_abs d')"
proof -
  have ok: "pd_ok d" using inv by (simp add: pd_inv_def)
  note c = pd_inv_counts [OF inv]
  have m: "pd_inv (maybe_rebuild_tag_cache d)" "pd_abs (maybe_rebuild_tag_cache d) = pd_abs d"
    "m_cached_tag_set (maybe_rebuild_tag_cache d) = m_tag_set d"
    using inv pd_okD(7) [OF ok]
    by (auto simp: maybe_rebuild_tag_cache_def pd_inv_def pd_ok_def arrays_ok_def local_tags_def all_local_def
        pd_abs_def pd_view_def isParticleLocal_def rtag_at_def fun_eq_iff)
  show "pd_inv d'" "pd_spec (Op_nth n) (pd_abs d) = (map_sum id Some r, pd_abs d')"
    using step m inv c by (auto simp: getNthTag_def Let_def pd_abs_def split: if_splits)
qed

lemma pd_step_refines:
  assumes "pd_inv d" "pd_pre op (pd_abs d)"
  shows "pd_inv (snd (pd_step op d)) \<and> pd_spec op (pd_abs d) = (fst (pd_step op d), pd_abs (snd (pd_step op d)))"
proof (cases op)
  case (Op_add ty)
  obtain t d' where step: "addParticle serial_env ty d = (t, d')" by fastforce
  show ?thesis using pd_add_refines [OF assms(1) _ step] assms(2) Op_add step by simp
next
  case (Op_remove t)
  obtain r d' where step: "removeParticle serial_env t d = (r, d')" by fastforce
  show ?thesis using pd_remove_refines [OF assms(1) step] Op_remove step by (cases r) simp_all
next
  case (Op_nth n)
  obtain r d' where step: "getNthTag n d = (r, d')" by fastforce
  show ?thesis using pd_nth_refines [OF assms(1) step] Op_nth step by (cases r) simp_all
qed

interpretation ptls: refinement pd_inv pd_abs pd_pre pd_step pd_spec
  by unfold_locales (use pd_step_refines in \<open>auto simp: prod_eq_iff\<close>)

section \<open>All fields of the particles\<close>

text \<open>The exact behaviour on all fields that survive a reallocation.  The abstract state has the tags in the order in which the
  particles are stored, the particles by tag, the stack of tags to use again, and the bound below which a tag counts as having existed.
  When a particle is removed, the one stored last takes its place with all fields except angular momentum and moments of inertia, for
  which it inherits the values of the removed particle.\<close>

type_synonym full_state = "nat list \<times> (nat \<rightharpoonup> pdata_element) \<times> nat list \<times> nat"

definition inherit :: "pdata_element \<Rightarrow> pdata_element \<Rightarrow> pdata_element" where
  "inherit p q = p\<lparr>p_angmom := p_angmom q, p_inertia := p_inertia q\<rparr>"

fun full_spec :: "pd_op \<Rightarrow> full_state \<Rightarrow> (exn + nat option) \<times> full_state" where
  "full_spec (Op_add typ) (ts, m, rc, sz) = (let (t, rc') = new_tag (card (dom m)) rc;
     m' = m(t \<mapsto> clear_net (default_element typ t zero_element))
     in (Inr (Some t), (ts @ [t], m', rc', Max (dom m') + 1)))"
| "full_spec (Op_remove t) (ts, m, rc, sz) =
    (if dom m = {} then (Inl (Runtime_error ''Trying to remove particle when there are zero particles!''), (ts, m, rc, sz))
     else if t \<ge> sz then
       (Inl (Runtime_error (''Trying to remove particle '' @ nat_str t @ '' which does not exist.'')), (ts, m, rc, sz))
     else (case m t of None \<Rightarrow>
         (Inl (Runtime_error (''Trying to remove particle '' @ nat_str t @ '' which has been previously removed!'')), (ts, m, rc, sz))
       | Some q \<Rightarrow> (Inr None, (swap_remove (length (takeWhile (\<lambda>s. s \<noteq> t) ts)) ts,
           (m(last ts := map_option (\<lambda>p. inherit p q) (m (last ts))))(t := None), t # rc, sz))))"
| "full_spec (Op_nth n) (ts, m, rc, sz) =
    (if n \<ge> card (dom m) then (Inl (Runtime_error (''Particle id '' @ nat_str n @ ''does not exist!'')), (ts, m, rc, sz))
     else (Inr (Some (sorted_list_of_set (dom m) ! n)), (ts, m, rc, sz)))"

fun full_pre :: "pd_op \<Rightarrow> full_state \<Rightarrow> bool" where
  "full_pre (Op_add typ) (ts, m, rc, sz) \<longleftrightarrow> card (dom m) < NOT_LOCAL"
| "full_pre _ _ \<longleftrightarrow> True"

definition pd_particles :: "particle_data \<Rightarrow> nat \<Rightarrow> pdata_element option" where
  "pd_particles d t = (if t \<in> set (m_tag_set d) \<and> isParticleLocal t d then Some (clear_net (ptl d ! rtag_at t d)) else None)"

definition pd_full :: "particle_data \<Rightarrow> full_state" where
  "pd_full d = (local_tags d, pd_particles d, m_recycled_tags d, hv_size (m_rtag d))"

lemma dom_pd_particles: "dom (pd_particles d) = dom (pd_view d)"
  by (auto simp: pd_particles_def pd_view_def split: if_splits)

lemma pd_particles_inv: "pd_inv d \<Longrightarrow> pd_particles d t = (if t \<in> set (m_tag_set d) then Some (clear_net (ptl d ! rtag_at t d)) else None)"
  using pd_inv_local(1) by (simp add: pd_particles_def)

lemma clear_net_default: "clear_net (default_element typ t p) = clear_net (default_element typ t q)"
  by (simp add: default_element_def clear_net_def)

lemma clear_net_move: "clear_net (move_element p q) = inherit (clear_net p) q"
  by (simp add: move_element_def clear_net_def inherit_def)

lemma inherit_clear_net [simp]: "inherit p (clear_net q) = inherit p q"
  by (simp add: inherit_def)

lemma full_pre_iff: "full_pre op (pd_full d) = pd_pre op (pd_abs d)"
  by (cases op) (simp_all add: pd_full_def pd_abs_def dom_pd_particles)

text \<open>Results, recycled tags and bound are those of the simpler specification.\<close>

lemma full_spec_rest:
  "fst (full_spec op (pd_full d)) = fst (pd_spec op (pd_abs d))"
  "snd (snd (snd (full_spec op (pd_full d)))) = snd (snd (pd_spec op (pd_abs d)))"
proof -
  have "fst (full_spec op (pd_full d)) = fst (pd_spec op (pd_abs d)) \<and>
      snd (snd (snd (full_spec op (pd_full d)))) = snd (snd (pd_spec op (pd_abs d)))"
  proof (cases op)
    case (Op_remove t)
    show ?thesis
    proof (cases "pd_particles d t")
      case None
      then have "t \<notin> dom (pd_view d)" using dom_pd_particles [of d] by blast
      then show ?thesis using None Op_remove by (simp add: pd_full_def pd_abs_def dom_pd_particles)
    next
      case (Some q)
      then have "t \<in> dom (pd_view d)" using dom_pd_particles [of d] by blast
      then show ?thesis using Some Op_remove by (simp add: pd_full_def pd_abs_def dom_pd_particles)
    qed
  qed (simp_all add: pd_full_def pd_abs_def dom_pd_particles split_beta Let_def)
  then show "fst (full_spec op (pd_full d)) = fst (pd_spec op (pd_abs d))"
    "snd (snd (snd (full_spec op (pd_full d)))) = snd (snd (pd_spec op (pd_abs d)))" by blast+
qed

lemma full_add:
  assumes inv: "pd_inv d" and pre: "pd_pre (Op_add typ) (pd_abs d)" and step: "addParticle serial_env typ d = (t, d')"
  shows "local_tags d' = local_tags d @ [t]" "pd_particles d' = (pd_particles d)(t \<mapsto> clear_net (default_element typ t zero_element))"
proof -
  have ok: "pd_ok d" and rank: "getRank serial_env = 0" using inv by (simp_all add: pd_inv_def serial_env_def)
  have room: "m_nparticles d < NOT_LOCAL" using pre pd_inv_counts [OF inv] by (simp add: pd_abs_def)
  note a = addParticle_rank0 [OF ok rank room step] and inv' = pd_add_refines(1) [OF inv pre step]
  show "local_tags d' = local_tags d @ [t]" by (rule a(11))
  have "clear_net (ptl d' ! m_nparticles d) = clear_net (default_element typ t zero_element)" using a(9) clear_net_default by metis
  then show "pd_particles d' = (pd_particles d)(t \<mapsto> clear_net (default_element typ t zero_element))"
    using a(3,5,7,8) a(10) [OF pd_inv_local(2) [OF inv]]
    by (auto simp: fun_eq_iff pd_particles_inv [OF inv] pd_particles_inv [OF inv'] set_insort_insert)
qed

lemma local_tags_place:
  assumes inv: "pd_inv d" and t: "t \<in> set (m_tag_set d)"
  shows "length (takeWhile (\<lambda>s. s \<noteq> t) (local_tags d)) = rtag_at t d" "last (local_tags d) = t \<longleftrightarrow> rtag_at t d = m_nparticles d - 1"
    "last (local_tags d) \<in> set (m_tag_set d)"
proof -
  have ok: "pd_ok d" using inv by (simp add: pd_inv_def)
  note l = pd_inv_local [OF inv t] and T = pd_okD(2) [OF ok] and len = length_local_tags [OF pd_okD(1) [OF ok]]
  have i: "rtag_at t d < length (local_tags d)" "local_tags d ! rtag_at t d = t"
    using l nth_local_tags [OF pd_okD(1) [OF ok]] len by simp_all
  have "takeWhile (\<lambda>s. s \<noteq> t) (local_tags d) = take (rtag_at t d) (local_tags d)"
    by (rule takeWhile_eq_take_P_nth) (use i nth_eq_iff_index_eq [OF tags_ok_distinct [OF T]] in force)+
  then show "length (takeWhile (\<lambda>s. s \<noteq> t) (local_tags d)) = rtag_at t d" using i by simp
  have last: "last (local_tags d) = local_tags d ! (m_nparticles d - 1)" "m_nparticles d - 1 < length (local_tags d)"
    using i(1) len last_conv_nth [of "local_tags d"] by (cases "local_tags d = []"; simp)+
  show "last (local_tags d) = t \<longleftrightarrow> rtag_at t d = m_nparticles d - 1"
    using last i nth_eq_iff_index_eq [OF tags_ok_distinct [OF T]] by metis
  show "last (local_tags d) \<in> set (m_tag_set d)" using tags_okD(7) [OF T last(2)] last(1) by simp
qed

lemma full_remove:
  assumes inv: "pd_inv d" and t: "t \<in> set (m_tag_set d)" and step: "removeParticle serial_env t d = (r, d')"
  defines "u \<equiv> last (local_tags d)"
  shows "local_tags d' = swap_remove (length (takeWhile (\<lambda>s. s \<noteq> t) (local_tags d))) (local_tags d)"
    "pd_particles d' = ((pd_particles d)(u := map_option (\<lambda>p. inherit p (ptl d ! rtag_at t d)) (pd_particles d u)))(t := None)"
proof -
  have ok: "pd_ok d" using inv by (simp add: pd_inv_def)
  note l = pd_inv_local [OF inv t] and P = local_tags_place [OF inv]
  have av: "remove_available serial_env t d" using l(1) by (simp add: remove_available_def serial_env_def)
  note R = removeParticle_local [OF ok t l(1) av step] and inv' = pd_remove_refines(1) [OF inv step]
  show "local_tags d' = swap_remove (length (takeWhile (\<lambda>s. s \<noteq> t) (local_tags d))) (local_tags d)" unfolding P(1) [OF t] by (rule R(7))
  have set': "set (m_tag_set d') = set (m_tag_set d) - {t}"
    using R(3) tags_okD(2) [OF pd_okD(2) [OF ok]] by (simp add: set_remove1_eq)
  have "clear_net (ptl d' ! rtag_at s d') = (if u = s then inherit (clear_net (ptl d ! rtag_at s d)) (ptl d ! rtag_at t d)
      else clear_net (ptl d ! rtag_at s d))" if "s \<in> set (m_tag_set d)" "s \<noteq> t" for s
    using pd_remove_index(3) [OF inv t step that] P(2) [OF that(1)] by (auto simp: clear_net_move u_def)
  then show "pd_particles d' = ((pd_particles d)(u := map_option (\<lambda>p. inherit p (ptl d ! rtag_at t d)) (pd_particles d u)))(t := None)"
    using P(3) [OF t] by (auto simp: fun_eq_iff pd_particles_inv [OF inv] pd_particles_inv [OF inv'] set' u_def)
qed

lemma full_ghosts: "pd_full (removeAllGhostParticles d) = pd_full d" "pd_full (maybe_rebuild_tag_cache d) = pd_full d"
  by (simp_all add: pd_full_def pd_particles_def local_tags_def isParticleLocal_def rtag_at_def notify_defs maybe_rebuild_tag_cache_def fun_eq_iff)

lemma full_remove_fails:
  assumes "pd_inv d" "t \<notin> set (m_tag_set d)" "removeParticle serial_env t d = (r, d')"
  shows "pd_full d' = pd_full d"
proof -
  have ok: "pd_ok d" using assms(1) by (simp add: pd_inv_def)
  have "\<not> (t < hv_size (m_rtag d) \<and> remove_available serial_env t d) \<or> m_nglobal d = 0"
  proof (rule ccontr)
    assume a: "\<not> ?thesis"
    obtain e where "fst (pd_spec (Op_remove t) (pd_abs d)) = Inl e"
      using assms(2) dom_pd_view [OF assms(1)] by (cases "dom (pd_view d) = {}"; cases "t \<ge> hv_size (m_rtag d)") (auto simp: pd_abs_def)
    then have "r = Inl e" using pd_remove_refines(2) [OF assms(1,3)] by (cases r) auto
    moreover have "fst (removeParticle serial_env t d) = Inr ()"
      using a by (auto simp: removeParticle_def Let_def notify_defs remove_available_def isParticleLocal_def rtag_at_def serial_env_def split: if_splits)
    ultimately show False using assms(3) by simp
  qed
  then show ?thesis using removeParticle_errors [OF ok, where mpi = serial_env and t = t] assms(3) full_ghosts(1) [of d]
    by (cases "m_nglobal d = 0"; cases "t < hv_size (m_rtag d)") auto
qed

lemma full_step_refines:
  assumes "pd_inv d" "full_pre op (pd_full d)"
  shows "pd_full (snd (pd_step op d)) = snd (full_spec op (pd_full d))"
proof -
  have pre: "pd_pre op (pd_abs d)" using assms(2) by (simp add: full_pre_iff)
  have S: "pd_spec op (pd_abs d) = (fst (pd_step op d), pd_abs (snd (pd_step op d)))" using pd_step_refines [OF assms(1) pre] by blast
  have rest: "snd (snd (snd (full_spec op (pd_full d)))) = snd (snd (pd_full (snd (pd_step op d))))"
    using full_spec_rest(2) [of op d] S by (simp add: pd_abs_def pd_full_def)
  have "fst (snd (full_spec op (pd_full d))) = local_tags (snd (pd_step op d)) \<and>
      fst (snd (snd (full_spec op (pd_full d)))) = pd_particles (snd (pd_step op d))"
  proof (cases op)
    case (Op_add ty)
    obtain t d' where step: "addParticle serial_env ty d = (t, d')" by fastforce
    have "fst (full_spec op (pd_full d)) = Inr (Some t)" using full_spec_rest(1) [of op d] S Op_add step by simp
    then show ?thesis using full_add [OF assms(1) _ step] pre Op_add step by (auto simp: pd_full_def Let_def split: prod.splits)
  next
    case (Op_remove t)
    obtain r d' where step: "removeParticle serial_env t d = (r, d')" by fastforce
    show ?thesis
    proof (cases "t \<in> set (m_tag_set d)")
      case True
      have ok: "pd_ok d" using assms(1) by (simp add: pd_inv_def)
      have "dom (pd_particles d) \<noteq> {}" "t < hv_size (m_rtag d)" "pd_particles d t = Some (clear_net (ptl d ! rtag_at t d))"
        using True dom_pd_particles [of d] dom_pd_view [OF assms(1)] pd_okD(5) [OF ok True] by (auto simp: pd_particles_inv [OF assms(1)])
      then show ?thesis using full_remove [OF assms(1) True step] Op_remove step by (cases r) (simp_all add: pd_full_def)
    next
      case False
      then have "pd_particles d t = None" by (simp add: pd_particles_def)
      then show ?thesis using full_remove_fails [OF assms(1) False step] Op_remove step by (cases r) (auto simp: pd_full_def)
    qed
  next
    case (Op_nth n)
    obtain r d' where step: "getNthTag n d = (r, d')" by fastforce
    have "pd_full d' = pd_full d" using step full_ghosts(2) [of d] by (auto simp: getNthTag_def Let_def split: if_splits)
    then show ?thesis using Op_nth step by (cases r) (auto simp: pd_full_def)
  qed
  then show ?thesis using rest by (simp add: prod_eq_iff pd_full_def)
qed

interpretation full: refinement pd_inv pd_full full_pre pd_step full_spec
  by unfold_locales (use pd_step_refines full_step_refines full_spec_rest(1) in \<open>simp_all add: full_pre_iff\<close>)

section \<open>All ranks together\<close>

text \<open>In a parallel simulation every rank executes the same call.  The ranks agree on the active and on the
  recycled tags, and every active particle is local on exactly one of them.\<close>

definition ranks_ok :: "particle_data list \<Rightarrow> bool" where
  "ranks_ok ds \<longleftrightarrow> ds \<noteq> [] \<and> (\<forall>d\<in>set ds. pd_ok d \<and> m_tag_set d = m_tag_set (hd ds) \<and>
     m_recycled_tags d = m_recycled_tags (hd ds)) \<and>
     (\<forall>t\<in>set (m_tag_set (hd ds)). \<exists>!r. r < length ds \<and> isParticleLocal t (ds ! r))"

text \<open>The environments of the ranks: rank numbers in order, and a sum over all contributions.\<close>

definition envs_ok :: "mpi_env list \<Rightarrow> nat list \<Rightarrow> bool" where
  "envs_ok es cs \<longleftrightarrow> length es = length cs \<and>
     (\<forall>r<length es. getRank (es ! r) = r \<and> decomposed (es ! r) \<and> allreduce_sum (es ! r) (cs ! r) = sum_list cs)"

definition local_flags :: "nat \<Rightarrow> particle_data list \<Rightarrow> nat list" where
  "local_flags t ds = map (\<lambda>d. if isParticleLocal t d then 1 else 0) ds"

definition add_all :: "mpi_env list \<Rightarrow> nat \<Rightarrow> particle_data list \<Rightarrow> (nat \<times> particle_data) list" where
  "add_all es typ ds = map2 (\<lambda>e d. addParticle e typ d) es ds"

definition remove_all :: "mpi_env list \<Rightarrow> nat \<Rightarrow> particle_data list \<Rightarrow> (unit, particle_data) outcome list" where
  "remove_all es t ds = map2 (\<lambda>e d. removeParticle e t d) es ds"

lemma isParticleLocal_iff:
  assumes "pd_ok d" "t \<in> set (m_tag_set d)"
  shows "isParticleLocal t d \<longleftrightarrow> t \<in> set (local_tags d)"
  using tags_ok_set [OF pd_okD(2) [OF assms(1)]] tags_ok_rtag [OF pd_okD(2) [OF assms(1)] assms(2)] assms(2)
    length_local_tags [OF pd_okD(1) [OF assms(1)]]
  by (auto simp: isParticleLocal_def rtag_at_def)

lemma addParticle_any_rank:
  assumes "pd_ok d" "m_nparticles d < NOT_LOCAL" "addParticle mpi typ d = (t, d')"
  shows "pd_ok d'" "m_tag_set d' = insort_insert t (m_tag_set d)"
    "new_tag (m_nglobal d) (m_recycled_tags d) = (t, m_recycled_tags d')" "t \<notin> set (m_tag_set d)"
    "local_tags d' = (if getRank mpi = 0 then local_tags d @ [t] else local_tags d)"
proof -
  show n: "t \<notin> set (m_tag_set d)"
  proof (cases "getRank mpi = 0")
    case True
    then show ?thesis using addParticle_rank0(3) [OF assms(1) _ assms(2,3)] by blast
  next
    case False
    have "new_tag (length (m_tag_set d)) (m_recycled_tags d) = (t, m_recycled_tags d')"
      using addParticle_other(4) [OF assms(1) False assms(2,3)] pd_okD(3) [OF assms(1)] by simp
    then show ?thesis by (rule new_tag_props(1) [OF pd_okD(2) [OF assms(1)]])
  qed
  show "pd_ok d'" "m_tag_set d' = insort_insert t (m_tag_set d)"
    "new_tag (m_nglobal d) (m_recycled_tags d) = (t, m_recycled_tags d')"
    "local_tags d' = (if getRank mpi = 0 then local_tags d @ [t] else local_tags d)"
    using addParticle_rank0(1,4,5,11) [OF assms(1) _ assms(2,3)] addParticle_other(1-4) [OF assms(1) _ assms(2,3)]
    by (cases "getRank mpi = 0"; simp)+
qed

lemma removeParticle_any_rank:
  assumes "pd_ok d" "t \<in> set (m_tag_set d)" "decomposed mpi" "allreduce_sum mpi (if isParticleLocal t d then 1 else 0) \<noteq> 0"
    "removeParticle mpi t d = (r, d')"
  shows "r = Inr ()" "pd_ok d'" "m_tag_set d' = remove1 t (m_tag_set d)" "m_recycled_tags d' = t # m_recycled_tags d"
    "set (local_tags d') = set (local_tags d) - {t}"
proof -
  have av: "remove_available mpi t d" using assms(3,4) by (simp add: remove_available_def)
  note L = removeParticle_local [OF assms(1,2) _ av assms(5)] and M = removeParticle_remote [OF assms(1,2) _ av assms(5)]
  show ok': "pd_ok d'" and "r = Inr ()" and ts: "m_tag_set d' = remove1 t (m_tag_set d)"
    and "m_recycled_tags d' = t # m_recycled_tags d"
    using L(1-4) M(1-4) by blast+
  show "set (local_tags d') = set (local_tags d) - {t}"
  proof (cases "isParticleLocal t d")
    case False
    then show ?thesis using M(5) isParticleLocal_iff [OF assms(1,2)] by auto
  next
    case True
    let ?i = "rtag_at t d"
    have i: "?i < length (local_tags d)" "local_tags d ! ?i = t"
      using True tags_okD(10) [OF pd_okD(2) [OF assms(1)] assms(2)] tags_okD(12) [OF pd_okD(2) [OF assms(1)]]
        length_local_tags [OF pd_okD(1) [OF assms(1)]] by (auto simp: isParticleLocal_def rtag_at_def)
    show ?thesis
      using L(7) [OF True] set_swap_remove [OF tags_ok_distinct [OF pd_okD(2) [OF assms(1)]] i(1)] i(2) by simp
  qed
qed

lemma ranks_okD:
  assumes "ranks_ok ds" "r < length ds"
  shows "pd_ok (ds ! r)" "m_tag_set (ds ! r) = m_tag_set (hd ds)" "m_recycled_tags (ds ! r) = m_recycled_tags (hd ds)"
    "m_nglobal (ds ! r) = length (m_tag_set (hd ds))"
proof -
  have "ds ! r \<in> set ds" using assms(2) by simp
  then have "pd_ok (ds ! r) \<and> m_tag_set (ds ! r) = m_tag_set (hd ds) \<and> m_recycled_tags (ds ! r) = m_recycled_tags (hd ds)"
    using assms(1) unfolding ranks_ok_def by blast
  then show "pd_ok (ds ! r)" "m_tag_set (ds ! r) = m_tag_set (hd ds)" "m_recycled_tags (ds ! r) = m_recycled_tags (hd ds)"
    "m_nglobal (ds ! r) = length (m_tag_set (hd ds))"
    using pd_okD(3) [of "ds ! r"] by simp_all
qed

lemma ranks_okI:
  assumes "length ds' > 0" "\<And>r. r < length ds' \<Longrightarrow> pd_ok (ds' ! r) \<and> m_tag_set (ds' ! r) = ac \<and> m_recycled_tags (ds' ! r) = rc"
    "\<And>t. t \<in> set ac \<Longrightarrow> \<exists>!r. r < length ds' \<and> t \<in> set (local_tags (ds' ! r))"
  shows "ranks_ok ds'" "m_tag_set (hd ds') = ac"
proof -
  have hd: "hd ds' = ds' ! 0" using assms(1) by (simp add: hd_conv_nth)
  show ac: "m_tag_set (hd ds') = ac" using assms(1,2) hd by simp
  have "(r < length ds' \<and> isParticleLocal t (ds' ! r)) = (r < length ds' \<and> t \<in> set (local_tags (ds' ! r)))"
    if "t \<in> set ac" for t r
    using assms(2) [of r] that isParticleLocal_iff by blast
  then have "\<exists>!r. r < length ds' \<and> isParticleLocal t (ds' ! r)" if "t \<in> set ac" for t
    using assms(3) that by simp
  then show "ranks_ok ds'"
    using assms(1,2) ac hd by (auto simp: ranks_ok_def all_set_conv_all_nth)
qed

lemma ranks_ok_owner:
  "ranks_ok ds \<Longrightarrow> t \<in> set (m_tag_set (hd ds)) \<Longrightarrow> \<exists>!r. r < length ds \<and> isParticleLocal t (ds ! r)"
  unfolding ranks_ok_def by blast

lemma ranks_ok_unique:
  assumes "ranks_ok ds" "t \<in> set (m_tag_set (hd ds))"
  shows "\<exists>!r. r < length ds \<and> t \<in> set (local_tags (ds ! r))"
proof -
  have "(r < length ds \<and> isParticleLocal t (ds ! r)) = (r < length ds \<and> t \<in> set (local_tags (ds ! r)))" for r
    using ranks_okD(1,2) [OF assms(1), of r] assms(2) isParticleLocal_iff [of "ds ! r" t] by auto
  then show ?thesis using ranks_ok_owner [OF assms] by presburger
qed

lemma add_all_ok:
  assumes ok: "ranks_ok ds" and env: "envs_ok es cs" "length es = length ds"
    and room: "\<forall>d\<in>set ds. m_nparticles d < NOT_LOCAL"
  defines "t \<equiv> fst (new_tag (length (m_tag_set (hd ds))) (m_recycled_tags (hd ds)))"
  shows "map fst (add_all es typ ds) = replicate (length ds) t" "ranks_ok (map snd (add_all es typ ds))"
    "m_tag_set (hd (map snd (add_all es typ ds))) = insort_insert t (m_tag_set (hd ds))" "t \<notin> set (m_tag_set (hd ds))"
proof -
  let ?ds = "map snd (add_all es typ ds)" and ?ac = "insort_insert t (m_tag_set (hd ds))"
  have len: "length ?ds = length ds" using env(2) by (simp add: add_all_def)
  have ne: "0 < length ds" using ok by (simp add: ranks_ok_def)
  have step: "addParticle (es ! r) typ (ds ! r) = (t, ?ds ! r)"
    "pd_ok (?ds ! r) \<and> m_tag_set (?ds ! r) = ?ac \<and>
       m_recycled_tags (?ds ! r) = snd (new_tag (length (m_tag_set (hd ds))) (m_recycled_tags (hd ds)))"
    "t \<notin> set (m_tag_set (hd ds))"
    "local_tags (?ds ! r) = (if r = 0 then local_tags (ds ! r) @ [t] else local_tags (ds ! r))"
    if r: "r < length ds" for r
  proof -
    obtain u e where e: "addParticle (es ! r) typ (ds ! r) = (u, e)" by fastforce
    note D = ranks_okD [OF ok r]
    note A = addParticle_any_rank [OF D(1) _ e]
    have room': "m_nparticles (ds ! r) < NOT_LOCAL" using room r by simp
    note A = A [OF room']
    have ut: "u = t" and rc: "m_recycled_tags e = snd (new_tag (length (m_tag_set (hd ds))) (m_recycled_tags (hd ds)))"
      using A(3) D(3,4) by (simp_all add: t_def)
    have de: "?ds ! r = e" using e r env(2) by (simp add: add_all_def)
    show "addParticle (es ! r) typ (ds ! r) = (t, ?ds ! r)" using e ut de by simp
    show "pd_ok (?ds ! r) \<and> m_tag_set (?ds ! r) = ?ac \<and>
       m_recycled_tags (?ds ! r) = snd (new_tag (length (m_tag_set (hd ds))) (m_recycled_tags (hd ds)))"
      unfolding de using A(1,2) D(2) ut rc by simp
    show "t \<notin> set (m_tag_set (hd ds))" using A(4) D(2) ut by simp
    show "local_tags (?ds ! r) = (if r = 0 then local_tags (ds ! r) @ [t] else local_tags (ds ! r))"
      unfolding de using A(5) ut env r by (simp add: envs_ok_def)
  qed
  show fresh: "t \<notin> set (m_tag_set (hd ds))" using step(3) ne by blast
  show "map fst (add_all es typ ds) = replicate (length ds) t"
  proof (rule nth_equalityI)
    fix r assume "r < length (map fst (add_all es typ ds))"
    then have "r < length ds" using env(2) by (simp add: add_all_def)
    then show "map fst (add_all es typ ds) ! r = replicate (length ds) t ! r"
      using arg_cong [OF step(1), of r fst] env(2) by (simp add: add_all_def)
  qed (simp add: add_all_def env(2))
  have uniq: "\<exists>!r. r < length ?ds \<and> s \<in> set (local_tags (?ds ! r))" if s: "s \<in> set ?ac" for s
  proof (cases "s = t")
    case True
    have "t \<notin> set (local_tags (ds ! r))" if "r < length ds" for r
      using fresh ranks_okD(1,2) [OF ok that] tags_ok_set [OF pd_okD(2)] by fastforce
    then show ?thesis using ne True step(4) len by (intro ex1I [of _ 0]) (auto split: if_splits)
  next
    case False
    then have "(r < length ?ds \<and> s \<in> set (local_tags (?ds ! r))) = (r < length ds \<and> s \<in> set (local_tags (ds ! r)))" for r
      using step(4) [of r] unfolding len by (cases "r = 0") auto
    then show ?thesis using ranks_ok_unique [OF ok, of s] s False by (simp add: set_insort_insert)
  qed
  show "ranks_ok ?ds" "m_tag_set (hd ?ds) = ?ac"
    by (rule ranks_okI [of _ ?ac]; use ne len step(2) uniq in simp)+
qed

lemma remove_all_ok:
  assumes ok: "ranks_ok ds" and env: "envs_ok es (local_flags t ds)" and t: "t \<in> set (m_tag_set (hd ds))"
  shows "map fst (remove_all es t ds) = replicate (length ds) (Inr ())" "ranks_ok (map snd (remove_all es t ds))"
    "m_tag_set (hd (map snd (remove_all es t ds))) = remove1 t (m_tag_set (hd ds))"
proof -
  let ?ds = "map snd (remove_all es t ds)" and ?ac = "remove1 t (m_tag_set (hd ds))"
  have elen: "length es = length ds" using env by (simp add: envs_ok_def local_flags_def)
  have len: "length ?ds = length ds" using elen by (simp add: remove_all_def)
  have ne: "0 < length ds" using ok by (simp add: ranks_ok_def)
  have sum: "sum_list (local_flags t ds) \<noteq> 0"
  proof -
    obtain r where r: "r < length ds" "isParticleLocal t (ds ! r)" using ranks_ok_owner [OF ok t] by blast
    then have "local_flags t ds ! r = 1" "r < length (local_flags t ds)" by (simp_all add: local_flags_def)
    then have "1 \<in> set (local_flags t ds)" by (metis nth_mem)
    then show ?thesis by (metis sum_list_eq_0_iff one_neq_zero)
  qed
  have step: "fst (removeParticle (es ! r) t (ds ! r)) = Inr ()"
    "pd_ok (?ds ! r) \<and> m_tag_set (?ds ! r) = ?ac \<and> m_recycled_tags (?ds ! r) = t # m_recycled_tags (hd ds)"
    "set (local_tags (?ds ! r)) = set (local_tags (ds ! r)) - {t}"
    if r: "r < length ds" for r
  proof -
    obtain u e where e: "removeParticle (es ! r) t (ds ! r) = (u, e)" by fastforce
    note D = ranks_okD [OF ok r]
    have "local_flags t ds ! r = (if isParticleLocal t (ds ! r) then 1 else 0)" using r by (simp add: local_flags_def)
    then have d: "decomposed (es ! r)" "allreduce_sum (es ! r) (if isParticleLocal t (ds ! r) then 1 else 0) \<noteq> 0"
      using env r sum elen unfolding envs_ok_def by metis+
    have t': "t \<in> set (m_tag_set (ds ! r))" using t D(2) by simp
    note R = removeParticle_any_rank [OF D(1) t' d e]
    have de: "?ds ! r = e" using e r elen by (simp add: remove_all_def)
    show "fst (removeParticle (es ! r) t (ds ! r)) = Inr ()" using e R(1) by simp
    show "pd_ok (?ds ! r) \<and> m_tag_set (?ds ! r) = ?ac \<and> m_recycled_tags (?ds ! r) = t # m_recycled_tags (hd ds)"
      unfolding de using R(2-4) D(2,3) by simp
    show "set (local_tags (?ds ! r)) = set (local_tags (ds ! r)) - {t}" unfolding de by (rule R(5))
  qed
  show "map fst (remove_all es t ds) = replicate (length ds) (Inr ())"
    using step(1) elen by (auto simp: remove_all_def list_eq_iff_nth_eq)
  have uniq: "\<exists>!r. r < length ?ds \<and> s \<in> set (local_tags (?ds ! r))" if s: "s \<in> set ?ac" for s
  proof -
    have "s \<noteq> t" "s \<in> set (m_tag_set (hd ds))"
      using s tags_okD(2) [OF pd_okD(2) [OF ranks_okD(1) [OF ok ne]]] ranks_okD(2) [OF ok ne] by auto
    then have "(r < length ?ds \<and> s \<in> set (local_tags (?ds ! r))) = (r < length ds \<and> s \<in> set (local_tags (ds ! r)))" for r
      using step(3) [of r] unfolding len by blast
    then show ?thesis using ranks_ok_unique [OF ok \<open>s \<in> set (m_tag_set (hd ds))\<close>] by simp
  qed
  show "ranks_ok ?ds" "m_tag_set (hd ?ds) = ?ac"
    by (rule ranks_okI [of _ ?ac]; use ne len step(2) uniq in simp)+
qed

section \<open>Remarks on the code\<close>

text \<open>The particle that takes the place of a removed one keeps its identity but inherits the angular momentum and the
  moments of inertia of the removed particle.\<close>

lemma move_element_mixes:
  "p_tag (move_element p q) = p_tag p \<and> p_angmom (move_element p q) = p_angmom q \<and> p_inertia (move_element p q) = p_inertia q"
  by (simp add: move_element_def)

text \<open>With a domain decomposition the two overloads differ when the ranks pass different boxes: only the one that
  takes a pointer uses the box of the root rank.\<close>

lemma setGlobalBox_overloads_differ:
  "m_global_box (setGlobalBox_ptr_mpi bcast calc box d) = bcast box"
  "m_global_box (setGlobalBox_ref_mpi bcast calc box d) = box"
  by (simp_all add: setGlobalBox_ptr_mpi_def setGlobalBox_ref_mpi_def Let_def)

text \<open>Subscribers of the ghost signal see the ghost number already reset.\<close>

lemma ghost_signal_after_reset:
  "signals (removeAllGhostParticles d) = signals d @ [Ghost_particles_removed_signal 0]"
  by (simp add: notify_defs emit_def)

section \<open>Properties\<close>

text \<open>An object without particles, after its arrays have been allocated.\<close>

definition allocated_empty :: particle_data where
  "allocated_empty = pd_resize 0 empty_particle_data"

lemma allocated_empty_inv: "pd_inv allocated_empty" "pd_abs allocated_empty = (Map.empty, [], 0)"
  "m_tag_set allocated_empty = []" "m_nparticles allocated_empty = 0" "m_nghosts allocated_empty = 0"
  by (simp_all add: allocated_empty_def pd_resize_def empty_particle_data_def pd_allocate_def pd_inv_def pd_ok_def
      arrays_ok_def local_tags_def tags_ok_def all_local_def pd_abs_def pd_view_def fun_eq_iff)

text \<open>C14: Without a domain decomposition every sequence of \<open>addParticle\<close>, \<open>removeParticle\<close> and
  \<open>getNthTag\<close> returns the tags, raises the errors and leaves the particle arrays and the reverse table in the state of an exact
  specification: a list of tags in storage order, a finite map from tags to particles and a stack of tags to use again.  A removed
  tag is used again before a new one is created.  A removal moves the particle that is stored last into the gap, where it keeps its tag
  and all its fields except angular momentum and moments of inertia, for which it inherits those of the removed particle; no
  other particle changes.  Net force, torque and virial, which are computed anew in every step, are not covered.\<close>

theorem particle_tags_refine:
  assumes "pd_inv d" "pre_run full_pre full_spec ops (pd_full d)"
  shows "pd_inv (snd (run_ops pd_step ops d)) \<and>
    fst (run_ops pd_step ops d) = fst (run_ops full_spec ops (pd_full d)) \<and>
    pd_full (snd (run_ops pd_step ops d)) = snd (run_ops full_spec ops (pd_full d))"
  using assms by (rule full.run_refines)

theorem particle_tags_refine_witness:
  "fst (run_ops pd_step [Op_add 0, Op_add 1, Op_remove 0, Op_add 2, Op_nth 1, Op_remove 7] allocated_empty)
    = [Inr (Some 0), Inr (Some 1), Inr None, Inr (Some 0), Inr (Some 1),
       Inl (Runtime_error (''Trying to remove particle '' @ nat_str 7 @ '' which does not exist.''))] \<and>
   local_tags (snd (run_ops pd_step [Op_add 0, Op_add 1, Op_remove 0, Op_add 2, Op_nth 1, Op_remove 7] allocated_empty)) = [1, 0]"
proof -
  define e where "e = (\<lambda>ty t. clear_net (default_element ty t zero_element))"
  have d: "dom [0 \<mapsto> e 0 0, 1 \<mapsto> e 1 1] = {0, 1::nat}" "dom [1 \<mapsto> e 1 1, 0 \<mapsto> e 2 0] = {0, 1::nat}" by auto
  have i: "inherit (e 1 1) (e 0 0) = e 1 1" by (simp add: e_def inherit_def default_element_def clear_net_def)
  have steps: "full_spec (Op_add 0) ([], Map.empty, [], 0) = (Inr (Some 0), ([0], [0 \<mapsto> e 0 0], [], 1))"
    "full_spec (Op_add 1) ([0], [0 \<mapsto> e 0 0], [], 1) = (Inr (Some 1), ([0, 1], [0 \<mapsto> e 0 0, 1 \<mapsto> e 1 1], [], 2))"
    "full_spec (Op_remove 0) ([0, 1], [0 \<mapsto> e 0 0, 1 \<mapsto> e 1 1], [], 2) = (Inr None, ([1], [1 \<mapsto> e 1 1], [0], 2))"
    "full_spec (Op_add 2) ([1], [1 \<mapsto> e 1 1], [0], 2) = (Inr (Some 0), ([1, 0], [1 \<mapsto> e 1 1, 0 \<mapsto> e 2 0], [], 2))"
    "full_spec (Op_nth 1) ([1, 0], [1 \<mapsto> e 1 1, 0 \<mapsto> e 2 0], [], 2)
      = (Inr (Some 1), ([1, 0], [1 \<mapsto> e 1 1, 0 \<mapsto> e 2 0], [], 2))"
    "full_spec (Op_remove 7) ([1, 0], [1 \<mapsto> e 1 1, 0 \<mapsto> e 2 0], [], 2)
      = (Inl (Runtime_error (''Trying to remove particle '' @ nat_str 7 @ '' which does not exist.'')),
         ([1, 0], [1 \<mapsto> e 1 1, 0 \<mapsto> e 2 0], [], 2))"
    using i by (auto simp: new_tag_def e_def fun_eq_iff swap_remove_def)
  have start: "pd_full allocated_empty = ([], Map.empty, [], 0)"
    by (simp add: pd_full_def allocated_empty_def pd_resize_def empty_particle_data_def pd_allocate_def local_tags_def pd_particles_def fun_eq_iff)
  have "pre_run full_pre full_spec [Op_add 0, Op_add 1, Op_remove 0, Op_add 2, Op_nth 1, Op_remove 7] ([], Map.empty, [], 0)"
    by (simp add: steps NOT_LOCAL_def del: full_spec.simps One_nat_def)
  note T = particle_tags_refine [OF allocated_empty_inv(1), unfolded start, OF this]
  have "fst (pd_full (snd (run_ops pd_step [Op_add 0, Op_add 1, Op_remove 0, Op_add 2, Op_nth 1, Op_remove 7] allocated_empty))) = [1, 0]"
    using T by (simp add: steps del: full_spec.simps pd_step.simps One_nat_def)
  then show ?thesis using T
    by (simp add: steps pd_full_def del: full_spec.simps pd_step.simps One_nat_def)
qed

end
