(* ===== verification/ParticleMigration.thy ===== *)
theory ParticleMigration
  imports ParticleTags "HOL-Library.Multiset"
begin

text \<open>
  Particles between ranks: \<open>removeParticles\<close> takes the flagged particles out of the arrays of one rank and
  \<open>addParticles\<close> appends received particles to those of another.  The theory shows that no particle is lost,
  duplicated or renamed on the way, and that every reachable state of all ranks has each active particle local on
  exactly one of them.
\<close>

section \<open>Migration\<close>

definition local_particles :: "particle_data \<Rightarrow> pdata_element list" where
  "local_particles d = take (m_nparticles d) (ptl d)"

lemma local_tags_particles: "local_tags d = map p_tag (local_particles d)"
  by (simp add: local_tags_def local_particles_def)

lemma mark_removed_upto:
  fixes ps :: "pdata_element list" and fl :: "nat list" and r :: host_vector
  assumes "\<forall>i<n. p_tag (ps ! i) < length (hv_buf r)"
  defines "f \<equiv> foldl (\<lambda>(r, k) i. if fl ! i \<noteq> (0::nat) then (hv_set (p_tag (ps ! i)) NOT_LOCAL r, k + 1) else (r, k))
    (r, 0::nat) [0..<n]"
  shows "hv_size (fst f) = hv_size r \<and> length (hv_buf (fst f)) = length (hv_buf r) \<and>
    snd f = length (filter (\<lambda>i. fl ! i \<noteq> 0) [0..<n]) \<and>
    (\<forall>t. hv_buf (fst f) ! t = (if \<exists>i<n. fl ! i \<noteq> 0 \<and> p_tag (ps ! i) = t then NOT_LOCAL else hv_buf r ! t))"
  using assms(1) unfolding f_def
proof (induction n)
  case 0
  then show ?case by simp
next
  case (Suc n)
  let ?f = "foldl (\<lambda>(r, k) i. if fl ! i \<noteq> (0::nat) then (hv_set (p_tag (ps ! i)) NOT_LOCAL r, k + 1) else (r, k))
    (r, 0::nat) [0..<n]"
  obtain q k where f: "?f = (q, k)" by fastforce
  have IH: "hv_size q = hv_size r" "length (hv_buf q) = length (hv_buf r)"
    "k = length (filter (\<lambda>i. fl ! i \<noteq> 0) [0..<n])"
    "\<And>t. hv_buf q ! t = (if \<exists>i<n. fl ! i \<noteq> 0 \<and> p_tag (ps ! i) = t then NOT_LOCAL else hv_buf r ! t)"
    using Suc f by auto
  have "p_tag (ps ! n) < length (hv_buf q)" using Suc.prems IH(2) by simp
  then show ?case
    using IH f by (auto simp: hv_set_def nth_list_update less_Suc_eq)
qed

lemma split_step_simp: "split_step ps rb (n, m, alt, out) i =
    (if rb ! p_tag (ps ! i) \<noteq> NOT_LOCAL then (n + 1, m, alt[n := ps ! i], out) else (n, m + 1, alt, out[m := ps ! i]))"
  by (simp add: split_step_def)

lemma split_upto:
  assumes "length (filter P [0..<n]) \<le> length alt" "length (filter (\<lambda>i. \<not> P i) [0..<n]) \<le> length out"
    and P: "\<And>i. i < n \<Longrightarrow> P i \<longleftrightarrow> rb ! p_tag (ps ! i) \<noteq> NOT_LOCAL"
  shows "\<exists>alt' out'. foldl (split_step ps rb) (0, 0, alt, out) [0..<n]
      = (length (filter P [0..<n]), length (filter (\<lambda>i. \<not> P i) [0..<n]), alt', out') \<and>
     length alt' = length alt \<and> length out' = length out \<and>
     take (length (filter P [0..<n])) alt' = map (\<lambda>i. ps ! i) (filter P [0..<n]) \<and>
     take (length (filter (\<lambda>i. \<not> P i) [0..<n])) out' = map (\<lambda>i. ps ! i) (filter (\<lambda>i. \<not> P i) [0..<n])"
  using assms
proof (induction n)
  case 0
  then show ?case by simp
next
  case (Suc n)
  obtain alt' out' where IH: "foldl (split_step ps rb) (0, 0, alt, out) [0..<n]
      = (length (filter P [0..<n]), length (filter (\<lambda>i. \<not> P i) [0..<n]), alt', out')"
    "length alt' = length alt" "length out' = length out"
    "take (length (filter P [0..<n])) alt' = map (\<lambda>i. ps ! i) (filter P [0..<n])"
    "take (length (filter (\<lambda>i. \<not> P i) [0..<n])) out' = map (\<lambda>i. ps ! i) (filter (\<lambda>i. \<not> P i) [0..<n])"
    using Suc by (auto split: if_splits)
  have p: "P n \<longleftrightarrow> rb ! p_tag (ps ! n) \<noteq> NOT_LOCAL" using Suc.prems(3) by simp
  show ?case
  proof (cases "P n")
    case True
    then show ?thesis
      using IH p Suc.prems(1) by (auto simp: split_step_simp take_Suc_conv_app_nth)
  next
    case False
    then show ?thesis
      using IH p Suc.prems(2) by (auto simp: split_step_simp take_Suc_conv_app_nth)
  qed
qed

definition staying :: "particle_data \<Rightarrow> pdata_element list" where
  "staying d = map fst (filter (\<lambda>(p, f). f = 0) (zip (local_particles d) (m_comm_flags d)))"

definition leaving :: "particle_data \<Rightarrow> pdata_element list" where
  "leaving d = map fst (filter (\<lambda>(p, f). f \<noteq> 0) (zip (local_particles d) (m_comm_flags d)))"

lemma filter_zip_nth:
  assumes "length xs = n" "n \<le> length ys"
  shows "map fst (filter (\<lambda>(x, y). Q y) (zip xs ys)) = map (\<lambda>i. xs ! i) (filter (\<lambda>i. Q (ys ! i)) [0..<n])"
proof -
  have "zip xs ys = map (\<lambda>i. (xs ! i, ys ! i)) [0..<n]"
    using assms by (simp add: list_eq_iff_nth_eq)
  then show ?thesis by (simp add: filter_map comp_def)
qed

lemma staying_leaving:
  assumes "arrays_ok d"
  shows "staying d = map (\<lambda>i. ptl d ! i) (filter (\<lambda>i. m_comm_flags d ! i = 0) [0..<m_nparticles d])"
    "leaving d = map (\<lambda>i. ptl d ! i) (filter (\<lambda>i. m_comm_flags d ! i \<noteq> 0) [0..<m_nparticles d])"
  using assms filter_zip_nth [of "local_particles d" "m_nparticles d" "m_comm_flags d" "\<lambda>f. f = 0"]
    filter_zip_nth [of "local_particles d" "m_nparticles d" "m_comm_flags d" "\<lambda>f. f \<noteq> 0"]
  by (auto simp: staying_def leaving_def arrays_ok_def local_particles_def cong: map_cong)

lemma mset_filter_split: "mset (filter P xs) + mset (filter (\<lambda>x. \<not> P x) xs) = mset xs"
  by (induction xs) auto

lemma mset_staying_leaving:
  assumes "arrays_ok d"
  shows "mset (staying d) + mset (leaving d) = mset (local_particles d)"
proof -
  have "local_particles d = map (\<lambda>i. ptl d ! i) [0..<m_nparticles d]"
    using assms by (simp add: local_particles_def arrays_ok_def list_eq_iff_nth_eq)
  then show ?thesis
    unfolding staying_leaving [OF assms] using mset_filter_split [of "\<lambda>i. m_comm_flags d ! i = 0" "[0..<m_nparticles d]"]
    by (simp only: mset_map flip: image_mset_union)
qed
lemma filter_map_tags:
  assumes "\<And>i. i < n \<Longrightarrow> P i \<longleftrightarrow> Q (g i)"
  shows "map g (filter P [0..<n]) = filter Q (map g [0..<n])"
proof -
  have "filter P [0..<n] = filter (\<lambda>i. Q (g i)) [0..<n]" by (rule filter_cong) (auto simp: assms)
  then show ?thesis by (simp add: filter_map comp_def)
qed

lemma length_filter_compl_upt:
  "length (filter (\<lambda>i. \<not> P i) [0..<n]) + length (filter P [0..<n]) = n"
  using sum_length_filter_compl [of P "[0..<n]"] by simp

lemma foldl_write:
  "n + length xs \<le> length ps \<Longrightarrow>
    snd (foldl (\<lambda>(n, ps) p. (n + 1, ps[n := p])) (n, ps) xs) = take n ps @ xs @ drop (n + length xs) ps"
proof (induction xs arbitrary: n ps)
  case Nil
  then show ?case by simp
next
  case (Cons x xs)
  then have "snd (foldl (\<lambda>(n, ps) p. (n + 1, ps[n := p])) (n + 1, ps[n := x]) xs)
      = take (n + 1) (ps[n := x]) @ xs @ drop (n + 1 + length xs) (ps[n := x])"
    by (intro Cons.IH) simp
  then show ?case using Cons.prems by (simp add: take_Suc_conv_app_nth)
qed

lemma removeParticles_result:
  assumes ok: "pd_ok d" and rem: "removeParticles d = (out, fl, d')"
  shows "out = leaving d" "local_particles d' = staying d" "fl = filter (\<lambda>f. f \<noteq> 0) (take (m_nparticles d) (m_comm_flags d))"
    "pd_ok d'" "m_tag_set d' = m_tag_set d" "m_recycled_tags d' = m_recycled_tags d"
    "m_nglobal d' = m_nglobal d" "\<forall>i<m_nparticles d'. m_comm_flags d' ! i = 0"
proof -
  note p = pd_okD [OF ok] and A = arrays_okD [OF pd_okD(1) [OF ok]] and T = tags_okD [OF pd_okD(2) [OF ok]]
  let ?n = "m_nparticles d" and ?fl = "m_comm_flags d" and ?ps = "ptl d"
  let ?P = "\<lambda>i. ?fl ! i = 0"
  obtain r k where r: "mark_removed d = (r, k)" by fastforce
  have tag_less: "\<forall>i<?n. p_tag (?ps ! i) < length (hv_buf (m_rtag d))"
    using tags_ok_less [OF p(2)] T(7) length_local_tags [OF p(1)] nth_local_tags [OF p(1)] by fastforce
  note M = mark_removed_upto [OF tag_less, of ?fl, folded mark_removed_def, unfolded r fst_conv snd_conv]
  have k: "k = length (filter (\<lambda>i. \<not> ?P i) [0..<?n])" using M by blast
  have tag_inj: "p_tag (?ps ! i) = p_tag (?ps ! j) \<longleftrightarrow> i = j" if "i < ?n" "j < ?n" for i j
    using that T(8) length_local_tags [OF p(1)] nth_local_tags [OF p(1)] by metis
  have rt: "hv_buf (m_rtag d) ! p_tag (?ps ! i) = i" "i \<noteq> NOT_LOCAL" if "i < ?n" for i
    using that T(8,12) length_local_tags [OF p(1)] nth_local_tags [OF p(1)] by fastforce+
  have P: "?P i \<longleftrightarrow> hv_buf r ! p_tag (?ps ! i) \<noteq> NOT_LOCAL" if "i < ?n" for i
    using M rt [OF that] tag_inj [OF _ that] that by auto
  have cnt: "?n - k = length (filter ?P [0..<?n])" "length (filter ?P [0..<?n]) \<le> ?n"
    using length_filter_compl_upt [of ?P ?n] k by auto
  have le: "length (filter ?P [0..<?n]) \<le> length (ptl_alt d)" "?n - k \<le> m_max_nparticles d"
    using cnt A(3,5) by auto
  obtain alt' out' where S: "foldl (split_step ?ps (hv_buf r)) (0, 0, ptl_alt d, replicate k zero_element) [0..<?n]
      = (length (filter ?P [0..<?n]), length (filter (\<lambda>i. \<not> ?P i) [0..<?n]), alt', out')"
      "length alt' = length (ptl_alt d)" "length out' = k"
      "take (length (filter ?P [0..<?n])) alt' = map (\<lambda>i. ?ps ! i) (filter ?P [0..<?n])"
      "take (length (filter (\<lambda>i. \<not> ?P i) [0..<?n])) out' = map (\<lambda>i. ?ps ! i) (filter (\<lambda>i. \<not> ?P i) [0..<?n])"
    using split_upto [of ?P ?n "ptl_alt d" "replicate k zero_element" "hv_buf r" ?ps] le(1) P k by auto
  have room: "pd_resize (?n - k) (d\<lparr>m_rtag := r\<rparr>) = d\<lparr>m_rtag := r, m_nparticles := ?n - k\<rparr>"
    using A(1) le(2) by (simp add: pd_resize_room)
  define b where "b = reindex (map p_tag (take (?n - k) alt')) (hv_buf r)"
  have res: "out = out'" "fl = filter (\<lambda>f. f \<noteq> 0) (take ?n ?fl)"
    "d' = notifyParticleSort (d\<lparr>m_nparticles := ?n - k,
       m_comm_flags := replicate (?n - k) 0 @ drop (?n - k) ?fl, ptl := alt', ptl_alt := ?ps, m_rtag := r\<lparr>hv_buf := b\<rparr>\<rparr>)"
    using rem by (simp_all add: removeParticles_def Let_def r room S(1) b_def)
  show "fl = filter (\<lambda>f. f \<noteq> 0) (take ?n ?fl)" by (rule res)
  show "out = leaving d"
    using S(3,5) by (simp add: res(1) k staying_leaving(2) [OF p(1)])
  have lp: "local_particles d' = map (\<lambda>i. ?ps ! i) (filter ?P [0..<?n])"
    using S(4) cnt by (simp add: local_particles_def res(3) notify_defs)
  then show "local_particles d' = staying d" by (simp add: staying_leaving(1) [OF p(1)])
  show f: "m_tag_set d' = m_tag_set d" "m_recycled_tags d' = m_recycled_tags d" "m_nglobal d' = m_nglobal d"
    "\<forall>i<m_nparticles d'. m_comm_flags d' ! i = 0"
    unfolding res(3) notify_defs by (simp_all add: nth_append)
  define Q where "Q t \<longleftrightarrow> (\<exists>i<?n. ?fl ! i \<noteq> 0 \<and> p_tag (?ps ! i) = t)" for t
  have lt: "local_tags d = map (\<lambda>i. p_tag (?ps ! i)) [0..<?n]"
    using A(2,5) by (simp add: local_tags_def list_eq_iff_nth_eq)
  have lt': "local_tags d' = filter (\<lambda>t. \<not> Q t) (local_tags d)"
    unfolding lt local_tags_particles [of d'] lp map_map comp_def by (rule filter_map_tags) (use tag_inj in \<open>auto simp: Q_def\<close>)
  have bt: "b = reindex (local_tags d') (hv_buf r)"
    by (simp add: b_def local_tags_def res(3) notify_defs)
  have rb: "hv_buf r ! t = (if t \<in> set (local_tags d) \<and> Q t then NOT_LOCAL else hv_buf (m_rtag d) ! t)" for t
    using M by (auto simp: Q_def lt)
  have hb: "hv_buf (m_rtag d') = b" by (simp add: res(3) notify_defs)
  have "tags_ok (local_tags d') (hv_buf (m_rtag d')) (m_tag_set d') (m_recycled_tags d')"
    unfolding hb bt lt' f(1,2) by (rule reindex_filter_ok [OF p(2) rb]) (use M in blast)
  moreover have "arrays_ok d'"
    using A S(2) by (auto simp: arrays_ok_def res(3) notify_defs)
  ultimately show "pd_ok d'"
    using p(3-7) M by (simp add: pd_ok_def f) (simp add: res(3) notify_defs)
qed

lemma addParticles_result:
  assumes ok: "pd_ok d" and new: "distinct (map p_tag inp)" "p_tag ` set inp \<subseteq> set (m_tag_set d)"
    "p_tag ` set inp \<inter> set (local_tags d) = {}"
    and room: "m_nghosts d = 0" "m_nparticles d + length inp \<le> NOT_LOCAL"
  defines "d' \<equiv> addParticles inp d"
  shows "map clear_net (local_particles d') = map clear_net (local_particles d @ inp)" "pd_ok d'"
    "m_tag_set d' = m_tag_set d" "m_recycled_tags d' = m_recycled_tags d" "m_nparticles d' = m_nparticles d + length inp"
    "drop (m_nparticles d) (local_particles d') = inp"
proof -
  note p = pd_okD [OF ok] and A = arrays_okD [OF pd_okD(1) [OF ok]]
  let ?n = "m_nparticles d" and ?k = "length inp"
  define r where "r = pd_resize (?n + ?k) d"
  note R = pd_resize_arrays [OF disjI1 [OF p(1)], of "?n + ?k", folded r_def]
  define P where "P = take ?n (ptl r) @ inp @ drop (?n + ?k) (ptl r)"
  have fold: "snd (foldl (\<lambda>(n, ps) p. (n + 1, ps[n := p])) (?n, ptl r) inp) = P"
    using R(2,5) unfolding P_def by (intro foldl_write) simp
  define b where "b = reindex (map p_tag (take (?n + ?k) P)) (hv_buf (m_rtag d))"
  have d': "d' = notifyParticleSort (r\<lparr>ptl := P,
      m_comm_flags := take ?n (m_comm_flags r) @ replicate ?k 0 @ drop (?n + ?k) (m_comm_flags r),
      m_rtag := (m_rtag d)\<lparr>hv_buf := b\<rparr>\<rparr>)"
    unfolding d'_def addParticles_def Let_def r_def [symmetric] fold by (simp add: b_def r_def)
  have lenP: "length P = length (ptl r)" using R(2,5) by (simp add: P_def)
  have lp: "local_particles d' = take ?n (ptl r) @ inp"
    using R(2,5) by (simp add: local_particles_def d' notify_defs r_def [symmetric] P_def) (simp add: r_def)
  show "m_tag_set d' = m_tag_set d" "m_recycled_tags d' = m_recycled_tags d" "m_nparticles d' = ?n + ?k"
    by (simp_all add: d' notify_defs r_def)
  show "drop ?n (local_particles d') = inp" using R(2,5) by (simp add: lp)
  have old: "map clear_net (take ?n (ptl r)) = map clear_net (local_particles d)"
    using pd_resize_ptl [OF p(1), of _ "?n + ?k", folded r_def] A(2,5) R(2,5)
    by (simp add: local_particles_def list_eq_iff_nth_eq)
  then show "map clear_net (local_particles d') = map clear_net (local_particles d @ inp)"
    by (simp add: lp)
  have tags: "local_tags d' = local_tags d @ map p_tag inp"
    using pd_resize_tags [OF p(1), of ?n "?n + ?k", folded r_def] A(5)
    by (simp add: local_tags_particles lp) (simp add: local_particles_def)
  have b: "b = reindex (local_tags d') (hv_buf (m_rtag d))"
    using R(2,5) by (simp add: b_def local_tags_particles lp P_def)
  have hb: "hv_buf (m_rtag d') = b" by (simp add: d' notify_defs)
  have "tags_ok (local_tags d') (hv_buf (m_rtag d')) (m_tag_set d') (m_recycled_tags d')"
    unfolding hb b tags \<open>m_tag_set d' = _\<close> \<open>m_recycled_tags d' = _\<close>
    by (rule reindex_append_ok [OF p(2)]) (use new room length_local_tags [OF p(1)] in auto)
  moreover have "arrays_ok d'"
    using R room by (simp add: arrays_ok_def d' notify_defs lenP) (simp add: r_def)
  ultimately show "pd_ok d'"
    using p(3-7) by (simp add: pd_ok_def) (simp add: d' notify_defs r_def)
qed
section \<open>All ranks: insertion, removal and migration\<close>

text \<open>The collective operations, and what a rank does on its own between them: it flags particles, creates and
  removes ghosts, and sends the particles it has flagged to another rank, which has removed its ghosts.\<close>

definition migrate :: "nat \<Rightarrow> nat \<Rightarrow> particle_data list \<Rightarrow> particle_data list" where
  "migrate i j ds = (case removeParticles (ds ! i) of (out, fl, d) \<Rightarrow> ds[i := d, j := addParticles out (ds ! j)])"

inductive rank_step :: "particle_data list \<Rightarrow> particle_data list \<Rightarrow> bool" where
  add: "envs_ok es cs \<Longrightarrow> length es = length ds \<Longrightarrow> \<forall>d\<in>set ds. m_nparticles d < NOT_LOCAL \<Longrightarrow>
    rank_step ds (map snd (add_all es typ ds))"
| remove: "envs_ok es (local_flags t ds) \<Longrightarrow> rank_step ds (map snd (remove_all es t ds))"
| flag: "r < length ds \<Longrightarrow> length fl = length (m_comm_flags (ds ! r)) \<Longrightarrow>
    rank_step ds (ds[r := (ds ! r)\<lparr>m_comm_flags := fl\<rparr>])"
| ghosts: "r < length ds \<Longrightarrow> rank_step ds (ds[r := addGhostParticles k (ds ! r)])"
| no_ghosts: "r < length ds \<Longrightarrow> rank_step ds (ds[r := removeAllGhostParticles (ds ! r)])"
| send: "i < length ds \<Longrightarrow> j < length ds \<Longrightarrow> i \<noteq> j \<Longrightarrow> m_nghosts (ds ! j) = 0 \<Longrightarrow>
    m_nparticles (ds ! i) + m_nparticles (ds ! j) \<le> NOT_LOCAL \<Longrightarrow> rank_step ds (migrate i j ds)"

lemma inactive_not_local:
  assumes "pd_ok d" "t \<notin> set (m_tag_set d)" "t < length (m_tag_set d) + length (m_recycled_tags d)"
  shows "\<not> isParticleLocal t d"
proof -
  note T = pd_okD(2) [OF assms(1)]
  have "t \<in> set (m_recycled_tags d)" using tags_okD(5) [OF T] assms(2,3) by blast
  then have "rtag_at t d = NOT_LOCAL" using tags_okD(11) [OF T] by (simp add: rtag_at_def)
  then show ?thesis
    using tags_okD(12) [OF T] length_local_tags [OF pd_okD(1) [OF assms(1)]] by (simp add: isParticleLocal_def)
qed

lemma remove_inactive_rank:
  assumes ok: "ranks_ok ds" and env: "envs_ok es (local_flags t ds)" and t: "t \<notin> set (m_tag_set (hd ds))"
    and r: "r < length ds"
  shows "throws (removeParticle (es ! r) t (ds ! r))"
    "snd (removeParticle (es ! r) t (ds ! r)) = ds ! r \<or>
     snd (removeParticle (es ! r) t (ds ! r)) = removeAllGhostParticles (ds ! r)"
proof -
  note D = ranks_okD [OF ok r]
  have na: "\<not> remove_available (es ! r) t (ds ! r)" if lt: "t < hv_size (m_rtag (ds ! r))"
  proof -
    have b: "t < length (m_tag_set (hd ds)) + length (m_recycled_tags (hd ds))" using lt pd_okD(4) [OF D(1)] D(2,3) by simp
    have "\<not> isParticleLocal t (ds ! q)" if "q < length ds" for q
      using inactive_not_local [of "ds ! q" t] ranks_okD [OF ok that] b t by simp
    then have nl: "\<not> isParticleLocal t (ds ! r)" and "sum_list (local_flags t ds) = 0"
      using r by (auto simp: local_flags_def in_set_conv_nth)
    then have "decomposed (es ! r)" "allreduce_sum (es ! r) (local_flags t ds ! r) = 0"
      using env r unfolding envs_ok_def by (auto simp: local_flags_def)
    then show ?thesis using nl r by (simp add: remove_available_def local_flags_def)
  qed
  show "throws (removeParticle (es ! r) t (ds ! r))"
    "snd (removeParticle (es ! r) t (ds ! r)) = ds ! r \<or>
     snd (removeParticle (es ! r) t (ds ! r)) = removeAllGhostParticles (ds ! r)"
    using removeParticle_errors(1) [OF D(1), of "es ! r" t] removeParticle_errors(2) [OF D(1), of t "es ! r"]
      removeParticle_errors(3) [OF D(1), of t "es ! r"] na
    by (cases "m_nglobal (ds ! r) = 0"; cases "t < hv_size (m_rtag (ds ! r))"; simp)+
qed

lemma ranks_okI_same:
  assumes ok: "ranks_ok ds" and len: "length ds' = length ds"
    and same: "\<And>r. r < length ds \<Longrightarrow> pd_ok (ds' ! r) \<and> m_tag_set (ds' ! r) = m_tag_set (ds ! r) \<and>
      m_recycled_tags (ds' ! r) = m_recycled_tags (ds ! r)"
    and perm: "\<And>t. t \<in> set (m_tag_set (hd ds)) \<Longrightarrow> \<exists>!r. r < length ds' \<and> t \<in> set (local_tags (ds' ! r))"
  shows "ranks_ok ds'"
proof (rule ranks_okI(1))
  show "0 < length ds'" using ok len by (simp add: ranks_ok_def)
  show "pd_ok (ds' ! r) \<and> m_tag_set (ds' ! r) = m_tag_set (hd ds) \<and> m_recycled_tags (ds' ! r) = m_recycled_tags (hd ds)"
    if "r < length ds'" for r
    using same [of r] that len ranks_okD [OF ok, of r] by simp
qed (rule perm)

lemma remove_all_inactive:
  assumes ok: "ranks_ok ds" and env: "envs_ok es (local_flags t ds)" and t: "t \<notin> set (m_tag_set (hd ds))"
  shows "ranks_ok (map snd (remove_all es t ds))"
proof -
  let ?ds = "map snd (remove_all es t ds)"
  have elen: "length es = length ds" using env by (simp add: envs_ok_def local_flags_def)
  have len: "length ?ds = length ds" using elen by (simp add: remove_all_def)
  have nth: "?ds ! r = snd (removeParticle (es ! r) t (ds ! r))" if "r < length ds" for r
    using that elen by (simp add: remove_all_def)
  have same: "pd_ok (?ds ! r) \<and> m_tag_set (?ds ! r) = m_tag_set (ds ! r) \<and>
      m_recycled_tags (?ds ! r) = m_recycled_tags (ds ! r)" "local_tags (?ds ! r) = local_tags (ds ! r)" if "r < length ds" for r
    using remove_inactive_rank(2) [OF ok env t that] ranks_okD(1) [OF ok that] pd_ok_ghosts [of "ds ! r"]
    unfolding nth [OF that] by (auto simp: notify_defs local_tags_def)
  have "(r < length ?ds \<and> s \<in> set (local_tags (?ds ! r))) = (r < length ds \<and> s \<in> set (local_tags (ds ! r)))" for r s
    using same(2) [of r] unfolding len by auto
  then show ?thesis
    using ranks_ok_unique [OF ok] by (intro ranks_okI_same [OF ok len] same(1)) simp_all
qed

lemma migrate_ok:
  assumes ok: "ranks_ok ds" and ij: "i < length ds" "j < length ds" "i \<noteq> j"
    and gh: "m_nghosts (ds ! j) = 0" and room: "m_nparticles (ds ! i) + m_nparticles (ds ! j) \<le> NOT_LOCAL"
  shows "ranks_ok (migrate i j ds)"
    "image_mset clear_net (mset (local_particles (migrate i j ds ! i)) + mset (local_particles (migrate i j ds ! j)))
     = image_mset clear_net (mset (local_particles (ds ! i)) + mset (local_particles (ds ! j)))"
    "local_particles (migrate i j ds ! i) = staying (ds ! i)"
    "drop (m_nparticles (ds ! j)) (local_particles (migrate i j ds ! j)) = leaving (ds ! i)"
proof -
  obtain out fl d where rem: "removeParticles (ds ! i) = (out, fl, d)" using prod_cases3 by blast
  note Di = ranks_okD [OF ok ij(1)] and Dj = ranks_okD [OF ok ij(2)]
  note R = removeParticles_result [OF Di(1) rem]
  let ?ds = "migrate i j ds"
  have ds: "?ds = ds[i := d, j := addParticles out (ds ! j)]" by (simp add: migrate_def rem)
  have nth: "?ds ! i = d" "?ds ! j = addParticles out (ds ! j)" "\<And>r. r \<noteq> i \<Longrightarrow> r \<noteq> j \<Longrightarrow> ?ds ! r = ds ! r"
    using ij by (simp_all add: ds nth_list_update)
  have split: "mset (staying (ds ! i)) + mset (leaving (ds ! i)) = mset (local_particles (ds ! i))"
    by (rule mset_staying_leaving [OF pd_okD(1) [OF Di(1)]])
  have tags: "mset (map p_tag (staying (ds ! i))) + mset (map p_tag out) = mset (local_tags (ds ! i))"
    unfolding local_tags_particles R(1) using split by (metis image_mset_union mset_map)
  have di: "distinct (map p_tag (staying (ds ! i)) @ map p_tag out)"
    using tags tags_ok_distinct [OF pd_okD(2) [OF Di(1)]] by (metis mset_append mset_eq_imp_distinct_iff)
  have si: "set (map p_tag (staying (ds ! i))) \<union> set (map p_tag out) = set (local_tags (ds ! i))"
    using arg_cong [OF tags, of set_mset] by simp
  have disj: "set (local_tags (ds ! i)) \<inter> set (local_tags (ds ! j)) = {}"
  proof -
    have "i = j" if "s \<in> set (local_tags (ds ! i))" "s \<in> set (local_tags (ds ! j))" for s
    proof -
      have "s \<in> set (m_tag_set (hd ds))" using that(1) tags_ok_set [OF pd_okD(2) [OF Di(1)]] Di(2) by simp
      from ranks_ok_unique [OF ok this] show ?thesis using that ij(1,2) by blast
    qed
    then show ?thesis using ij(3) by blast
  qed
  have act: "set (local_tags (ds ! i)) \<subseteq> set (m_tag_set (ds ! j))"
    using tags_ok_set [OF pd_okD(2) [OF Di(1)]] Di(2) Dj(2) by auto
  have len: "length out \<le> m_nparticles (ds ! i)"
    using arg_cong [OF tags, of size] length_local_tags [OF pd_okD(1) [OF Di(1)]] by simp
  have *: "distinct (map p_tag out)" "p_tag ` set out \<subseteq> set (m_tag_set (ds ! j))"
    "p_tag ` set out \<inter> set (local_tags (ds ! j)) = {}" "m_nparticles (ds ! j) + length out \<le> NOT_LOCAL"
    using di si act disj len room by auto
  note A = addParticles_result [OF Dj(1) *(1-3) gh *(4)]
  show st: "local_particles (?ds ! i) = staying (ds ! i)" unfolding nth(1) by (rule R(2))
  show "drop (m_nparticles (ds ! j)) (local_particles (?ds ! j)) = leaving (ds ! i)"
    unfolding nth(2) A(6) by (rule R(1))
  have mj: "image_mset clear_net (mset (local_particles (?ds ! j)))
      = image_mset clear_net (mset (local_particles (ds ! j)) + mset out)"
    unfolding nth(2) using arg_cong [OF A(1), of mset] by simp
  show "image_mset clear_net (mset (local_particles (?ds ! i)) + mset (local_particles (?ds ! j)))
     = image_mset clear_net (mset (local_particles (ds ! i)) + mset (local_particles (ds ! j)))"
    unfolding image_mset_union mj st split [symmetric] R(1) by (simp add: ac_simps)
  have lti: "local_tags (?ds ! i) = map p_tag (staying (ds ! i))" by (simp add: local_tags_particles st)
  have "map p_tag (map clear_net (local_particles (?ds ! j))) = map p_tag (map clear_net (local_particles (ds ! j) @ out))"
    unfolding nth(2) A(1) by (rule refl)
  then have ltj: "local_tags (?ds ! j) = local_tags (ds ! j) @ map p_tag out"
    by (simp add: local_tags_particles comp_def)
  show "ranks_ok ?ds"
  proof (rule ranks_okI_same [OF ok])
    show "length ?ds = length ds" by (simp add: ds)
    show "pd_ok (?ds ! r) \<and> m_tag_set (?ds ! r) = m_tag_set (ds ! r) \<and> m_recycled_tags (?ds ! r) = m_recycled_tags (ds ! r)"
      if "r < length ds" for r
      using nth R(4-6) A(2-4) ranks_okD(1) [OF ok that] by (cases "r = i"; cases "r = j") simp_all
    show "\<exists>!r. r < length ?ds \<and> s \<in> set (local_tags (?ds ! r))" if s: "s \<in> set (m_tag_set (hd ds))" for s
    proof -
      have len': "length ?ds = length ds" by (simp add: ds)
      obtain r where r: "r < length ds" "s \<in> set (local_tags (ds ! r))"
        and u: "\<And>q. q < length ds \<Longrightarrow> s \<in> set (local_tags (ds ! q)) \<Longrightarrow> q = r"
        using ranks_ok_unique [OF ok s] by blast
      have mem: "s \<in> set (local_tags (?ds ! q)) \<longleftrightarrow>
          (if q = i then s \<in> set (local_tags (ds ! i)) \<and> s \<notin> p_tag ` set out
           else if q = j then s \<in> set (local_tags (ds ! j)) \<or> s \<in> p_tag ` set out else s \<in> set (local_tags (ds ! q)))" for q
        using lti ltj nth(3) [of q] si di ij(3) by auto
      show ?thesis
      proof (rule ex1I [of _ "if s \<in> p_tag ` set out then j else r"])
        show "(if s \<in> p_tag ` set out then j else r) < length ?ds \<and>
          s \<in> set (local_tags (?ds ! (if s \<in> p_tag ` set out then j else r)))"
          unfolding mem len' using r ij by auto
        show "q = (if s \<in> p_tag ` set out then j else r)" if "q < length ?ds \<and> s \<in> set (local_tags (?ds ! q))" for q
          using that u [of q] u [of i] si ij unfolding mem len' by (auto split: if_splits)
      qed
    qed
  qed
qed

lemma addGhostParticles_ok:
  assumes "pd_ok d"
  shows "pd_ok (addGhostParticles k d)" "local_tags (addGhostParticles k d) = local_tags d"
    "m_tag_set (addGhostParticles k d) = m_tag_set d" "m_recycled_tags (addGhostParticles k d) = m_recycled_tags d"
proof -
  let ?t = "m_nparticles d + (m_nghosts d + k)"
  note A = arrays_okD [OF pd_okD(1) [OF assms]]
  have g: "?t \<le> grow ?t (m_max_nparticles d)" by (rule grow_ge)
  show lt: "local_tags (addGhostParticles k d) = local_tags d"
    using A g by (auto simp: addGhostParticles_def pd_reallocate_def Let_def local_tags_def resized_def take_map comp_def)
  show ts: "m_tag_set (addGhostParticles k d) = m_tag_set d" "m_recycled_tags (addGhostParticles k d) = m_recycled_tags d"
    by (simp_all add: addGhostParticles_def pd_reallocate_def pd_allocate_def Let_def)
  have "arrays_ok (addGhostParticles k d)"
    using pd_okD(1) [OF assms] g by (auto simp: addGhostParticles_def pd_reallocate_def Let_def arrays_ok_def)
  then show "pd_ok (addGhostParticles k d)"
    using assms unfolding pd_ok_def lt ts by (simp add: addGhostParticles_def pd_reallocate_def pd_allocate_def Let_def)
qed

lemma one_rank_ok:
  assumes ok: "ranks_ok ds" and r: "r < length ds" and d: "pd_ok d" "m_tag_set d = m_tag_set (ds ! r)"
    "m_recycled_tags d = m_recycled_tags (ds ! r)" "local_tags d = local_tags (ds ! r)"
  shows "ranks_ok (ds[r := d])"
proof (rule ranks_okI_same [OF ok])
  show "pd_ok (ds[r := d] ! q) \<and> m_tag_set (ds[r := d] ! q) = m_tag_set (ds ! q) \<and>
      m_recycled_tags (ds[r := d] ! q) = m_recycled_tags (ds ! q)" if "q < length ds" for q
    using d ranks_okD(1) [OF ok that] r by (cases "q = r") simp_all
  have same: "local_tags (ds[r := d] ! q) = local_tags (ds ! q)" for q
    using d(4) r by (cases "q = r") simp_all
  show "\<exists>!q. q < length (ds[r := d]) \<and> t \<in> set (local_tags (ds[r := d] ! q))" if "t \<in> set (m_tag_set (hd ds))" for t
    unfolding length_list_update same by (rule ranks_ok_unique [OF ok that])
qed simp

lemma rank_step_ok:
  assumes "rank_step ds ds'" "ranks_ok ds"
  shows "ranks_ok ds'"
  using assms
proof induction
  case (add es cs ds ty)
  then show ?case by (intro add_all_ok(2))
next
  case (remove es t ds)
  then show ?case using remove_all_ok(2) remove_all_inactive by (cases "t \<in> set (m_tag_set (hd ds))") blast+
next
  case (flag r ds fl)
  note D = ranks_okD(1) [OF flag(3) flag(1)]
  have "pd_ok ((ds ! r)\<lparr>m_comm_flags := fl\<rparr>)"
    using D flag(2) by (simp add: pd_ok_def arrays_ok_def local_tags_def)
  then show ?case using flag by (intro one_rank_ok) (simp_all add: local_tags_def)
next
  case (ghosts r ds k)
  then show ?case using addGhostParticles_ok [OF ranks_okD(1)] by (intro one_rank_ok) simp_all
next
  case (no_ghosts r ds)
  then show ?case using pd_ok_ghosts [OF ranks_okD(1)] by (intro one_rank_ok) (simp_all add: notify_defs local_tags_def)
next
  case (send i ds j)
  then show ?case by (intro migrate_ok(1))
qed

lemma ranks_count:
  assumes "ranks_ok ds"
  shows "sum_list (map m_nparticles ds) = length (m_tag_set (hd ds))"
proof -
  let ?A = "\<lambda>r. set (local_tags (ds ! r))"
  have ne: "0 < length ds" using assms by (simp add: ranks_ok_def)
  have c: "card (?A r) = m_nparticles (ds ! r)" if "r < length ds" for r
    using ranks_okD(1) [OF assms that] by (simp add: distinct_card tags_ok_distinct [OF pd_okD(2)] length_local_tags [OF pd_okD(1)])
  have sub: "?A r \<subseteq> set (m_tag_set (hd ds))" if "r < length ds" for r
    using tags_ok_set [OF pd_okD(2) [OF ranks_okD(1) [OF assms that]]] ranks_okD(2) [OF assms that] by auto
  have disj: "?A r \<inter> ?A q = {}" if rq: "r < length ds" "q < length ds" "r \<noteq> q" for r q
  proof -
    have "r = q" if "t \<in> ?A r" "t \<in> ?A q" for t
      using ranks_ok_unique [OF assms] sub [OF rq(1)] that rq(1,2) by blast
    then show ?thesis using rq(3) by blast
  qed
  have un: "(\<Union>r<length ds. ?A r) = set (m_tag_set (hd ds))"
  proof (intro subset_antisym subsetI)
    fix t assume "t \<in> set (m_tag_set (hd ds))"
    from ranks_ok_unique [OF assms this] show "t \<in> (\<Union>r<length ds. ?A r)" by blast
  qed (use sub in blast)
  have "sum_list (map m_nparticles ds) = (\<Sum>r<length ds. card (?A r))"
    using c by (simp add: sum_list_sum_nth atLeast0LessThan)
  also have "\<dots> = card (\<Union>r<length ds. ?A r)"
    using disj by (intro card_UN_disjoint [symmetric]) auto
  also have "\<dots> = length (m_tag_set (hd ds))"
    using tags_okD(2) [OF pd_okD(2) [OF ranks_okD(1) [OF assms ne]]] ranks_okD(2) [OF assms ne] un by (simp add: distinct_card)
  finally show ?thesis .
qed

lemma ranks_reachable:
  assumes "rank_step\<^sup>*\<^sup>* ds ds'" "ranks_ok ds"
  shows "ranks_ok ds'"
  using assms by (induction rule: rtranclp_induct) (blast intro: rank_step_ok)+

section \<open>The owner of a particle\<close>

definition owner_flags :: "nat \<Rightarrow> particle_data list \<Rightarrow> int list" where
  "owner_flags t ds = map (\<lambda>r. if isParticleLocal t (ds ! r) then int r else - 1) [0..<length ds]"

definition owner_envs :: "mpi_env list \<Rightarrow> nat \<Rightarrow> particle_data list \<Rightarrow> bool" where
  "owner_envs es t ds \<longleftrightarrow> envs_ok es (local_flags t ds) \<and>
     (\<forall>r<length es. allreduce_max (es ! r) (owner_flags t ds ! r) = Max (set (owner_flags t ds)))"

text \<open>An accessor with a domain decomposition: every rank reads its own value, and the one of the owner is
  broadcast.\<close>

definition bcast_value :: "mpi_env list \<Rightarrow> (pdata_element \<Rightarrow> 'v) \<Rightarrow> 'v \<Rightarrow> nat \<Rightarrow> particle_data list \<Rightarrow> nat \<Rightarrow> exn + 'v" where
  "bcast_value es f dflt t ds r = (case getOwnerRank (es ! r) t (ds ! r) of
     Inl e \<Rightarrow> Inl e | Inr owner_rank \<Rightarrow> Inr (local_value f dflt t (ds ! owner_rank)))"

lemma owner_sum:
  assumes "\<exists>!r. r < length ds \<and> isParticleLocal t (ds ! r)"
  shows "sum_list (local_flags t ds) = 1"
proof -
  obtain q where q: "q < length ds" "isParticleLocal t (ds ! q)"
    and u: "\<And>r. r < length ds \<Longrightarrow> isParticleLocal t (ds ! r) \<Longrightarrow> r = q" using assms by blast
  have "sum_list (local_flags t ds) = (\<Sum>r<length ds. if isParticleLocal t (ds ! r) then 1 else 0)"
    unfolding local_flags_def sum_list_sum_nth length_map atLeast0LessThan by (rule sum.cong) simp_all
  also have "\<dots> = (\<Sum>r<length ds. if r = q then 1 else 0)"
  proof (rule sum.cong [OF refl])
    show "(if isParticleLocal t (ds ! r) then 1 else 0) = (if r = q then 1 else (0::nat))" if "r \<in> {..<length ds}" for r
      using u [of r] q that by (cases "r = q") auto
  qed
  finally show ?thesis using q(1) by simp
qed

lemma owner_max:
  assumes "q < length ds" "isParticleLocal t (ds ! q)" "\<And>r. r < length ds \<Longrightarrow> isParticleLocal t (ds ! r) \<Longrightarrow> r = q"
  shows "Max (set (owner_flags t ds)) = int q"
proof (rule Max_eqI)
  show "x \<le> int q" if "x \<in> set (owner_flags t ds)" for x
    using that assms(3) by (auto simp: owner_flags_def split: if_splits)
  show "int q \<in> set (owner_flags t ds)" using assms(1,2) by (force simp: owner_flags_def)
qed simp

lemma owner_rank:
  assumes ok: "ranks_ok ds" and env: "owner_envs es t ds" and t: "t \<in> set (m_tag_set (hd ds))"
  obtains q where "q < length ds" "isParticleLocal t (ds ! q)"
    "\<And>r. r < length ds \<Longrightarrow> getOwnerRank (es ! r) t (ds ! r) = Inr q"
proof -
  note o = ranks_ok_owner [OF ok t]
  obtain q where q: "q < length ds" "isParticleLocal t (ds ! q)"
    and u: "\<And>r. r < length ds \<Longrightarrow> isParticleLocal t (ds ! r) \<Longrightarrow> r = q" using o by blast
  have "getOwnerRank (es ! r) t (ds ! r) = Inr q" if r: "r < length ds" for r
  proof -
    have l: "length es = length ds" using env by (simp add: owner_envs_def envs_ok_def local_flags_def)
    have e: "getRank (es ! r) = r" "allreduce_sum (es ! r) (local_flags t ds ! r) = 1"
      "allreduce_max (es ! r) (owner_flags t ds ! r) = int q"
      using env r l owner_sum [OF o] owner_max [OF q u] by (auto simp: owner_envs_def envs_ok_def)
    have f: "local_flags t ds ! r = (if getRTag t (ds ! r) < m_nparticles (ds ! r) then 1 else 0)"
      "owner_flags t ds ! r = (if getRTag t (ds ! r) < m_nparticles (ds ! r) then int r else - 1)"
      using r by (simp_all add: local_flags_def owner_flags_def isParticleLocal_def getRTag_def)
    show ?thesis using e f by (auto simp: getOwnerRank_def Let_def)
  qed
  then show ?thesis using that q by blast
qed

section \<open>Properties\<close>

text \<open>Two ranks without particles, and the same ranks after a particle has been added and flagged.\<close>

definition demo_envs :: "mpi_env list" where
  "demo_envs = map (\<lambda>r. \<lparr>getRank = r, decomposed = True, allreduce_sum = (\<lambda>k. 0), allreduce_max = id\<rparr>) [0, 1]"

definition demo_empty :: "particle_data list" where
  "demo_empty = [allocated_empty, allocated_empty]"

definition demo_ranks :: "particle_data list" where
  "demo_ranks = (let ds = map snd (add_all demo_envs 0 demo_empty)
     in ds[0 := (ds ! 0)\<lparr>m_comm_flags := replicate (length (m_comm_flags (ds ! 0))) 1\<rparr>])"

lemma demo_empty_ok: "ranks_ok demo_empty"
  using allocated_empty_inv by (simp add: ranks_ok_def demo_empty_def pd_inv_def)

definition demo_owner_envs :: "mpi_env list" where
  "demo_owner_envs = map (\<lambda>r. \<lparr>getRank = r, decomposed = True, allreduce_sum = (\<lambda>k. 1), allreduce_max = (\<lambda>k. 0)\<rparr>) [0, 1]"

lemma demo_steps: "rank_step demo_empty (map snd (add_all demo_envs 0 demo_empty))"
  "rank_step (map snd (add_all demo_envs 0 demo_empty)) demo_ranks"
proof -
  show "rank_step demo_empty (map snd (add_all demo_envs 0 demo_empty))"
    by (rule rank_step.add [of _ "[0, 0]"])
      (simp_all add: envs_ok_def demo_envs_def demo_empty_def allocated_empty_inv NOT_LOCAL_def less_Suc_eq)
  show "rank_step (map snd (add_all demo_envs 0 demo_empty)) demo_ranks"
    unfolding demo_ranks_def Let_def
    by (rule rank_step.flag) (simp_all add: add_all_def demo_empty_def demo_envs_def)
qed

lemma demo_ranks_ok: "ranks_ok demo_ranks"
  using ranks_reachable [OF _ demo_empty_ok] demo_steps by (meson rtranclp.simps)

text \<open>C15: In every state the ranks of a parallel simulation reach by collective insertions and removals (successful
  or refused), by flagging particles, by creating and removing ghosts and by migrating flagged particles, the arrays and
  the reverse table of every rank are consistent, all ranks agree on the active and recycled tags, every active particle
  is local on exactly one rank, and the local particle numbers add up to the global one.\<close>

theorem ranks_invariant:
  assumes "ranks_ok ds" "rank_step\<^sup>*\<^sup>* ds ds'"
  shows "ranks_ok ds' \<and> sum_list (map m_nparticles ds') = m_nglobal (hd ds')"
proof -
  have ok: "ranks_ok ds'" using assms(2,1) by (rule ranks_reachable)
  then have ne: "0 < length ds'" "hd ds' = ds' ! 0" by (simp_all add: ranks_ok_def hd_conv_nth)
  show ?thesis using ok ranks_count [OF ok] ranks_okD(4) [OF ok ne(1)] ne(2) by simp
qed

theorem ranks_invariant_witness: "ranks_ok demo_ranks \<and> sum_list (map m_nparticles demo_ranks) = m_nglobal (hd demo_ranks)"
  by (rule ranks_invariant [OF demo_empty_ok]) (meson demo_steps rtranclp.simps)

text \<open>C16: Migration from one rank to another conserves particles: afterwards the sender holds exactly the particles
  it had not flagged, in their old order, the receiver has the flagged ones appended, with all their fields, and the
  two ranks together hold the same particles as before up to the accumulated forces.\<close>

theorem migration_conserves:
  assumes "ranks_ok ds" "i < length ds" "j < length ds" "i \<noteq> j" "m_nghosts (ds ! j) = 0"
    "m_nparticles (ds ! i) + m_nparticles (ds ! j) \<le> NOT_LOCAL"
  shows "local_particles (migrate i j ds ! i) = staying (ds ! i) \<and>
    drop (m_nparticles (ds ! j)) (local_particles (migrate i j ds ! j)) = leaving (ds ! i) \<and>
    image_mset clear_net (mset (local_particles (migrate i j ds ! i)) + mset (local_particles (migrate i j ds ! j)))
     = image_mset clear_net (mset (local_particles (ds ! i)) + mset (local_particles (ds ! j)))"
  using migrate_ok(2-4) [OF assms] by blast

theorem migration_conserves_witness:
  "local_particles (migrate 0 1 demo_ranks ! 0) = [] \<and>
    local_particles (migrate 0 1 demo_ranks ! 1) = local_particles (demo_ranks ! 0) \<and>
    length (local_particles (demo_ranks ! 0)) = 1"
proof -
  have len: "length demo_ranks = 2" by (simp add: demo_ranks_def Let_def add_all_def demo_empty_def demo_envs_def)
  note ok = demo_ranks_ok
  have n: "m_nparticles (demo_ranks ! 0) = 1" "m_nparticles (demo_ranks ! 1) = 0" "m_nghosts (demo_ranks ! 1) = 0"
    "length (ptl (demo_ranks ! 0)) = 1" "m_comm_flags (demo_ranks ! 0) = [1]"
    by (simp_all add: demo_ranks_def demo_empty_def demo_envs_def add_all_def addParticle_def Let_def allocated_empty_def
        pd_resize_def empty_particle_data_def pd_allocate_def notify_defs setNGlobal_def new_tag_def emit_def)
  have p: "local_particles (demo_ranks ! 0) = ptl (demo_ranks ! 0)" using n by (simp add: local_particles_def)
  obtain x where x: "ptl (demo_ranks ! 0) = [x]" using n(4) by (auto simp: length_Suc_conv)
  have "staying (demo_ranks ! 0) = []" "leaving (demo_ranks ! 0) = [x]"
    by (simp_all add: staying_def leaving_def p x n(5))
  then show ?thesis
    using migration_conserves [OF ok, of 0 1] n len p x by (simp add: NOT_LOCAL_def)
qed

text \<open>C17: With a domain decomposition every rank finds the same owner of an active particle, and the value that all
  ranks obtain for it is the field of the particle with that tag.\<close>

theorem bcast_value_correct:
  assumes "ranks_ok ds" "owner_envs es t ds" "t \<in> set (m_tag_set (hd ds))"
  shows "\<exists>q<length ds. \<exists>p\<in>set (local_particles (ds ! q)). p_tag p = t \<and>
    (\<forall>r<length ds. getOwnerRank (es ! r) t (ds ! r) = Inr q \<and> bcast_value es f dflt t ds r = Inr (f p))"
proof -
  obtain q where q: "q < length ds" "isParticleLocal t (ds ! q)"
    and own: "\<And>r. r < length ds \<Longrightarrow> getOwnerRank (es ! r) t (ds ! r) = Inr q"
    using owner_rank [OF assms] by blast
  note D = ranks_okD [OF assms(1) q(1)] and A = arrays_okD [OF pd_okD(1) [OF ranks_okD(1) [OF assms(1) q(1)]]]
  let ?i = "rtag_at t (ds ! q)" and ?p = "ptl (ds ! q) ! rtag_at t (ds ! q)"
  have i: "?i < m_nparticles (ds ! q)" using q(2) by (simp add: isParticleLocal_def)
  have nl: "?i \<noteq> NOT_LOCAL"
    using i tags_okD(12) [OF pd_okD(2) [OF D(1)]] length_local_tags [OF pd_okD(1) [OF D(1)]] by simp
  have "p_tag ?p = t"
    using tags_okD(10) [OF pd_okD(2) [OF D(1)], of t] nl assms(3) D(2) nth_local_tags [OF pd_okD(1) [OF D(1)] i]
    by (simp add: rtag_at_def)
  moreover have "?p \<in> set (local_particles (ds ! q))"
    using i pd_okD(1) [OF D(1)] by (auto simp: local_particles_def arrays_ok_def in_set_conv_nth intro!: exI [of _ ?i])
  moreover have "bcast_value es f dflt t ds r = Inr (f ?p)" if "r < length ds" for r
    using own [OF that] i by (simp add: bcast_value_def local_value_def getRTag_def Let_def)
  ultimately show ?thesis using own q(1) by blast
qed

theorem bcast_value_correct_witness:
  "\<exists>q<length demo_ranks. \<exists>p\<in>set (local_particles (demo_ranks ! q)). p_tag p = 0 \<and>
    (\<forall>r<length demo_ranks. getOwnerRank (demo_owner_envs ! r) 0 (demo_ranks ! r) = Inr q \<and>
      bcast_value demo_owner_envs p_mass 0 0 demo_ranks r = Inr (p_mass p))"
proof (rule bcast_value_correct)
  have d: "length demo_ranks = 2" "hd demo_ranks = demo_ranks ! 0"
    by (simp_all add: demo_ranks_def Let_def add_all_def demo_empty_def demo_envs_def)
  have n: "m_tag_set (demo_ranks ! 0) = [0]" "isParticleLocal 0 (demo_ranks ! 0)" "\<not> isParticleLocal 0 (demo_ranks ! Suc 0)"
    by (simp_all add: demo_ranks_def demo_empty_def demo_envs_def add_all_def addParticle_def Let_def allocated_empty_def
        pd_resize_def empty_particle_data_def pd_allocate_def notify_defs setNGlobal_def new_tag_def emit_def
        isParticleLocal_def rtag_at_def hv_set_def hv_resize_def getMaximumTag_def insort_insert_key_def
        nth_list_update grow_pos)
  show "ranks_ok demo_ranks" by (rule demo_ranks_ok)
  show "0 \<in> set (m_tag_set (hd demo_ranks))" using d n by simp
  have "local_flags 0 demo_ranks = [1, 0]" "owner_flags 0 demo_ranks = [0, - 1]"
    using n d(1) by (simp_all add: local_flags_def owner_flags_def list_eq_iff_nth_eq less_Suc_eq numeral_2_eq_2)
  then show "owner_envs demo_owner_envs 0 demo_ranks"
    by (simp add: owner_envs_def envs_ok_def demo_owner_envs_def less_Suc_eq numeral_2_eq_2)
qed

end
