(* ===== verification/ParticleSnapshot.thy ===== *)
theory ParticleSnapshot
  imports ParticleTags
begin

text \<open>
  Snapshots of the particle data without a domain decomposition: when \<open>initializeFromSnapshot\<close> accepts a snapshot
  and which state it builds, \<open>takeSnapshot\<close> against the list of active particles in the order of their tags, and
  the round trip of the two.
\<close>

section \<open>Snapshots\<close>

lemma distinct_remdups_adj_sorted: "sorted xs \<Longrightarrow> distinct (remdups_adj xs)"
  by (induction xs rule: remdups_adj.induct) (auto simp: less_le)

lemma unique_names:
  fixes xs :: "string list"
  shows "length (remdups_adj (sort xs)) = length xs \<longleftrightarrow> distinct xs"
proof -
  have "length (remdups_adj (sort xs)) = card (set xs)"
    using distinct_card [OF distinct_remdups_adj_sorted [OF sorted_sort [of xs]]] by simp
  then show ?thesis using card_distinct distinct_card by metis
qed

definition columns_ok :: "snapshot_particle_data \<Rightarrow> bool" where
  "columns_ok s \<longleftrightarrow> length (s_pos s) = s_size s \<and> length (s_vel s) = s_size s \<and> length (s_accel s) = s_size s \<and>
     length (s_type s) = s_size s \<and> length (s_mass s) = s_size s \<and> length (s_charge s) = s_size s \<and>
     length (s_diameter s) = s_size s \<and> length (s_image s) = s_size s \<and> length (s_body s) = s_size s \<and>
     length (s_orientation s) = s_size s \<and> length (s_angmom s) = s_size s \<and> length (s_inertia s) = s_size s"

lemma validate_iff: "validate s = Inr () \<longleftrightarrow> columns_ok s \<and> distinct (s_type_mapping s)"
  using unique_names [of "s_type_mapping s"] by (auto simp: validate_def columns_ok_def)

text \<open>The rows of the snapshot that are loaded.\<close>

definition loaded :: "snapshot_particle_data \<Rightarrow> bool \<Rightarrow> nat \<Rightarrow> nat list" where
  "loaded s ignore_bodies n = filter (\<lambda>i. \<not> (ignore_bodies \<and> s_body s ! i \<noteq> NO_BODY)) [0..<n]"

lemma load_step_simp: "load_step s ign (n, mx, ps, r) i = (if ign \<and> s_body s ! i \<noteq> NO_BODY then (n, mx, ps, r)
    else (n + 1, max mx (s_type s ! i), ps[n := load_element s i n (ps ! n)], hv_set n n r))"
  by (simp add: load_step_def)

lemma load_upto:
  assumes "length (loaded s ign n) \<le> length ps" "length (loaded s ign n) \<le> length (hv_buf r)"
  shows "\<exists>mx ps' r'. foldl (load_step s ign) (0, 0, ps, r) [0..<n] = (length (loaded s ign n), mx, ps', r') \<and>
    length ps' = length ps \<and> hv_size r' = hv_size r \<and> length (hv_buf r') = length (hv_buf r) \<and>
    (\<forall>j<length (loaded s ign n). ps' ! j = load_element s (loaded s ign n ! j) j (ps ! j) \<and> hv_buf r' ! j = j) \<and>
    (\<forall>i\<in>set (loaded s ign n). s_type s ! i \<le> mx) \<and> (mx = 0 \<or> (\<exists>i\<in>set (loaded s ign n). s_type s ! i = mx)) \<and>
    (\<forall>j\<ge>length (loaded s ign n). ps' ! j = ps ! j)"
  using assms
proof (induction n)
  case 0
  then show ?case by (simp add: loaded_def)
next
  case (Suc n)
  have ls: "loaded s ign (Suc n) = (if ign \<and> s_body s ! n \<noteq> NO_BODY then loaded s ign n else loaded s ign n @ [n])"
    by (simp add: loaded_def)
  obtain mx ps' r' where IH: "foldl (load_step s ign) (0, 0, ps, r) [0..<n] = (length (loaded s ign n), mx, ps', r')"
    "length ps' = length ps" "hv_size r' = hv_size r" "length (hv_buf r') = length (hv_buf r)"
    "\<forall>j<length (loaded s ign n). ps' ! j = load_element s (loaded s ign n ! j) j (ps ! j) \<and> hv_buf r' ! j = j"
    "\<forall>i\<in>set (loaded s ign n). s_type s ! i \<le> mx" "mx = 0 \<or> (\<exists>i\<in>set (loaded s ign n). s_type s ! i = mx)"
    "\<forall>j\<ge>length (loaded s ign n). ps' ! j = ps ! j"
    using Suc by (auto simp: ls split: if_splits)
  show ?case
  proof (cases "ign \<and> s_body s ! n \<noteq> NO_BODY")
    case True
    then have el: "loaded s ign (Suc n) = loaded s ign n" by (simp add: loaded_def)
    show ?thesis unfolding el using IH True by (simp add: load_step_simp)
  next
    case False
    let ?k = "length (loaded s ign n)"
    have k: "?k < length ps'" "?k < length (hv_buf r')"
      using Suc.prems IH(2,4) False by (auto simp: ls)
    have step: "foldl (load_step s ign) (0, 0, ps, r) [0..<Suc n] =
        (Suc ?k, max mx (s_type s ! n), ps'[?k := load_element s n ?k (ps' ! ?k)], hv_set ?k ?k r')"
      using IH(1) False by (auto simp: load_step_simp)
    have el: "loaded s ign (Suc n) = loaded s ign n @ [n]" using False by (auto simp: ls)
    show ?thesis
      unfolding step el
      using IH(2-8) k by (auto simp: nth_append nth_list_update less_Suc_eq hv_set_def max_def)
  qed
qed

lemma insort_insert_upt: "foldl (\<lambda>ts t. insort_insert t ts) [] [0..<n] = [0..<n]"
proof (induction n)
  case (Suc n)
  have "insort_insert n [0..<n] = [0..<Suc n]"
    by (rule sorted_distinct_set_unique)
       (auto simp: sorted_insort_insert distinct_insort_insert set_insort_insert simp del: upt_Suc)
  then show ?case using Suc by simp
qed simp

text \<open>The state after an initialization that got as far as the check of the type ids.\<close>

definition init_prepare :: "snapshot_particle_data \<Rightarrow> particle_data \<Rightarrow> particle_data" where
  "init_prepare s d = (let d = removeAllGhostParticles d; d = d\<lparr>m_tag_set := [], m_recycled_tags := []\<rparr>
     in d\<lparr>m_rtag := hv_resize (s_size s) (m_rtag d), m_invalid_cached_tags := True\<rparr>)"

definition init_finish :: "snapshot_particle_data \<Rightarrow> nat \<times> nat \<times> pdata_element list \<times> host_vector \<Rightarrow>
    particle_data \<Rightarrow> particle_data" where
  "init_finish s l d = (case l of (nglobal, max_typeid, ps, rtag) \<Rightarrow>
     (notifyParticleSort (setNGlobal nglobal (d\<lparr>ptl := ps, m_nparticles := nglobal,
        m_tag_set := foldl (\<lambda>ts t. insort_insert t ts) (m_tag_set d) [0..<nglobal],
        m_rtag := hv_resize nglobal rtag, m_type_mapping := s_type_mapping s, m_accel_set := is_accel_set s\<rparr>)))\<lparr>m_origin := 0, m_o_image := 0\<rparr>)"

lemma initialize_split:
  fixes ign :: bool and s :: snapshot_particle_data and d :: particle_data
  assumes "validate s = Inr ()"
  defines "r \<equiv> pd_resize (s_size s) (init_prepare s d)"
  defines "l \<equiv> foldl (load_step s ign) (0, 0, ptl r, m_rtag r) [0..<s_size s]"
  shows "snd (initializeFromSnapshot s ign d) = init_finish s l r"
    "fst (initializeFromSnapshot s ign d) = Inr () \<longleftrightarrow> s_size s = 0 \<or> fst (snd l) < length (s_type_mapping s)"
  unfolding initializeFromSnapshot_def assms(1) r_def l_def init_prepare_def init_finish_def
  by (simp_all add: Let_def split_beta notify_defs)

lemma initialize_result:
  fixes ign :: bool and s :: snapshot_particle_data and d :: particle_data
  assumes "columns_ok s" "distinct (s_type_mapping s)" and mem: "arrays_ok d \<or> \<not> m_arrays_allocated d"
    and size: "s_size s \<le> NOT_LOCAL"
  defines "k \<equiv> length (loaded s ign (s_size s))" and "d' \<equiv> snd (initializeFromSnapshot s ign d)"
  shows "pd_inv d'" "m_tag_set d' = [0..<k]" "m_nparticles d' = k" "j < k \<Longrightarrow> rtag_at j d' = j"
    "j < k \<Longrightarrow> \<exists>p. ptl d' ! j = load_element s (loaded s ign (s_size s) ! j) j p"
    "m_type_mapping d' = s_type_mapping s" "m_accel_set d' = is_accel_set s" "m_origin d' = 0" "m_o_image d' = 0"
    "m_global_box d' = m_global_box d"
    "fst (initializeFromSnapshot s ign d) = Inr () \<longleftrightarrow> s_size s = 0 \<or>
       s_type_mapping s \<noteq> [] \<and> (\<forall>i\<in>set (loaded s ign (s_size s)). s_type s ! i < length (s_type_mapping s))"
proof -
  let ?n = "s_size s"
  have v: "validate s = Inr ()" using assms(1,2) validate_iff by blast
  define e where "e = init_prepare s d"
  have e_eq: "e = (removeAllGhostParticles d)\<lparr>m_tag_set := [], m_recycled_tags := [],
    m_rtag := hv_resize ?n (m_rtag d), m_invalid_cached_tags := True\<rparr>"
    by (simp add: e_def init_prepare_def Let_def notify_defs)
  have e_mem: "arrays_ok e \<or> \<not> m_arrays_allocated e"
    using mem by (auto simp: e_eq notify_defs arrays_ok_def)
  define r where "r = pd_resize ?n e"
  note R = pd_resize_arrays [OF e_mem, of ?n, folded r_def]
  have kn: "k \<le> ?n"
    unfolding k_def loaded_def by (rule order_trans [OF length_filter_le]) simp
  have buf: "?n \<le> length (hv_buf (m_rtag r))"
    using hv_resize_props(1) [of ?n "m_rtag d"] by (simp add: r_def e_eq)
  obtain mx ps' r' where L: "foldl (load_step s ign) (0, 0, ptl r, m_rtag r) [0..<?n] = (k, mx, ps', r')"
    "length ps' = length (ptl r)" "length (hv_buf r') = length (hv_buf (m_rtag r))"
    "\<forall>j<k. ps' ! j = load_element s (loaded s ign ?n ! j) j (ptl r ! j) \<and> hv_buf r' ! j = j"
    "\<forall>i\<in>set (loaded s ign ?n). s_type s ! i \<le> mx" "mx = 0 \<or> (\<exists>i\<in>set (loaded s ign ?n). s_type s ! i = mx)"
    using load_upto [of s ign ?n "ptl r" "m_rtag r"] kn buf R(2,5) unfolding k_def by auto
  have d': "d' = (notifyParticleSort (setNGlobal k (r\<lparr>ptl := ps', m_nparticles := k, m_tag_set := [0..<k],
      m_rtag := hv_resize k r', m_type_mapping := s_type_mapping s, m_accel_set := is_accel_set s\<rparr>)))
      \<lparr>m_origin := 0, m_o_image := 0\<rparr>"
    and out: "fst (initializeFromSnapshot s ign d) = Inr () \<longleftrightarrow> ?n = 0 \<or> mx < length (s_type_mapping s)"
    using initialize_split [OF v, where d = d and ign = ign, folded e_def, folded r_def] L(1)
    by (simp_all add: d'_def init_finish_def insort_insert_upt notify_defs) (simp_all add: r_def e_eq insort_insert_upt)
  show f: "m_tag_set d' = [0..<k]" "m_nparticles d' = k" "m_type_mapping d' = s_type_mapping s"
    "m_accel_set d' = is_accel_set s" "m_origin d' = 0" "m_o_image d' = 0" "m_global_box d' = m_global_box d"
    by (simp_all add: d' notify_defs r_def e_eq)
  obtain zs where zs: "hv_buf (m_rtag d') = hv_buf r' @ zs"
    using hv_resize_props(3) [of k r'] by (auto simp: d' notify_defs)
  have kb: "k \<le> length (hv_buf r')" using kn buf L(3) by simp
  have rt: "hv_buf (m_rtag d') ! j = j" if "j < k" for j
    using that L(4) kb by (simp add: zs nth_append)
  then show "rtag_at j d' = j" if "j < k" using that by (simp add: rtag_at_def)
  have ptl: "ptl d' ! j = load_element s (loaded s ign ?n ! j) j (ptl r ! j)" if "j < k" for j
    using L(4) that by (simp add: d' notify_defs)
  then show "\<exists>p. ptl d' ! j = load_element s (loaded s ign ?n ! j) j p" if "j < k" using that by blast
  show "fst (initializeFromSnapshot s ign d) = Inr () \<longleftrightarrow> ?n = 0 \<or>
       s_type_mapping s \<noteq> [] \<and> (\<forall>i\<in>set (loaded s ign ?n). s_type s ! i < length (s_type_mapping s))"
    unfolding out using L(5,6) by (fastforce simp flip: length_greater_0_conv)
  have tags: "local_tags d' = [0..<k]"
    using ptl L(2) R(2,5) kn f(2)
    by (simp add: local_tags_def list_eq_iff_nth_eq load_element_def) (simp add: d' notify_defs)
  have "tags_ok [0..<k] (hv_buf (m_rtag d')) [0..<k] []"
    using rt kb kn size by (auto simp: tags_ok_def zs)
  moreover have "arrays_ok d'"
    using R L(2) kn by (simp add: arrays_ok_def d' notify_defs) (simp add: r_def e_eq notify_defs)
  moreover have "m_recycled_tags d' = []" "m_nglobal d' = k" "hv_size (m_rtag d') = k" "m_invalid_cached_tags d'"
    by (simp_all add: d' notify_defs r_def e_eq hv_resize_props)
  ultimately have "pd_ok d'" by (simp add: pd_ok_def tags f)
  moreover have "all_local d'" using rt kn size by (auto simp: all_local_def f rtag_at_def)
  ultimately show "pd_inv d'" by (simp add: pd_inv_def)
qed
text \<open>Taking a snapshot: the reference is the list of active particles in the order of their tags.\<close>

definition tag_particle :: "particle_data \<Rightarrow> nat \<Rightarrow> pdata_element" where
  "tag_particle d t = ptl d ! rtag_at t d"

definition wrapped :: "particle_data \<Rightarrow> pdata_element \<Rightarrow> scalar3 \<times> int3" where
  "wrapped d p = wrap (m_global_box d) 0 (p_pos p - m_origin d) (p_image p - m_o_image d)"

definition put_rows :: "particle_data \<Rightarrow> pdata_element list \<Rightarrow> nat \<Rightarrow> snapshot_particle_data \<Rightarrow> snapshot_particle_data" where
  "put_rows d ps j s = s\<lparr>s_pos := take j (s_pos s) @ map (fst \<circ> wrapped d) ps,
     s_vel := take j (s_vel s) @ map p_vel ps, s_accel := take j (s_accel s) @ map p_accel ps,
     s_type := take j (s_type s) @ map p_type ps, s_mass := take j (s_mass s) @ map p_mass ps,
     s_charge := take j (s_charge s) @ map p_charge ps, s_diameter := take j (s_diameter s) @ map p_diameter ps,
     s_image := take j (s_image s) @ map (snd \<circ> wrapped d) ps, s_body := take j (s_body s) @ map p_body ps,
     s_orientation := take j (s_orientation s) @ map p_orientation ps,
     s_angmom := take j (s_angmom s) @ map p_angmom ps, s_inertia := take j (s_inertia s) @ map p_inertia ps\<rparr>"

definition snapshot_of :: "particle_data \<Rightarrow> snapshot_particle_data" where
  "snapshot_of d = (let ps = map (tag_particle d) (m_tag_set d) in
     \<lparr>s_size = length ps, s_pos = map (fst \<circ> wrapped d) ps, s_vel = map p_vel ps, s_accel = map p_accel ps,
      s_type = map p_type ps, s_mass = map p_mass ps, s_charge = map p_charge ps,
      s_diameter = map p_diameter ps, s_image = map (snd \<circ> wrapped d) ps, s_body = map p_body ps,
      s_orientation = map p_orientation ps, s_angmom = map p_angmom ps, s_inertia = map p_inertia ps,
      s_type_mapping = m_type_mapping d, is_accel_set = m_accel_set d\<rparr>)"

lemma next_local_found:
  assumes "tag \<le> t" "t < length rb" "rb ! t < n" "\<And>u. tag \<le> u \<Longrightarrow> u < t \<Longrightarrow> \<not> rb ! u < n"
  shows "next_local rb n tag = Some t"
  using assms
proof (induction "t - tag" arbitrary: tag)
  case 0
  then show ?case by (simp add: next_local.simps [of rb n tag])
next
  case (Suc k)
  then have "next_local rb n (tag + 1) = Some t" by (intro Suc.hyps(1)) auto
  moreover have "tag < length rb" "\<not> rb ! tag < n" using Suc by auto
  ultimately show ?case by (simp add: next_local.simps [of rb n tag])
qed

lemma take_Suc_update: "j < length xs \<Longrightarrow> take (Suc j) (xs[j := x]) = take j xs @ [x]"
  by (simp add: take_Suc_conv_app_nth)

lemma put_row:
  assumes "columns_ok s" "j < s_size s"
  shows "put_rows d ps (Suc j) (store_element d j p s) = put_rows d (p # ps) j s" "columns_ok (store_element d j p s)"
    "s_size (store_element d j p s) = s_size s"
proof -
  have "j < length (s_pos s)" "j < length (s_vel s)" "j < length (s_accel s)" "j < length (s_type s)"
    "j < length (s_mass s)" "j < length (s_charge s)" "j < length (s_diameter s)" "j < length (s_image s)"
    "j < length (s_body s)" "j < length (s_orientation s)" "j < length (s_angmom s)" "j < length (s_inertia s)"
    using assms by (simp_all add: columns_ok_def)
  then show "put_rows d ps (Suc j) (store_element d j p s) = put_rows d (p # ps) j s"
    by (simp add: store_element_def put_rows_def Let_def take_Suc_update flip: wrapped_def)
  show "columns_ok (store_element d j p s)" "s_size (store_element d j p s) = s_size s"
    using assms by (simp_all add: columns_ok_def store_element_def Let_def)
qed

lemma put_no_rows: "columns_ok s \<Longrightarrow> j = s_size s \<Longrightarrow> put_rows d [] j s = s"
  by (simp add: columns_ok_def put_rows_def)

lemma store_particles_rows:
  assumes inv: "pd_inv d" and "m_tag_set d = xs @ ts" "\<forall>x\<in>set xs. x < tag" "\<forall>t\<in>set ts. tag \<le> t"
    and "columns_ok s" "s_size s = j + length ts"
  shows "store_particles d (length ts) j tag s = Some (put_rows d (map (tag_particle d) ts) j s)"
  using assms(2-)
proof (induction ts arbitrary: xs tag j s)
  case Nil
  then show ?case by (simp add: put_no_rows)
next
  case (Cons t ts)
  have ok: "pd_ok d" using inv by (simp add: pd_inv_def)
  note T = tags_okD [OF pd_okD(2) [OF ok]]
  have t: "t \<in> set (m_tag_set d)" using Cons.prems(1) by simp
  have sd: "\<forall>u\<in>set ts. t < u" using T(1,2) Cons.prems(1) by (auto simp: sorted_append less_le)
  have skip: "\<not> hv_buf (m_rtag d) ! u < m_nparticles d" if "tag \<le> u" "u < t" for u
  proof -
    have "u \<notin> set (m_tag_set d)" using that Cons.prems(1,2) sd by fastforce
    moreover have "u \<in> set (m_tag_set d) \<union> set (m_recycled_tags d)"
    proof -
      have "t \<in> {..<length (m_tag_set d) + length (m_recycled_tags d)}" using t T(5) by blast
      then show ?thesis unfolding T(5) using that(2) by simp
    qed
    ultimately have "hv_buf (m_rtag d) ! u = NOT_LOCAL" using T(11) by blast
    then show ?thesis using T(12) length_local_tags [OF pd_okD(1) [OF ok]] by simp
  qed
  have "next_local (hv_buf (m_rtag d)) (m_nparticles d) tag = Some t"
    using Cons.prems(3) skip tags_ok_less [OF pd_okD(2) [OF ok], of t] t pd_inv_local(2) [OF inv t]
    by (intro next_local_found) (auto simp: rtag_at_def)
  moreover have "store_particles d (length ts) (Suc j) (t + 1) (store_element d j (tag_particle d t) s)
      = Some (put_rows d (map (tag_particle d) ts) (Suc j) (store_element d j (tag_particle d t) s))"
    using Cons.prems sd by (intro Cons.IH [of "xs @ [t]"]) (auto simp: put_row)
  ultimately show ?case
    using Cons.prems(4,5) by (simp add: put_row tag_particle_def [of d t, symmetric])
qed

lemma columns_ok_resize: "columns_ok (snapshot_resize n s)"
  by (simp add: columns_ok_def snapshot_resize_def)

lemma takeSnapshot_of:
  assumes "pd_inv d"
  shows "takeSnapshot d s = Some (snapshot_of d)"
proof -
  note c = pd_inv_counts [OF assms]
  have n: "m_nglobal d = length (m_tag_set d)" "m_nparticles d = length (m_tag_set d)"
    using assms pd_okD(3) c(2) by (auto simp: pd_inv_def)
  have "store_particles d (length (m_tag_set d)) 0 0 (snapshot_resize (m_nglobal d) s)
      = Some (put_rows d (map (tag_particle d) (m_tag_set d)) 0 (snapshot_resize (m_nglobal d) s))"
    by (rule store_particles_rows [OF assms, of "[]"]) (simp_all add: columns_ok_resize n, simp add: snapshot_resize_def n)
  then show ?thesis
    by (simp add: takeSnapshot_def n put_rows_def snapshot_of_def snapshot_resize_def Let_def)
qed

text \<open>Positions inside the box are left alone by wrapping.\<close>

definition in_unit :: "boxDim \<Rightarrow> scalar3 \<Rightarrow> bool" where
  "in_unit b v \<longleftrightarrow> (let f = makeFraction b v 0 in 0 \<le> vx f \<and> vx f < 1 \<and> 0 \<le> vy f \<and> vy f < 1 \<and> 0 \<le> vz f \<and> vz f < 1)"

lemma wrap_in_unit:
  assumes "box_ok b" "centred b" "in_unit b v"
  shows "wrap b 0 v img = (v, img)"
proof -
  have z: "Vec3 0 0 0 = (0 :: int3)" "vx (0 :: int3) = 0" "vy (0 :: int3) = 0" "vz (0 :: int3) = 0"
    by (simp_all add: zero_vec3_def)
  show ?thesis
    using assms(3) by (simp add: wrap_frac [OF assms(1,2)] in_unit_def Let_def wrap_amount_def z)
qed

lemma snapshot_roundtrip_aux:
  assumes s: "columns_ok s" "distinct (s_type_mapping s)" "s_size s \<le> NOT_LOCAL"
    and mem: "arrays_ok d \<or> \<not> m_arrays_allocated d"
    and box: "box_ok (m_global_box d)" "centred (m_global_box d)" "list_all (in_unit (m_global_box d)) (s_pos s)"
  shows "takeSnapshot (snd (initializeFromSnapshot s False d)) s0 = Some s"
proof -
  let ?n = "s_size s" and ?d = "snd (initializeFromSnapshot s False d)"
  have l: "loaded s False ?n = [0..<?n]" by (simp add: loaded_def)
  note I = initialize_result [OF s(1,2) mem s(3), where ign = False, unfolded l, simplified]
  have p: "\<exists>p. tag_particle ?d i = load_element s i i p" if "i < ?n" for i
    using I(4,5) that by (simp add: tag_particle_def)
  have f: "p_vel (tag_particle ?d i) = s_vel s ! i" "p_accel (tag_particle ?d i) = s_accel s ! i"
    "p_type (tag_particle ?d i) = s_type s ! i" "p_mass (tag_particle ?d i) = s_mass s ! i"
    "p_charge (tag_particle ?d i) = s_charge s ! i" "p_diameter (tag_particle ?d i) = s_diameter s ! i"
    "p_body (tag_particle ?d i) = s_body s ! i" "p_orientation (tag_particle ?d i) = s_orientation s ! i"
    "p_angmom (tag_particle ?d i) = s_angmom s ! i" "p_inertia (tag_particle ?d i) = s_inertia s ! i"
    "wrapped ?d (tag_particle ?d i) = (s_pos s ! i, s_image s ! i)" if "i < ?n" for i
    using p [OF that] box(3) that s(1) wrap_in_unit [OF box(1,2)]
    by (auto simp: load_element_def wrapped_def I(8-10) list_all_length columns_ok_def)
  show ?thesis
    unfolding takeSnapshot_of [OF I(1)] snapshot_of_def Let_def option.inject
    using s(1) f by (intro snapshot_particle_data.equality)
      (auto simp: I(2,6,7) columns_ok_def list_eq_iff_nth_eq)
qed

section \<open>Properties\<close>

text \<open>A snapshot with two particles in a tilted box.\<close>

definition demo_snapshot :: snapshot_particle_data where
  "demo_snapshot = \<lparr>s_size = 2, s_pos = [Vec3 1 (- 2) 3, Vec3 0 0 (- 1)], s_vel = [Vec3 1 0 0, 0], s_accel = [0, 0],
     s_type = [0, 1], s_mass = [1, 2], s_charge = [0, - 1], s_diameter = [1, 1], s_image = [Vec3 0 1 (- 2), 0],
     s_body = [NO_BODY, 0], s_orientation = [(1, 0, 0, 0), (1, 0, 0, 0)], s_angmom = [zero4, zero4],
     s_inertia = [0, Vec3 1 1 1], s_type_mapping = [''A'', ''B''], is_accel_set = True\<rparr>"

definition demo_data :: particle_data where
  "demo_data = setGlobalBox demo_box empty_particle_data"

lemma demo_snapshot_ok: "columns_ok demo_snapshot" "distinct (s_type_mapping demo_snapshot)" "s_size demo_snapshot \<le> NOT_LOCAL"
  "\<not> m_arrays_allocated demo_data" "box_ok (m_global_box demo_data)" "centred (m_global_box demo_data)"
  "list_all (in_unit (m_global_box demo_data)) (s_pos demo_snapshot)"
  using demo_box_ok
  by (simp_all add: columns_ok_def demo_snapshot_def NOT_LOCAL_def demo_data_def setGlobalBox_def emit_def
      empty_particle_data_def) (simp_all add: in_unit_def makeFraction_0 demo_box_eq Let_def)

text \<open>C18: Initializing from a snapshot whose columns have the right length, whose type names are distinct and whose
  positions lie in the box, and taking a snapshot afterwards, yields the same snapshot, field by field and in the same
  order, whatever the object held before.\<close>

theorem snapshot_roundtrip:
  assumes "columns_ok s" "distinct (s_type_mapping s)" "s_size s \<le> NOT_LOCAL"
    "arrays_ok d \<or> \<not> m_arrays_allocated d"
    "box_ok (m_global_box d)" "centred (m_global_box d)" "list_all (in_unit (m_global_box d)) (s_pos s)"
  shows "takeSnapshot (snd (initializeFromSnapshot s False d)) s0 = Some s"
  using assms by (rule snapshot_roundtrip_aux)

theorem snapshot_roundtrip_witness:
  "takeSnapshot (snd (initializeFromSnapshot demo_snapshot False demo_data)) (SnapshotParticleData 0) = Some demo_snapshot"
  using demo_snapshot_ok by (intro snapshot_roundtrip) simp_all

text \<open>C19: The loop of \<open>takeSnapshot\<close> that skips inactive tags ends before the end of the reverse table for every
  particle, so that a snapshot is always produced; it lists the active particles in ascending order of their tags, with
  positions and images relative to the origin and wrapped into the global box.\<close>

theorem takeSnapshot_total:
  assumes "pd_inv d" "pre_run pd_pre pd_spec ops (pd_abs d)"
  shows "takeSnapshot (snd (run_ops pd_step ops d)) s = Some (snapshot_of (snd (run_ops pd_step ops d)))"
  by (rule takeSnapshot_of [OF ptls.run_inv [OF assms]])

theorem takeSnapshot_total_witness:
  "takeSnapshot (snd (run_ops pd_step [Op_add 0, Op_add 1, Op_remove 0] allocated_empty)) (SnapshotParticleData 0)
    = Some (snapshot_of (snd (run_ops pd_step [Op_add 0, Op_add 1, Op_remove 0] allocated_empty)))"
proof (rule takeSnapshot_total [OF allocated_empty_inv(1)])
  show "pre_run pd_pre pd_spec [Op_add 0, Op_add 1, Op_remove 0] (pd_abs allocated_empty)"
    by (simp add: allocated_empty_inv(2) new_tag_def NOT_LOCAL_def Let_def)
qed

text \<open>C20: \<open>initializeFromSnapshot\<close> succeeds exactly if every column has as many entries as the snapshot has
  particles, no type name occurs twice, and, unless there are no particles, there is a type and the type of every loaded
  particle has a name.  Particles of rigid bodies are not loaded when bodies are ignored.\<close>

theorem initialize_accepts_iff:
  assumes "arrays_ok d \<or> \<not> m_arrays_allocated d" "s_size s \<le> NOT_LOCAL"
  shows "fst (initializeFromSnapshot s ign d) = Inr () \<longleftrightarrow> columns_ok s \<and> distinct (s_type_mapping s) \<and>
    (s_size s = 0 \<or> s_type_mapping s \<noteq> [] \<and>
     (\<forall>i < s_size s. ign \<and> s_body s ! i \<noteq> NO_BODY \<or> s_type s ! i < length (s_type_mapping s)))"
proof (cases "columns_ok s \<and> distinct (s_type_mapping s)")
  case True
  then show ?thesis
    using initialize_result(11) [where s = s and ign = ign, OF _ _ assms] by (auto simp: loaded_def)
next
  case False
  then have "validate s \<noteq> Inr ()" using validate_iff by blast
  then obtain e where "validate s = Inl e" by (cases "validate s") auto
  then have "fst (initializeFromSnapshot s ign d) = Inl e"
    by (simp add: initializeFromSnapshot_def Let_def)
  then show ?thesis using False by auto
qed

theorem initialize_accepts_iff_witness:
  "fst (initializeFromSnapshot demo_snapshot False demo_data) = Inr () \<and>
   fst (initializeFromSnapshot (demo_snapshot\<lparr>s_type := [0, 2]\<rparr>) False demo_data) \<noteq> Inr () \<and>
   fst (initializeFromSnapshot (demo_snapshot\<lparr>s_type := [0, 2]\<rparr>) True demo_data) = Inr ()"
  using demo_snapshot_ok initialize_accepts_iff [of demo_data]
  by (simp add: demo_snapshot_def columns_ok_def NOT_LOCAL_def NO_BODY_def less_Suc_eq numeral_2_eq_2)

end
