(* ===== verification/ParticleAccess.thy ===== *)
theory ParticleAccess
  imports ParticleSnapshot
begin

text \<open>
  Access to single particles by tag: every setter of \<open>ParticleData\<close> changes its own field of its own particle and
  nothing else, for all fields through one contract, and positions survive the shift of the origin.
\<close>

section \<open>Access by tag\<close>

lemma update_local_fields [simp]:
  "m_nparticles (update_local f t d) = m_nparticles d" "m_nghosts (update_local f t d) = m_nghosts d"
  "m_max_nparticles (update_local f t d) = m_max_nparticles d" "m_nglobal (update_local f t d) = m_nglobal d"
  "m_arrays_allocated (update_local f t d) = m_arrays_allocated d" "ptl_alt (update_local f t d) = ptl_alt d"
  "m_comm_flags (update_local f t d) = m_comm_flags d" "m_rtag (update_local f t d) = m_rtag d"
  "m_tag_set (update_local f t d) = m_tag_set d" "m_recycled_tags (update_local f t d) = m_recycled_tags d"
  "m_cached_tag_set (update_local f t d) = m_cached_tag_set d"
  "m_invalid_cached_tags (update_local f t d) = m_invalid_cached_tags d"
  "m_origin (update_local f t d) = m_origin d" "m_o_image (update_local f t d) = m_o_image d"
  "m_global_box (update_local f t d) = m_global_box d" "rtag_at s (update_local f t d) = rtag_at s d"
  by (simp_all add: update_local_def Let_def rtag_at_def)

lemma update_local_ok:
  assumes "pd_inv d" "\<And>p. p_tag (f p) = p_tag p"
  shows "pd_inv (update_local f t d)"
proof -
  have "map p_tag (take n (xs[i := f (xs ! i)])) = map p_tag (take n xs)" for n i xs
    by (auto simp: list_eq_iff_nth_eq) (metis assms(2) nth_list_update_eq nth_list_update_neq)
  then have "local_tags (update_local f t d) = local_tags d"
    by (simp add: local_tags_def update_local_def Let_def)
  moreover have "length (ptl (update_local f t d)) = length (ptl d)"
    by (simp add: update_local_def Let_def)
  ultimately show ?thesis
    using assms(1) by (simp add: pd_inv_def pd_ok_def arrays_ok_def all_local_def)
qed

lemma tag_particle_update:
  assumes "pd_inv d" "s \<in> set (m_tag_set d)" "t \<in> set (m_tag_set d)"
  shows "tag_particle (update_local f t d) s = (if s = t then f (tag_particle d t) else tag_particle d s)"
proof -
  note l = pd_inv_local [OF assms(1,2)] pd_inv_local [OF assms(1,3)]
  have len: "m_nparticles d \<le> length (ptl d)"
    using assms(1) by (simp add: pd_inv_def pd_ok_def arrays_ok_def)
  have "rtag_at s d = rtag_at t d \<longleftrightarrow> s = t" using l(3,6) by metis
  then show ?thesis
    using l(2,5) len by (auto simp: tag_particle_def) (auto simp: update_local_def Let_def getRTag_def nth_list_update)
qed

lemma local_value_active:
  "pd_inv d \<Longrightarrow> t \<in> set (m_tag_set d) \<Longrightarrow> local_value f dflt t d = f (tag_particle d t)"
  using pd_inv_local(2) [of d t] by (simp add: local_value_def Let_def getRTag_def tag_particle_def)

text \<open>One field of the particle record with its accessors.\<close>

locale particle_field =
  fixes get :: "pdata_element \<Rightarrow> 'v" and put :: "'v \<Rightarrow> pdata_element \<Rightarrow> pdata_element" and dflt :: 'v
  assumes get_put: "get (put v p) = v"
    and tag_put: "p_tag (put v p) = p_tag p"
begin

lemma set_inv: "pd_inv d \<Longrightarrow> pd_inv (update_local (put v) t d)"
  by (rule update_local_ok) (simp_all add: tag_put)

lemma set_get:
  assumes "pd_inv d" "s \<in> set (m_tag_set d)" "t \<in> set (m_tag_set d)"
  shows "local_value get dflt s (update_local (put v) t d) = (if s = t then v else local_value get dflt s d)"
  using local_value_active [OF set_inv [OF assms(1)], of s v t get dflt] local_value_active [OF assms(1,2), of get dflt]
    tag_particle_update [OF assms] assms(2)
  by (simp add: get_put)

lemma set_other:
  assumes "pd_inv d" "s \<in> set (m_tag_set d)" "t \<in> set (m_tag_set d)" "\<And>p. h (put v p) = h p"
  shows "local_value h e s (update_local (put v) t d) = local_value h e s d"
  using local_value_active [OF set_inv [OF assms(1)], of s v t h e] local_value_active [OF assms(1,2), of h e]
    tag_particle_update [OF assms(1-3), of "put v"] assms(2,4)
  by simp

end

interpretation vel: particle_field p_vel "\<lambda>v p. p\<lparr>p_vel := v\<rparr>" 0 by unfold_locales simp_all

interpretation mass: particle_field p_mass "\<lambda>v p. p\<lparr>p_mass := v\<rparr>" 0 by unfold_locales simp_all

interpretation charge: particle_field p_charge "\<lambda>v p. p\<lparr>p_charge := v\<rparr>" 0 by unfold_locales simp_all

interpretation diameter: particle_field p_diameter "\<lambda>v p. p\<lparr>p_diameter := v\<rparr>" 0 by unfold_locales simp_all

interpretation body: particle_field p_body "\<lambda>v p. p\<lparr>p_body := v\<rparr>" 0 by unfold_locales simp_all

interpretation ptype: particle_field p_type "\<lambda>v p. p\<lparr>p_type := v\<rparr>" 0 by unfold_locales simp_all

interpretation orientation: particle_field p_orientation "\<lambda>v p. p\<lparr>p_orientation := v\<rparr>" zero4
  by unfold_locales simp_all

interpretation angmom: particle_field p_angmom "\<lambda>v p. p\<lparr>p_angmom := v\<rparr>" zero4 by unfold_locales simp_all

interpretation inertia: particle_field p_inertia "\<lambda>v p. p\<lparr>p_inertia := v\<rparr>" 0 by unfold_locales simp_all

interpretation pos_image: particle_field "\<lambda>p. (p_pos p, p_image p)"
    "\<lambda>w p. p\<lparr>p_pos := fst w, p_image := snd w\<rparr>" "(0, 0)"
  by unfold_locales simp_all

text \<open>Setting a position wraps it relative to the shifted origin, getting it undoes the shift and wraps again.\<close>

lemma fraction_add:
  "makeFraction b (v + u) 0 = makeFraction b v 0 + (makeFraction b u 0 - makeFraction b 0 0)"
  unfolding makeFraction_0 by (simp add: vec_defs) (simp add: algebra_simps)

lemma shift_add: "shift b (v + u) n - u = shift b v n"
  by (simp add: shift_lattice vec_defs vec3.expand)

lemma fraction_origin:
  assumes "box_ok b" "centred b" "m_periodic b = Vec3 True True True"
  shows "makeFraction b 0 0 = Vec3 (1 / 2) (1 / 2) (1 / 2)"
proof -
  have half: "- (- (L / 2)) * (1 / L) = 1 / 2" if "0 < L" for L :: real using that by simp
  show ?thesis
    unfolding makeFraction_0
    using centred_half [OF assms(1,2)] assms(3) box_okD(1-6) [OF assms(1)]
    by (simp add: zero_vec3_def half)
qed

lemma wrap_unshift:
  assumes box: "box_ok b" "centred b" "m_periodic b = Vec3 True True True"
    and unit: "in_unit b pos" "in_unit b origin"
  shows "fst (wrap b 0 (fst (wrap b 0 (pos + origin) i) - origin) j) = pos"
proof -
  define f where "f = makeFraction b pos 0"
  define g where "g = f + (makeFraction b origin 0 - makeFraction b 0 0)"
  define n where "n = Vec3 (wrap_amount True (1 \<le> vx g) (vx g < 0) 0) (wrap_amount True (1 \<le> vy g) (vy g < 0) 0)
    (wrap_amount True (1 \<le> vz g) (vz g < 0) 0)"
  have z: "vx (0 :: int3) = 0" "vy (0 :: int3) = 0" "vz (0 :: int3) = 0" by (simp_all add: zero_vec3_def)
  have "fst (wrap b 0 (pos + origin) i) = shift b (pos + origin) (- n)"
    unfolding wrap_frac [OF box(1,2)] fraction_add by (simp add: n_def g_def f_def box(3) z Let_def)
  then have one: "fst (wrap b 0 (pos + origin) i) - origin = shift b pos (- n)" by (simp add: shift_add)
  have "makeFraction b (shift b pos (- n)) 0 = f - Vec3 (of_int (vx n)) (of_int (vy n)) (of_int (vz n))"
    unfolding fraction_shift [OF box(1)] by (simp add: f_def vec_defs)
  moreover have "0 \<le> vx f \<and> vx f < 1" "0 \<le> vy f \<and> vy f < 1" "0 \<le> vz f \<and> vz f < 1"
    using unit(1) by (auto simp: in_unit_def f_def Let_def)
  ultimately have two: "fst (wrap b 0 (shift b pos (- n)) j) = shift b (shift b pos (- n)) n"
    unfolding wrap_frac [OF box(1,2)]
    by (simp add: Let_def z box(3) minus_vec3_def) (auto simp: n_def wrap_amount_def uminus_vec3_def)
  show ?thesis unfolding one two shift_shift by simp
qed

lemma wrap_pos_image: "fst (wrap b fl w i) = fst (wrap b fl w j)"
  by (simp add: wrap_def wrap_x_def wrap_y_def wrap_z_def Let_def split: prod.splits)

section \<open>Properties\<close>

lemmas accessor_defs = getVelocity_def setVelocity_def getMass_def setMass_def getCharge_def setCharge_def
  getDiameter_def setDiameter_def getBody_def setBody_def getOrientation_def setOrientation_def
  getAngularMomentum_def setAngularMomentum_def getMomentsOfInertia_def setMomentsOfInertia_def getType_def

text \<open>A state with the two particles of the example snapshot.\<close>

definition demo_loaded :: particle_data where
  "demo_loaded = snd (initializeFromSnapshot demo_snapshot False demo_data)"

lemma demo_loaded_inv: "pd_inv demo_loaded" "m_tag_set demo_loaded = [0, 1]" "m_global_box demo_loaded = demo_box"
  "m_origin demo_loaded = 0"
proof -
  note I = initialize_result [OF demo_snapshot_ok(1,2) disjI2 [OF demo_snapshot_ok(4)] demo_snapshot_ok(3), where ign = False]
  show "pd_inv demo_loaded" unfolding demo_loaded_def by (rule I(1))
  have "loaded demo_snapshot False (s_size demo_snapshot) = [0, 1]"
    by (simp add: loaded_def demo_snapshot_def numeral_2_eq_2)
  then show "m_tag_set demo_loaded = [0, 1]" using I(2) by (simp add: demo_loaded_def numeral_2_eq_2)
  show "m_global_box demo_loaded = demo_box" "m_origin demo_loaded = 0" using I(8,10)
    by (simp_all add: demo_loaded_def demo_data_def setGlobalBox_def emit_def)
qed

lemma setType_get:
  assumes "pd_inv d" "s \<in> set (m_tag_set d)" "t \<in> set (m_tag_set d)"
  shows "getType s (setType t ty d) = (if s = t then ty else getType s d)"
proof -
  have n: "local_value f x u (notifyParticleSort e) = local_value f x u e" for f x u e
    by (simp add: local_value_def getRTag_def rtag_at_def notify_defs emit_def Let_def)
  have "getType s (setType t ty d) = local_value p_type 0 s (update_local (\<lambda>p. p\<lparr>p_type := ty\<rparr>) t d)"
    by (simp add: setType_def getType_def Let_def n)
  then show ?thesis unfolding getType_def using ptype.set_get [OF assms, of ty] by (simp only:)
qed

text \<open>The image is stored relative to the shifted origin; reading it wraps the position that is stored with it.\<close>

lemma setImage_get:
  assumes "pd_inv d" "s \<in> set (m_tag_set d)" "t \<in> set (m_tag_set d)"
  shows "pd_getImage s (setImage t img d) = (if s = t then snd (wrap (m_global_box d) 0 (p_pos (tag_particle d t) - m_origin d) img)
    else pd_getImage s d)" "getPosition s (setImage t img d) = getPosition s d"
proof -
  let ?f = "\<lambda>p. p\<lparr>p_image := img + m_o_image d\<rparr>"
  let ?d = "update_local ?f t d"
  have inv: "pd_inv ?d" by (rule update_local_ok [OF assms(1)]) simp
  have s: "s \<in> set (m_tag_set ?d)" using assms(2) by simp
  note v = local_value_active [OF inv s] local_value_active [OF assms(1,2)] and u = tag_particle_update [OF assms, of ?f]
  show "pd_getImage s (setImage t img d) = (if s = t then snd (wrap (m_global_box d) 0 (p_pos (tag_particle d t) - m_origin d) img)
    else pd_getImage s d)"
    unfolding pd_getImage_def setImage_def Let_def v u by simp
  show "getPosition s (setImage t img d) = getPosition s d"
    unfolding getPosition_def setImage_def Let_def v u
    using wrap_pos_image [of "m_global_box d" 0 "p_pos (tag_particle d t) - m_origin d" img "p_image (tag_particle d t) - m_o_image d"]
    by simp
qed

text \<open>C21: For each of velocity, mass, charge, diameter, body, type, orientation, angular momentum and moments of inertia, a
  getter after a setter returns the new value for the particle that was set and the old value for every other particle, wherever
  the particles are stored.  The image read after it has been set is the one that was set, corrected by the wrapping of the
  position relative to the origin; the images of the other particles and all positions stay.\<close>

theorem accessors_roundtrip:
  assumes "pd_inv d" "s \<in> set (m_tag_set d)" "t \<in> set (m_tag_set d)"
  shows "getVelocity s (setVelocity t v d) = (if s = t then v else getVelocity s d) \<and>
    getMass s (setMass t m d) = (if s = t then m else getMass s d) \<and>
    getCharge s (setCharge t c d) = (if s = t then c else getCharge s d) \<and>
    getDiameter s (setDiameter t a d) = (if s = t then a else getDiameter s d) \<and>
    getBody s (setBody t b d) = (if s = t then b else getBody s d) \<and>
    getType s (setType t ty d) = (if s = t then ty else getType s d) \<and>
    getOrientation s (setOrientation t q d) = (if s = t then q else getOrientation s d) \<and>
    getAngularMomentum s (setAngularMomentum t l d) = (if s = t then l else getAngularMomentum s d) \<and>
    getMomentsOfInertia s (setMomentsOfInertia t i d) = (if s = t then i else getMomentsOfInertia s d) \<and>
    pd_getImage s (setImage t img d) = (if s = t then snd (wrap (m_global_box d) 0 (p_pos (tag_particle d t) - m_origin d) img)
      else pd_getImage s d) \<and>
    getPosition s (setImage t img d) = getPosition s d"
proof -
  have "getVelocity s (setVelocity t v d) = (if s = t then v else getVelocity s d) \<and>
    getMass s (setMass t m d) = (if s = t then m else getMass s d) \<and>
    getCharge s (setCharge t c d) = (if s = t then c else getCharge s d) \<and>
    getDiameter s (setDiameter t a d) = (if s = t then a else getDiameter s d) \<and>
    getBody s (setBody t b d) = (if s = t then b else getBody s d) \<and>
    getOrientation s (setOrientation t q d) = (if s = t then q else getOrientation s d) \<and>
    getAngularMomentum s (setAngularMomentum t l d) = (if s = t then l else getAngularMomentum s d) \<and>
    getMomentsOfInertia s (setMomentsOfInertia t i d) = (if s = t then i else getMomentsOfInertia s d)"
    unfolding accessor_defs
    using vel.set_get [OF assms] mass.set_get [OF assms] charge.set_get [OF assms] diameter.set_get [OF assms]
      body.set_get [OF assms] orientation.set_get [OF assms] angmom.set_get [OF assms] inertia.set_get [OF assms]
    by blast
  then show ?thesis using setType_get [OF assms] setImage_get [OF assms] by blast
qed

theorem accessors_roundtrip_witness: "getMass 1 (setMass 1 7 demo_loaded) = 7 \<and> getMass 0 (setMass 1 7 demo_loaded) = getMass 0 demo_loaded \<and>
    getType 0 (setType 0 1 demo_loaded) = 1 \<and> pd_getImage 0 (setImage 1 (Vec3 1 2 3) demo_loaded) = pd_getImage 0 demo_loaded"
  using accessors_roundtrip [OF demo_loaded_inv(1), of 1 1 _ 7] accessors_roundtrip [OF demo_loaded_inv(1), of 0 1 _ 7]
    accessors_roundtrip [OF demo_loaded_inv(1), of 0 0]
  by (simp add: demo_loaded_inv(2))

text \<open>C22: With a shifted origin, the position read after it has been set is the position that was set, if it lies in
  the box and the origin does.\<close>

theorem set_get_position:
  assumes "pd_inv d" "t \<in> set (m_tag_set d)"
    and "box_ok (m_global_box d)" "centred (m_global_box d)" "m_periodic (m_global_box d) = Vec3 True True True"
    and "in_unit (m_global_box d) x" "in_unit (m_global_box d) (m_origin d)"
  shows "getPosition t (setPosition t x d) = x"
proof -
  let ?w = "wrap (m_global_box d) 0 (x + m_origin d) (local_value p_image 0 t d)"
  let ?d = "setPosition t x d"
  have d: "?d = update_local (\<lambda>p. p\<lparr>p_pos := fst ?w, p_image := snd ?w\<rparr>) t d" by (simp add: setPosition_def Let_def)
  have inv: "pd_inv ?d" unfolding d by (rule pos_image.set_inv [OF assms(1)])
  have tp: "tag_particle ?d t = (tag_particle d t)\<lparr>p_pos := fst ?w, p_image := snd ?w\<rparr>"
    unfolding d using tag_particle_update [OF assms(1,2,2)] by simp
  have t: "t \<in> set (m_tag_set ?d)" "m_global_box ?d = m_global_box d" "m_origin ?d = m_origin d"
    using assms(2) by (simp_all add: d)
  show ?thesis
    unfolding getPosition_def Let_def local_value_active [OF inv t(1)] tp t(2,3)
    using wrap_unshift [OF assms(3-7)] by simp
qed

theorem set_get_position_witness:
  "getPosition 1 (setPosition 1 (Vec3 2 3 4) (setOrigin (Vec3 1 1 1) 0 demo_loaded)) = Vec3 2 3 4"
proof (rule set_get_position)
  let ?d = "setOrigin (Vec3 1 1 1) 0 demo_loaded"
  show "pd_inv ?d"
    using demo_loaded_inv(1)
    by (simp add: setOrigin_def pd_inv_def pd_ok_def arrays_ok_def local_tags_def all_local_def rtag_at_def)
  have box: "m_global_box ?d = demo_box" "m_origin ?d = Vec3 1 1 1"
    using demo_loaded_inv(3) by (simp_all add: setOrigin_def)
  show "1 \<in> set (m_tag_set ?d)" using demo_loaded_inv(2) by (simp add: setOrigin_def)
  show "box_ok (m_global_box ?d)" "centred (m_global_box ?d)" unfolding box by simp_all
  show "m_periodic (m_global_box ?d) = Vec3 True True True" by (simp add: box demo_box_eq)
  show "in_unit (m_global_box ?d) (Vec3 2 3 4)" "in_unit (m_global_box ?d) (m_origin ?d)"
    unfolding box in_unit_def makeFraction_0 by (simp_all add: demo_box_eq Let_def)
qed

end
