(* ===== verification/Autotuner.thy ===== *)
theory Autotuner
  imports HOOMD_Prelude Complex_Main
begin

text \<open>
  Model of \<open>hoomd/Autotuner.h\<close> and \<open>hoomd/Autotuned.h\<close>: the state machine that times a kernel with every
  valid parameter and then keeps the fastest one.  Times are exact numbers; the elapsed time of a kernel and the
  collective operations over MPI are arguments.  The theory shows that on all ranks the current parameter is a valid one in every
  reachable state, and the same one while the ranks are synchronized, and that a scan ends after one round per parameter and sample with the first parameter whose
  summary time is minimal.
\<close>

section \<open>Model\<close>

datatype at_state = INACTIVE | IDLE | SCANNING

datatype at_mode = Mode_median | Mode_avg | Mode_max

record autotuner =
  m_name :: string
  n_dimensions :: nat
  m_n_samples :: nat
  m_parameters :: "nat list list"
  m_state :: at_state
  m_current_sample :: nat
  m_current_element :: nat
  m_current_param :: "nat list"
  m_samples :: "real list list"
  m_sample_center :: "real list"
  m_sync :: bool
  m_mode :: at_mode
  m_optional :: bool

text \<open>The ranks that take part in a synchronized scan: number of ranks, own rank, the samples of a parameter that the
  root gathers from all ranks, and the broadcast of the index from the root.\<close>

record at_env =
  getNRanks :: nat
  at_rank :: nat
  gather_v :: "nat \<Rightarrow> real list \<Rightarrow> real list list"
  bcast_idx :: "nat \<Rightarrow> nat"

definition formatParam :: "nat list \<Rightarrow> string" where
  "formatParam p = ''('' @ concat (map (\<lambda>v. nat_str v @ '','') p) @ '')''"

subsection \<open>Ranges\<close>

definition makeBlockSizeRange :: "nat \<Rightarrow> nat \<Rightarrow> nat list" where
  "makeBlockSizeRange warpSize maxThreadsPerBlock = (let start = warpSize; step = start; end = maxThreadsPerBlock;
     diff = nat ((int end - int start) mod 2 ^ 32)
     in map (\<lambda>i. start + i * step) [0..<diff div step + 1])"

function pow2_from :: "nat \<Rightarrow> nat \<Rightarrow> nat list" where
  "pow2_from s warp_size = (if s = 0 \<or> warp_size < s then [] else s # pow2_from (s * 2) warp_size)"
  by pat_completeness auto
termination
  by (relation "measure (\<lambda>(s, w). w + 1 - s)") auto

declare pow2_from.simps [simp del]

definition getTppListPow2 :: "nat \<Rightarrow> int \<Rightarrow> nat list" where
  "getTppListPow2 warpSize force_size =
     (let warp_size = (if force_size > 0 then nat force_size else warpSize) in pow2_from 4 warp_size @ [1, 2])"

subsection \<open>Construction\<close>

text \<open>The parameters that the recursion over the dimensions appends: \<open>d\<close> is the current dimension, the last
  argument the ranges from there on.\<close>

fun initializeParameters :: "(nat list \<Rightarrow> bool) \<Rightarrow> nat list \<Rightarrow> nat \<Rightarrow> nat list list \<Rightarrow> nat list list" where
  "initializeParameters is_valid parameter d [] = []"
| "initializeParameters is_valid parameter d [r] =
     concat (map (\<lambda>v. if is_valid (parameter[d := v]) then [parameter[d := v]] else []) r)"
| "initializeParameters is_valid parameter d (r # r' # rs) =
     concat (map (\<lambda>v. initializeParameters is_valid (parameter[d := v]) (d + 1) (r' # rs)) r)"

definition startScan :: "autotuner \<Rightarrow> autotuner" where
  "startScan a = a\<lparr>m_current_element := 0, m_current_sample := 0, m_current_param := m_parameters a ! 0,
     m_state := (if m_optional a then INACTIVE else SCANNING)\<rparr>"

definition Autotuner :: "nat \<Rightarrow> nat list list \<Rightarrow> string \<Rightarrow> nat \<Rightarrow> bool \<Rightarrow> (nat list \<Rightarrow> bool) \<Rightarrow> exn + autotuner" where
  "Autotuner n_dims dimension_ranges name n_samples optional is_parameter_valid =
    (if length dimension_ranges \<noteq> n_dims then
       Inl (Invalid_argument (''Autotuner '' @ name @ '' given invalid number of dimensions.''))
     else if list_ex (\<lambda>r. length r = 0) dimension_ranges then
       Inl (Invalid_argument (''Autotuner '' @ name @ '' given a dimension with no values.''))
     else let parameters = initializeParameters is_parameter_valid (replicate n_dims 0) 0 dimension_ranges in
     if length parameters = 0 then Inl (Invalid_argument (''Autotuner '' @ name @ '' has no valid parameters.''))
     else let n = (if even n_samples then n_samples + 1 else n_samples) in
       Inr (startScan \<lparr>m_name = name, n_dimensions = n_dims, m_n_samples = n, m_parameters = parameters,
         m_state = SCANNING, m_current_sample = 0, m_current_element = 0, m_current_param = [],
         m_samples = replicate (length parameters) (replicate n 0), m_sample_center = replicate (length parameters) 0,
         m_sync = False, m_mode = Mode_median, m_optional = optional\<rparr>))"

subsection \<open>Choice of the best parameter\<close>

definition FLT_MIN :: real where
  "FLT_MIN = 1 / 2 ^ 126"

text \<open>The summary of the samples of one parameter.\<close>

definition sample_center :: "at_mode \<Rightarrow> real list \<Rightarrow> real" where
  "sample_center mode v = (case mode of
     Mode_avg \<Rightarrow> foldl (+) 0 v / real (length v)
   | Mode_max \<Rightarrow> foldl (\<lambda>m x. if x > m then x else m) (- FLT_MIN) v
   | Mode_median \<Rightarrow> sort v ! (length v div 2))"

definition min_index :: "real list \<Rightarrow> nat" where
  "min_index c = snd (foldl (\<lambda>(min_value, min_idx) i. if c ! i < min_value then (c ! i, i) else (min_value, min_idx))
     (c ! 0, 0) [1..<length c])"

definition computeOptimalParameterIndex :: "at_env \<Rightarrow> autotuner \<Rightarrow> nat \<times> autotuner" where
  "computeOptimalParameterIndex env a = (let
     nranks = (if m_sync a then getNRanks env else 0);
     is_root = (if m_sync a then at_rank env = 0 else True);
     v = (\<lambda>i. if m_sync a \<and> nranks \<noteq> 0 \<and> is_root then concat (gather_v env i (m_samples a ! i)) else m_samples a ! i);
     a = (if is_root then a\<lparr>m_sample_center := map (\<lambda>i. sample_center (m_mode a) (v i)) [0..<length (m_parameters a)]\<rparr>
          else a);
     min_idx = (if is_root then min_index (m_sample_center a) else 0)
     in (if m_sync a \<and> nranks \<noteq> 0 then bcast_idx env min_idx else min_idx, a))"

subsection \<open>State machine\<close>

definition at_begin :: "autotuner \<Rightarrow> autotuner" where
  "at_begin a = (if m_state a = INACTIVE then a\<lparr>m_state := SCANNING\<rparr> else a)"

text \<open>After the kernel; \<open>t\<close> is the time between the two events.\<close>

definition at_end :: "at_env \<Rightarrow> real \<Rightarrow> autotuner \<Rightarrow> autotuner" where
  "at_end env t a =
    (if m_state a = SCANNING then
       let a = a\<lparr>m_samples := (m_samples a)[m_current_element a := (m_samples a ! m_current_element a)[m_current_sample a := t]]\<rparr>;
           a = a\<lparr>m_current_element := m_current_element a + 1\<rparr> in
       if m_current_element a \<ge> length (m_parameters a) then
         let a = a\<lparr>m_current_sample := m_current_sample a + 1, m_current_element := 0\<rparr> in
         if m_current_sample a \<ge> m_n_samples a then
           let a = a\<lparr>m_state := IDLE, m_current_sample := 0\<rparr>;
               (i, a) = computeOptimalParameterIndex env a
           in a\<lparr>m_current_param := m_parameters a ! i\<rparr>
         else a\<lparr>m_current_param := m_parameters a ! m_current_element a\<rparr>
       else a\<lparr>m_current_param := m_parameters a ! m_current_element a\<rparr>
     else a)"

definition getParam :: "autotuner \<Rightarrow> nat list" where
  "getParam a = m_current_param a"

definition isComplete :: "autotuner \<Rightarrow> bool" where
  "isComplete a \<longleftrightarrow> m_state a \<noteq> SCANNING"

definition setParameterPython :: "nat list \<Rightarrow> autotuner \<Rightarrow> (unit, autotuner) outcome" where
  "setParameterPython parameter a =
    (if length parameter \<noteq> n_dimensions a then
       (Inl (Runtime_error (''Error setting autotuner parameter '' @ m_name a @ ''. Got '' @ nat_str (length parameter)
          @ '' parameters, expected '' @ nat_str (n_dimensions a) @ ''.'')), a)
     else if parameter \<notin> set (m_parameters a) then
       (Inl (Runtime_error (''Error setting autotuner parameter '' @ m_name a @ ''. '' @ formatParam parameter
          @ '' is not a valid parameter.'')), a)
     else (Inr (), a\<lparr>m_current_param := parameter, m_state := IDLE, m_current_sample := 0\<rparr>))"



subsection \<open>Objects with several autotuners\<close>

definition getAutotunerParameters :: "autotuner list \<Rightarrow> (string \<rightharpoonup> nat list)" where
  "getAutotunerParameters ts = foldl (\<lambda>m a. m(m_name a \<mapsto> getParam a)) Map.empty ts"

text \<open>The items of the dictionary in order; the first tuner with the name of the item is changed.\<close>

fun setAutotunerParameters :: "(string \<times> nat list) list \<Rightarrow> autotuner list \<Rightarrow> (unit, autotuner list) outcome" where
  "setAutotunerParameters [] ts = (Inr (), ts)"
| "setAutotunerParameters ((name, p) # items) ts =
    (let i = length (takeWhile (\<lambda>a. m_name a \<noteq> name) ts) in
       if i = length ts then
         (Inl (Runtime_error (''Error setting autotuner parameters. Unexpected key: '' @ name)), ts)
       else (case setParameterPython p (ts ! i) of
         (Inl e, a) \<Rightarrow> (Inl e, ts[i := a])
       | (Inr _, a) \<Rightarrow> setAutotunerParameters items (ts[i := a])))"

definition startAutotuning :: "autotuner list \<Rightarrow> autotuner list" where
  "startAutotuning ts = map startScan ts"

definition isAutotuningComplete :: "autotuner list \<Rightarrow> bool" where
  "isAutotuningComplete ts = list_all isComplete ts"

section \<open>Parameters\<close>

lemma makeBlockSizeRange_set:
  assumes "0 < w" "w \<le> m" "m < 2 ^ 32"
  shows "set (makeBlockSizeRange w m) = {b. 0 < b \<and> b \<le> m \<and> w dvd b}"
proof -
  have "(int m - int w) mod 2 ^ 32 = int (m - w)" using assms by (simp add: of_nat_diff)
  then have r: "makeBlockSizeRange w m = map (\<lambda>i. w + i * w) [0..<(m - w) div w + 1]"
    by (simp only: makeBlockSizeRange_def Let_def nat_int)
  have le: "w + i * w \<le> m \<longleftrightarrow> i < (m - w) div w + 1" for i
    using assms(1,2) by (simp add: less_Suc_eq_le less_eq_div_iff_mult_less_eq le_diff_conv2 add.commute)
  have mult: "0 < b \<and> w dvd b \<longleftrightarrow> (\<exists>i. b = w + i * w)" for b
  proof
    assume "0 < b \<and> w dvd b"
    then obtain c where "b = w * c" "c \<noteq> 0" by auto
    then show "\<exists>i. b = w + i * w" by (intro exI [of _ "c - 1"]) (cases c, simp_all add: mult.commute)
  qed (use assms in auto)
  have "{b. 0 < b \<and> b \<le> m \<and> w dvd b} = {b. \<exists>i. b = w + i * w \<and> i < (m - w) div w + 1}"
    using le mult by (metis (no_types, lifting))
  then show ?thesis unfolding r by (auto simp del: upt_Suc)
qed


section \<open>Invariant\<close>

definition at_ok :: "autotuner \<Rightarrow> bool" where
  "at_ok a \<longleftrightarrow> m_parameters a \<noteq> [] \<and> (\<forall>p\<in>set (m_parameters a). length p = n_dimensions a) \<and> odd (m_n_samples a) \<and>
     length (m_samples a) = length (m_parameters a) \<and> (\<forall>v\<in>set (m_samples a). length v = m_n_samples a) \<and>
     length (m_sample_center a) = length (m_parameters a) \<and> m_current_element a < length (m_parameters a) \<and>
     m_current_sample a < m_n_samples a \<and> m_current_param a \<in> set (m_parameters a) \<and>
     (m_state a \<noteq> IDLE \<longrightarrow> m_current_param a = m_parameters a ! m_current_element a)"

lemma at_okD:
  assumes "at_ok a"
  shows "0 < length (m_parameters a)" "odd (m_n_samples a)" "length (m_samples a) = length (m_parameters a)"
    "\<forall>v\<in>set (m_samples a). length v = m_n_samples a" "length (m_sample_center a) = length (m_parameters a)"
    "m_current_element a < length (m_parameters a)" "m_current_sample a < m_n_samples a"
    "m_current_param a \<in> set (m_parameters a)"
    "m_state a \<noteq> IDLE \<Longrightarrow> m_current_param a = m_parameters a ! m_current_element a"
  using assms by (simp_all add: at_ok_def)

lemma startScan_ok: "at_ok a \<Longrightarrow> at_ok (startScan a)"
  by (auto simp: at_ok_def startScan_def)


text \<open>The index of the first smallest entry.\<close>

lemma min_index_upto:
  fixes c :: "real list"
  defines "f \<equiv> \<lambda>n. foldl (\<lambda>(min_value, min_idx) i. if c ! i < min_value then (c ! i, i) else (min_value, min_idx))
     (c ! 0, 0) [1..<n]"
  assumes "0 < n"
  shows "snd (f n) < n \<and> fst (f n) = c ! snd (f n) \<and> (\<forall>i<n. c ! snd (f n) \<le> c ! i) \<and> (\<forall>i< snd (f n). c ! snd (f n) < c ! i)"
  using assms(2)
proof (induction n rule: nat_induct_non_zero)
  case 1
  then show ?case by (simp add: f_def)
next
  case (Suc n)
  obtain v k where fn: "f n = (v, k)" by fastforce
  have "f (Suc n) = (if c ! n < v then (c ! n, n) else (v, k))"
    using Suc.hyps fn by (simp add: f_def)
  moreover have "k < n" "v = c ! k" "\<forall>i<n. c ! k \<le> c ! i" "\<forall>i<k. c ! k < c ! i"
    using Suc.IH fn by simp_all
  ultimately show ?case by (force simp: less_Suc_eq)
qed

lemma min_index:
  assumes "c \<noteq> []"
  shows "min_index c < length c" "i < length c \<Longrightarrow> c ! min_index c \<le> c ! i" "i < min_index c \<Longrightarrow> c ! min_index c < c ! i"
  using min_index_upto [of "length c" c] assms by (simp_all add: min_index_def)



lemma sample_rows:
  assumes "\<forall>v\<in>set m. length v = n" "e < length m"
  shows "\<forall>v\<in>set (m[e := (m ! e)[s := t]]). length v = n"
proof
  fix v assume "v \<in> set (m[e := (m ! e)[s := t]])"
  then have "v \<in> insert ((m ! e)[s := t]) (set m)" using set_update_subset_insert by fast
  then show "length v = n" using assms by auto
qed




section \<open>A scan\<close>

definition at_round :: "at_env \<Rightarrow> autotuner \<Rightarrow> real \<Rightarrow> autotuner" where
  "at_round env a t = at_end env t (at_begin a)"

text \<open>The table of the times: sample \<open>s\<close> of parameter \<open>e\<close> is the time of round \<open>s * P + e\<close>.\<close>

definition sample_table :: "nat \<Rightarrow> nat \<Rightarrow> real list \<Rightarrow> real list list" where
  "sample_table P n ts = map (\<lambda>e. map (\<lambda>s. ts ! (s * P + e)) [0..<n]) [0..<P]"

lemma div_mod_Suc:
  fixes k P :: nat
  assumes "0 < P"
  shows "Suc (k mod P) < P \<Longrightarrow> Suc k mod P = Suc (k mod P) \<and> Suc k div P = k div P"
    "Suc (k mod P) \<ge> P \<Longrightarrow> Suc k mod P = 0 \<and> Suc k div P = Suc (k div P)"
  using assms mod_less_divisor [OF assms, of k] by (auto simp: mod_Suc div_Suc simp del: mod_less_divisor)

text \<open>After \<open>k\<close> rounds of an unfinished scan.\<close>

definition scan_at :: "autotuner \<Rightarrow> real list \<Rightarrow> autotuner \<Rightarrow> bool" where
  "scan_at a0 ts a \<longleftrightarrow> at_ok a \<and> m_parameters a = m_parameters a0 \<and> m_n_samples a = m_n_samples a0 \<and>
     m_sync a = m_sync a0 \<and> m_mode a = m_mode a0 \<and> m_state a \<noteq> IDLE \<and> (ts \<noteq> [] \<longrightarrow> m_state a = SCANNING) \<and>
     m_current_element a = length ts mod length (m_parameters a) \<and>
     m_current_sample a = length ts div length (m_parameters a) \<and>
     (\<forall>j<length ts. m_samples a ! (j mod length (m_parameters a)) ! (j div length (m_parameters a)) = ts ! j)"

lemma round_sample:
  fixes t :: real
  assumes "scan_at a0 ts a"
  defines "P \<equiv> length (m_parameters a)"
  defines "m \<equiv> (m_samples a)[m_current_element a := (m_samples a ! m_current_element a)[m_current_sample a := t]]"
  shows "\<forall>j<length (ts @ [t]). m ! (j mod P) ! (j div P) = (ts @ [t]) ! j"
proof (intro allI impI)
  fix j assume j: "j < length (ts @ [t])"
  have ok: "at_ok a" and el: "m_current_element a = length ts mod P" "m_current_sample a = length ts div P"
    and old: "\<And>i. i < length ts \<Longrightarrow> m_samples a ! (i mod P) ! (i div P) = ts ! i"
    using assms(1) unfolding scan_at_def P_def by blast+
  note D = at_okD [OF ok]
  have row: "m_current_sample a < length (m_samples a ! m_current_element a)"
    using D(3,4,6,7) by (simp add: nth_mem)
  show "m ! (j mod P) ! (j div P) = (ts @ [t]) ! j"
  proof (cases "j = length ts")
    case True
    then show ?thesis using row D(3,6) el by (simp add: m_def)
  next
    case False
    then have jl: "j < length ts" using j by simp
    have "j mod P \<noteq> length ts mod P \<or> j div P \<noteq> length ts div P"
      using False by (metis div_mult_mod_eq)
    then show ?thesis
      using old [OF jl] jl D(3,6) el by (auto simp: m_def nth_append nth_list_update)
  qed
qed

lemma at_begin_scanning: "m_state a \<noteq> IDLE \<Longrightarrow> at_begin a = a\<lparr>m_state := SCANNING\<rparr>"
  by (cases "m_state a") (simp_all add: at_begin_def)

lemma scan_step:
  assumes "scan_at a0 ts a" "Suc (length ts) < length (m_parameters a0) * m_n_samples a0"
  shows "scan_at a0 (ts @ [t]) (at_round env a t)"
proof -
  let ?P = "length (m_parameters a0)" and ?k = "length ts"
  have ok: "at_ok a" and same: "m_parameters a = m_parameters a0" "m_n_samples a = m_n_samples a0" "m_sync a = m_sync a0"
    "m_mode a = m_mode a0" and st: "m_state a \<noteq> IDLE"
    and el: "m_current_element a = ?k mod ?P" "m_current_sample a = ?k div ?P"
    using assms(1) by (simp_all add: scan_at_def)
  note D = at_okD [OF ok] and smp = round_sample [OF assms(1), of t]
  have P: "0 < ?P" using D(1) same(1) by simp
  let ?m = "(m_samples a)[m_current_element a := (m_samples a ! m_current_element a)[m_current_sample a := t]]"
  have rows: "\<forall>v\<in>set ?m. length v = m_n_samples a" "length ?m = length (m_parameters a)"
    using sample_rows [OF D(4)] D(3,6) by simp_all
  have lt: "Suc ?k div ?P < m_n_samples a0" using assms(2) P by (simp add: less_mult_imp_div_less mult.commute)
  define b where "b = a\<lparr>m_state := SCANNING, m_samples := ?m, m_current_element := Suc ?k mod ?P,
    m_current_sample := Suc ?k div ?P, m_current_param := m_parameters a0 ! (Suc ?k mod ?P)\<rparr>"
  have r: "at_round env a t = b"
  proof (cases "Suc (?k mod ?P) < ?P")
    case True
    then show ?thesis
      unfolding at_round_def at_begin_scanning [OF st] b_def
      using div_mod_Suc(1) [OF P, of ?k] el same by (simp add: at_end_def Let_def)
  next
    case False
    then show ?thesis
      unfolding at_round_def at_begin_scanning [OF st] b_def
      using div_mod_Suc(2) [OF P, of ?k] el same lt by (simp add: at_end_def Let_def)
  qed
  have "at_ok b" using ok rows P lt by (simp add: at_ok_def b_def same)
  then show ?thesis
    unfolding r scan_at_def using same smp by (simp add: b_def)
qed

lemma scan_prefix:
  assumes "at_ok a" "length ts < length (m_parameters a) * m_n_samples a"
  shows "scan_at a ts (foldl (at_round env) (startScan a) ts)"
  using assms(2)
proof (induction ts rule: rev_induct)
  case Nil
  have "at_ok (startScan a)" using startScan_ok [OF assms(1)] .
  then show ?case by (simp add: scan_at_def) (simp add: startScan_def)
next
  case (snoc t ts)
  then show ?case using scan_step [of a ts] by simp
qed

lemma scan_last:
  fixes t :: real
  assumes "scan_at a0 ts a" "Suc (length ts) = length (m_parameters a0) * m_n_samples a0" "\<not> m_sync a0"
  defines "tab \<equiv> sample_table (length (m_parameters a0)) (m_n_samples a0) (ts @ [t])"
  shows "m_state (at_round env a t) = IDLE" "m_samples (at_round env a t) = tab"
    "m_current_param (at_round env a t) = m_parameters a0 ! min_index (map (sample_center (m_mode a0)) tab)"
proof -
  let ?P = "length (m_parameters a0)" and ?k = "length ts" and ?n = "m_n_samples a0"
  have ok: "at_ok a" and same: "m_parameters a = m_parameters a0" "m_n_samples a = m_n_samples a0" "m_sync a = m_sync a0"
    "m_mode a = m_mode a0" and st: "m_state a \<noteq> IDLE"
    and el: "m_current_element a = ?k mod ?P" "m_current_sample a = ?k div ?P"
    using assms(1) by (simp_all add: scan_at_def)
  note D = at_okD [OF ok] and smp = round_sample [OF assms(1), of t]
  have P: "0 < ?P" using D(1) same(1) by simp
  have n: "0 < ?n" using D(2) same(2) by (simp add: odd_pos)
  let ?m = "(m_samples a)[m_current_element a := (m_samples a ! m_current_element a)[m_current_sample a := t]]"
  have rows: "\<forall>v\<in>set ?m. length v = ?n" "length ?m = ?P"
    using sample_rows [OF D(4)] D(3,6) same by simp_all
  have tab: "?m = tab"
  proof (rule nth_equalityI)
    show "length ?m = length tab" using rows(2) by (simp add: tab_def sample_table_def)
    fix e assume e: "e < length ?m"
    show "?m ! e = tab ! e"
    proof (rule nth_equalityI)
      show "length (?m ! e) = length (tab ! e)"
        using e rows by (simp add: tab_def sample_table_def nth_mem)
      fix s assume "s < length (?m ! e)"
      then have s: "s < ?n" using e rows by (simp add: nth_mem)
      have eP: "e < ?P" using e rows(2) by simp
      have j: "s * ?P + e < length (ts @ [t])"
      proof -
        have "s * ?P + e < Suc s * ?P" using eP by simp
        also have "\<dots> \<le> ?n * ?P" using s by (intro mult_le_mono1) simp
        finally show ?thesis using assms(2) by (simp add: mult.commute)
      qed
      have "?m ! ((s * ?P + e) mod ?P) ! ((s * ?P + e) div ?P) = (ts @ [t]) ! (s * ?P + e)"
        using smp j unfolding same by blast
      moreover have "(s * ?P + e) mod ?P = e" using eP by simp
      moreover have "(s * ?P + e) div ?P = s" by (rule div_nat_eqI) (use eP in simp_all)
      ultimately show "?m ! e ! s = tab ! e ! s"
        using eP s by (simp add: tab_def sample_table_def)
    qed
  qed
  have km: "Suc (?k mod ?P) \<ge> ?P" "Suc (?k div ?P) = ?n"
  proof -
    have "Suc ?k mod ?P = 0" "Suc ?k div ?P = ?n" using assms(2) P by simp_all
    then show "Suc (?k mod ?P) \<ge> ?P" "Suc (?k div ?P) = ?n"
      using div_mod_Suc [OF P, of ?k] by (cases "Suc (?k mod ?P) < ?P"; simp)+
  qed
  define c where "c = a\<lparr>m_state := IDLE, m_samples := tab, m_current_sample := 0, m_current_element := 0,
    m_sample_center := map (sample_center (m_mode a0)) tab\<rparr>"
  have mapc: "map (\<lambda>i. sample_center (m_mode a0) (tab ! i)) [0..<?P] = map (sample_center (m_mode a0)) tab"
    by (rule nth_equalityI) (simp_all add: tab_def sample_table_def)
  have "at_round env a t = c\<lparr>m_current_param := m_parameters a0 ! min_index (map (sample_center (m_mode a0)) tab)\<rparr>"
    unfolding at_round_def at_begin_scanning [OF st] at_end_def
    using km el same assms(3) by (simp add: Let_def computeOptimalParameterIndex_def tab [unfolded el] mapc c_def)
  then show "m_state (at_round env a t) = IDLE" "m_samples (at_round env a t) = tab"
    "m_current_param (at_round env a t) = m_parameters a0 ! min_index (map (sample_center (m_mode a0)) tab)"
    by (simp_all add: c_def)
qed

section \<open>Properties\<close>






















definition demo_env :: at_env where
  "demo_env = \<lparr>getNRanks = 1, at_rank = 0, gather_v = (\<lambda>_ v. [v]), bcast_idx = id\<rparr>"

definition demo_tuner :: autotuner where
  "demo_tuner = projr (Autotuner 2 [[32, 64], [1, 2, 4]] ''kernel'' 2 False (\<lambda>p. p ! 0 * p ! 1 \<le> 128))"




text \<open>C24: A scan that is not synchronized over ranks ends: it is not complete before every parameter has been launched
  \<open>m_n_samples\<close> times, with launch \<open>k\<close> using parameter \<open>k mod P\<close>, and it is complete after the last of
  these launches, when the current parameter is the first one whose summary (median, average or maximum) of its own times
  is minimal.\<close>

theorem scan_completes:
  assumes "at_ok a" "\<not> m_sync a" "length ts = length (m_parameters a) * m_n_samples a"
  shows "isComplete (foldl (at_round env) (startScan a) ts) \<and>
    (\<forall>k<length ts. (k \<noteq> 0 \<longrightarrow> \<not> isComplete (foldl (at_round env) (startScan a) (take k ts))) \<and>
       getParam (foldl (at_round env) (startScan a) (take k ts)) = m_parameters a ! (k mod length (m_parameters a))) \<and>
    (let c = map (sample_center (m_mode a)) (sample_table (length (m_parameters a)) (m_n_samples a) ts);
         best = min_index c
     in getParam (foldl (at_round env) (startScan a) ts) = m_parameters a ! best \<and>
        (\<forall>i<length (m_parameters a). c ! best \<le> c ! i) \<and> (\<forall>i<best. c ! best < c ! i))"
proof -
  let ?P = "length (m_parameters a)" and ?n = "m_n_samples a"
  let ?c = "map (sample_center (m_mode a)) (sample_table ?P ?n ts)"
  have "0 < ?P" "0 < ?n" using at_okD(1,2) [OF assms(1)] by (simp_all add: odd_pos)
  then have "ts \<noteq> []" using assms(3) by auto
  then obtain us t where ts: "ts = us @ [t]" by (metis rev_exhaust)
  have us: "scan_at a us (foldl (at_round env) (startScan a) us)"
    using assms(3) ts by (intro scan_prefix [OF assms(1)]) simp
  note last = scan_last [OF us _ assms(2), where t = t, folded ts]
  have fin: "foldl (at_round env) (startScan a) ts = at_round env (foldl (at_round env) (startScan a) us) t"
    by (simp add: ts)
  have pre: "scan_at a (take k ts) (foldl (at_round env) (startScan a) (take k ts))" if "k < length ts" for k
    using that assms(3) by (intro scan_prefix [OF assms(1)]) simp
  have len: "length ?c = ?P" by (simp add: sample_table_def)
  then have cne: "?c \<noteq> []" using \<open>0 < ?P\<close> by (metis length_greater_0_conv)
  have one: "isComplete (foldl (at_round env) (startScan a) ts)"
    "getParam (foldl (at_round env) (startScan a) ts) = m_parameters a ! min_index ?c"
    unfolding fin using last(1,3) assms(3) ts by (simp_all add: isComplete_def getParam_def)
  have two: "\<forall>k<length ts. (k \<noteq> 0 \<longrightarrow> \<not> isComplete (foldl (at_round env) (startScan a) (take k ts))) \<and>
       getParam (foldl (at_round env) (startScan a) (take k ts)) = m_parameters a ! (k mod ?P)"
  proof (intro allI impI)
    fix k assume k: "k < length ts"
    let ?a = "foldl (at_round env) (startScan a) (take k ts)"
    have tk: "length (take k ts) = k" using k by simp
    have ok: "at_ok ?a" and same: "m_parameters ?a = m_parameters a" and st: "m_state ?a \<noteq> IDLE"
      "take k ts \<noteq> [] \<longrightarrow> m_state ?a = SCANNING" and el: "m_current_element ?a = k mod length (m_parameters ?a)"
      using pre [OF k] unfolding scan_at_def tk by blast+
    show "(k \<noteq> 0 \<longrightarrow> \<not> isComplete ?a) \<and> getParam ?a = m_parameters a ! (k mod ?P)"
      using st k at_okD(9) [OF ok st(1)] el same by (auto simp: isComplete_def getParam_def)
  qed
  show ?thesis
    unfolding Let_def using one two min_index(2,3) [OF cne] len by auto
qed

theorem scan_completes_witness:
  "getParam (foldl (at_round demo_env) (startScan demo_tuner) [9, 8, 1, 7, 2, 9, 8, 1, 7, 2, 3, 3, 2, 7, 2]) = [32, 4]"
proof -
  have d: "demo_tuner = \<lparr>m_name = ''kernel'', n_dimensions = 2, m_n_samples = 3,
     m_parameters = [[32, 1], [32, 2], [32, 4], [64, 1], [64, 2]], m_state = SCANNING, m_current_sample = 0,
     m_current_element = 0, m_current_param = [32, 1], m_samples = replicate 5 (replicate 3 0),
     m_sample_center = replicate 5 0, m_sync = False, m_mode = Mode_median, m_optional = False\<rparr>"
    by (simp add: demo_tuner_def Autotuner_def startScan_def eval_nat_numeral)
  have ok: "at_ok demo_tuner" "\<not> m_sync demo_tuner"
    by (simp_all add: at_ok_def d)
  have len: "length [9, 8, 1, 7, 2, 9, 8, 1, 7, 2, 3, 3, 2, 7, 2 :: real] = length (m_parameters demo_tuner) * m_n_samples demo_tuner"
    by (simp add: d)
  have "min_index (map (sample_center (m_mode demo_tuner)) (sample_table (length (m_parameters demo_tuner)) (m_n_samples demo_tuner)
      [9, 8, 1, 7, 2, 9, 8, 1, 7, 2, 3, 3, 2, 7, 2])) = 2"
    by (simp add: d sample_table_def sample_center_def min_index_def upt_rec)
  then show ?thesis
    using scan_completes [OF ok len, of demo_env] by (simp add: Let_def d)
qed

end
