(* ===== verification/Trigger.thy ===== *)
theory Trigger
  imports HOOMD_Prelude
begin

text \<open>
  Model of \<open>hoomd/Trigger.h\<close>.  Triggers are objects that several operations and composite triggers may share, so
  they live in a store; a composite trigger holds the addresses of its parts.  Every trigger remembers its last
  answer.  The theory shows that this cache cannot be observed from outside, whichever triggers are shared and however
  far short-circuit evaluation gets, and on which steps a periodic trigger fires.
\<close>

section \<open>Model\<close>

type_synonym timestep = "64 word"

text \<open>What a trigger computes.  A trigger implemented in Python is a function of the time step.\<close>

datatype trigger_kind =
    PeriodicTrigger (m_period: timestep) (m_phase: timestep)
  | BeforeTrigger timestep
  | OnTrigger timestep
  | AfterTrigger timestep
  | NotTrigger nat
  | AndTrigger "nat list"
  | OrTrigger "nat list"
  | CustomTrigger "timestep \<Rightarrow> bool"

record trigger =
  m_kind :: trigger_kind
  m_last_timestep :: timestep
  m_last_trigger :: bool

type_synonym triggers = "trigger list"

definition Trigger :: "trigger_kind \<Rightarrow> trigger" where
  "Trigger k = \<lparr>m_kind = k, m_last_timestep = - 1, m_last_trigger = False\<rparr>"

definition make_PeriodicTrigger :: "timestep \<Rightarrow> timestep \<Rightarrow> exn + trigger" where
  "make_PeriodicTrigger period phase =
    (if period = 0 then Inl (Runtime_error ''Period cannot be set to 0'') else Inr (Trigger (PeriodicTrigger period phase)))"

text \<open>The setters do not touch the cache.\<close>

definition setPeriod :: "timestep \<Rightarrow> trigger \<Rightarrow> trigger" where
  "setPeriod period t = (case m_kind t of PeriodicTrigger _ phase \<Rightarrow> t\<lparr>m_kind := PeriodicTrigger period phase\<rparr> | _ \<Rightarrow> t)"

definition setPhase :: "timestep \<Rightarrow> trigger \<Rightarrow> trigger" where
  "setPhase phase t = (case m_kind t of PeriodicTrigger period _ \<Rightarrow> t\<lparr>m_kind := PeriodicTrigger period phase\<rparr> | _ \<Rightarrow> t)"

definition setTimestep :: "timestep \<Rightarrow> trigger \<Rightarrow> trigger" where
  "setTimestep s t = (case m_kind t of BeforeTrigger _ \<Rightarrow> t\<lparr>m_kind := BeforeTrigger s\<rparr>
     | OnTrigger _ \<Rightarrow> t\<lparr>m_kind := OnTrigger s\<rparr> | AfterTrigger _ \<Rightarrow> t\<lparr>m_kind := AfterTrigger s\<rparr> | _ \<Rightarrow> t)"

definition setTrigger :: "nat \<Rightarrow> trigger \<Rightarrow> trigger" where
  "setTrigger a t = (case m_kind t of NotTrigger _ \<Rightarrow> t\<lparr>m_kind := NotTrigger a\<rparr> | _ \<Rightarrow> t)"

text \<open>\<open>std::all_of\<close> and \<open>std::any_of\<close> over the parts; \<open>call\<close> is the call operator of a part.\<close>

fun trigger_all :: "(nat \<Rightarrow> triggers \<Rightarrow> (bool \<times> triggers) option) \<Rightarrow> nat list \<Rightarrow> triggers \<Rightarrow> (bool \<times> triggers) option" where
  "trigger_all call [] h = Some (True, h)"
| "trigger_all call (a # as) h = (case call a h of None \<Rightarrow> None
     | Some (b, h) \<Rightarrow> if b then trigger_all call as h else Some (False, h))"

fun trigger_any :: "(nat \<Rightarrow> triggers \<Rightarrow> (bool \<times> triggers) option) \<Rightarrow> nat list \<Rightarrow> triggers \<Rightarrow> (bool \<times> triggers) option" where
  "trigger_any call [] h = Some (False, h)"
| "trigger_any call (a # as) h = (case call a h of None \<Rightarrow> None
     | Some (b, h) \<Rightarrow> if b then Some (True, h) else trigger_any call as h)"

fun trigger_compute :: "(nat \<Rightarrow> triggers \<Rightarrow> (bool \<times> triggers) option) \<Rightarrow> trigger_kind \<Rightarrow> timestep \<Rightarrow>
    triggers \<Rightarrow> (bool \<times> triggers) option" where
  "trigger_compute call (PeriodicTrigger period phase) s h = Some ((s - phase) mod period = 0, h)"
| "trigger_compute call (BeforeTrigger u) s h = Some (s < u, h)"
| "trigger_compute call (OnTrigger u) s h = Some (s = u, h)"
| "trigger_compute call (AfterTrigger u) s h = Some (s > u, h)"
| "trigger_compute call (NotTrigger a) s h = map_option (\<lambda>(b, h). (\<not> b, h)) (call a h)"
| "trigger_compute call (AndTrigger as) s h = trigger_all call as h"
| "trigger_compute call (OrTrigger as) s h = trigger_any call as h"
| "trigger_compute call (CustomTrigger f) s h = Some (f s, h)"

text \<open>The call operator of the trigger at address \<open>a\<close>.  A part that is (indirectly) a part of itself makes the
  code recurse for ever: \<open>None\<close> when the depth of nested calls is exhausted.\<close>

fun trigger_call :: "nat \<Rightarrow> timestep \<Rightarrow> nat \<Rightarrow> triggers \<Rightarrow> (bool \<times> triggers) option" where
  "trigger_call 0 s a h = None"
| "trigger_call (Suc n) s a h =
    (if m_last_timestep (h ! a) = s then Some (m_last_trigger (h ! a), h)
     else let h = h[a := (h ! a)\<lparr>m_last_timestep := s\<rparr>] in
       (case trigger_compute (trigger_call n s) (m_kind (h ! a)) s h of None \<Rightarrow> None
        | Some (b, h) \<Rightarrow> Some (b, h[a := (h ! a)\<lparr>m_last_trigger := b\<rparr>])))"

section \<open>Meaning without the cache\<close>

text \<open>The parts of a trigger, and a store in which every trigger was created after its parts.\<close>

fun parts :: "trigger_kind \<Rightarrow> nat list" where
  "parts (NotTrigger a) = [a]"
| "parts (AndTrigger as) = as"
| "parts (OrTrigger as) = as"
| "parts _ = []"

definition acyclic_store :: "triggers \<Rightarrow> bool" where
  "acyclic_store h \<longleftrightarrow> (\<forall>a<length h. \<forall>b\<in>set (parts (m_kind (h ! a))). b < a)"

fun fires_kind :: "(nat \<Rightarrow> bool) \<Rightarrow> trigger_kind \<Rightarrow> timestep \<Rightarrow> bool" where
  "fires_kind f (PeriodicTrigger period phase) s = ((s - phase) mod period = 0)"
| "fires_kind f (BeforeTrigger u) s = (s < u)"
| "fires_kind f (OnTrigger u) s = (s = u)"
| "fires_kind f (AfterTrigger u) s = (s > u)"
| "fires_kind f (NotTrigger a) s = (\<not> f a)"
| "fires_kind f (AndTrigger as) s = list_all f as"
| "fires_kind f (OrTrigger as) s = list_ex f as"
| "fires_kind f (CustomTrigger g) s = g s"

text \<open>The answers of the first \<open>n\<close> triggers, from the first to the last.\<close>

primrec fires_upto :: "trigger_kind list \<Rightarrow> timestep \<Rightarrow> nat \<Rightarrow> bool list" where
  "fires_upto ks s 0 = []"
| "fires_upto ks s (Suc n) = (let bs = fires_upto ks s n in bs @ [fires_kind (\<lambda>a. bs ! a) (ks ! n) s])"

definition kinds :: "triggers \<Rightarrow> trigger_kind list" where
  "kinds h = map m_kind h"

definition fires :: "triggers \<Rightarrow> timestep \<Rightarrow> nat \<Rightarrow> bool" where
  "fires h s a = fires_upto (kinds h) s (Suc a) ! a"

lemma length_fires_upto [simp]: "length (fires_upto ks s n) = n"
  by (induction n) (simp_all add: Let_def)

lemma fires_upto_nth: "a < m \<Longrightarrow> m \<le> n \<Longrightarrow> fires_upto ks s n ! a = fires_upto ks s m ! a"
proof (induction n)
  case (Suc n)
  then show ?case by (cases "m = Suc n") (simp_all add: Let_def nth_append)
qed simp

lemma fires_kind_cong: "(\<And>b. b \<in> set (parts k) \<Longrightarrow> f b = g b) \<Longrightarrow> fires_kind f k s = fires_kind g k s"
  by (cases k) (auto simp: list_all_iff list_ex_iff)

lemma fires_rec:
  assumes "acyclic_store h" "a < length h"
  shows "fires h s a = fires_kind (fires h s) (m_kind (h ! a)) s"
proof -
  have "fires h s a = fires_kind (\<lambda>b. fires_upto (kinds h) s a ! b) (m_kind (h ! a)) s"
    using assms(2) by (simp add: fires_def Let_def kinds_def nth_append)
  also have "\<dots> = fires_kind (fires h s) (m_kind (h ! a)) s"
  proof (rule fires_kind_cong)
    fix b assume "b \<in> set (parts (m_kind (h ! a)))"
    then have "b < a" using assms by (simp add: acyclic_store_def)
    then show "fires_upto (kinds h) s a ! b = fires h s b"
      unfolding fires_def using fires_upto_nth [of b "Suc b" a] by simp
  qed
  finally show ?thesis .
qed

section \<open>The cache\<close>

text \<open>A cache entry is either unused or holds the answer for its time step.\<close>

definition cache_ok :: "triggers \<Rightarrow> bool" where
  "cache_ok h \<longleftrightarrow> (\<forall>a<length h. m_last_timestep (h ! a) = - 1 \<or> m_last_trigger (h ! a) = fires h (m_last_timestep (h ! a)) a)"

text \<open>During a call the entries of the triggers on the way down already carry the new time step but still the old
  answer; they lie at or above the address \<open>lim\<close>.\<close>

definition cache_below :: "nat \<Rightarrow> triggers \<Rightarrow> bool" where
  "cache_below lim h \<longleftrightarrow> (\<forall>a<length h. a < lim \<longrightarrow>
     m_last_timestep (h ! a) = - 1 \<or> m_last_trigger (h ! a) = fires h (m_last_timestep (h ! a)) a)"

text \<open>What a call may change: caches of triggers below \<open>lim\<close>.\<close>

definition same_above :: "nat \<Rightarrow> triggers \<Rightarrow> triggers \<Rightarrow> bool" where
  "same_above lim h h' \<longleftrightarrow> length h' = length h \<and> kinds h' = kinds h \<and> (\<forall>a<length h. lim \<le> a \<longrightarrow> h' ! a = h ! a)"

lemma same_above_refl [simp]: "same_above lim h h"
  by (simp add: same_above_def)

lemma same_above_trans: "same_above t h h' \<Longrightarrow> t \<le> lim \<Longrightarrow> same_above lim h' h'' \<Longrightarrow> same_above lim h h''"
  by (simp add: same_above_def)

lemma same_above_fires: "same_above t h h' \<Longrightarrow> fires h' = fires h"
  by (simp add: same_above_def fires_def fun_eq_iff)

lemma same_above_acyclic: "same_above t h h' \<Longrightarrow> acyclic_store h' = acyclic_store h"
proof -
  assume "same_above t h h'"
  then have "length h' = length h" "kinds h' = kinds h" by (simp_all add: same_above_def)
  then have "m_kind (h' ! a) = m_kind (h ! a)" if "a < length h" for a
    using that unfolding kinds_def by (metis nth_map)
  then show ?thesis using \<open>length h' = length h\<close> by (simp add: acyclic_store_def)
qed

text \<open>The contract of the call operator for the parts of a trigger.\<close>

definition call_ok :: "(nat \<Rightarrow> triggers \<Rightarrow> (bool \<times> triggers) option) \<Rightarrow> timestep \<Rightarrow> nat \<Rightarrow> bool" where
  "call_ok call s lim \<longleftrightarrow> (\<forall>a h. a < lim \<longrightarrow> a < length h \<longrightarrow> acyclic_store h \<longrightarrow> cache_below lim h \<longrightarrow>
     (\<exists>h'. call a h = Some (fires h s a, h') \<and> same_above lim h h' \<and> cache_below lim h'))"

lemma call_okD:
  assumes "call_ok call s lim" "a < lim" "a < length h" "acyclic_store h" "cache_below lim h"
  obtains h' where "call a h = Some (fires h s a, h')" "same_above lim h h'" "cache_below lim h'"
  using assms unfolding call_ok_def by blast

lemma parts_bound:
  "same_above lim h h' \<Longrightarrow> \<forall>a\<in>set as. a < lim \<and> a < length h \<Longrightarrow> \<forall>a\<in>set as. a < lim \<and> a < length h'"
  by (simp add: same_above_def)

lemma trigger_all_ok:
  assumes "call_ok call s lim" "\<forall>a\<in>set as. a < lim \<and> a < length h" "acyclic_store h" "cache_below lim h"
  obtains h' where "trigger_all call as h = Some (list_all (fires h s) as, h')" "same_above lim h h'" "cache_below lim h'"
proof -
  have "\<exists>h'. trigger_all call as h = Some (list_all (fires h s) as, h') \<and> same_above lim h h' \<and> cache_below lim h'"
    using assms(2-4)
  proof (induction as arbitrary: h)
    case (Cons a as)
    have a: "a < lim" "a < length h" and as: "\<forall>a\<in>set as. a < lim \<and> a < length h" using Cons.prems(1) by simp_all
    obtain h1 where c: "call a h = Some (fires h s a, h1)" and s1: "same_above lim h h1" and c1: "cache_below lim h1"
      using call_okD [OF assms(1) a Cons.prems(2,3)] by blast
    have "\<exists>h'. trigger_all call as h1 = Some (list_all (fires h1 s) as, h') \<and> same_above lim h1 h' \<and> cache_below lim h'"
      using parts_bound [OF s1 as] c1 Cons.prems(2) same_above_acyclic [OF s1] by (intro Cons.IH) simp_all
    then show ?case using c s1 c1 same_above_trans [OF s1 order_refl] same_above_fires [OF s1] by auto
  qed simp
  then show ?thesis using that by blast
qed

lemma trigger_any_ok:
  assumes "call_ok call s lim" "\<forall>a\<in>set as. a < lim \<and> a < length h" "acyclic_store h" "cache_below lim h"
  obtains h' where "trigger_any call as h = Some (list_ex (fires h s) as, h')" "same_above lim h h'" "cache_below lim h'"
proof -
  have "\<exists>h'. trigger_any call as h = Some (list_ex (fires h s) as, h') \<and> same_above lim h h' \<and> cache_below lim h'"
    using assms(2-4)
  proof (induction as arbitrary: h)
    case (Cons a as)
    have a: "a < lim" "a < length h" and as: "\<forall>a\<in>set as. a < lim \<and> a < length h" using Cons.prems(1) by simp_all
    obtain h1 where c: "call a h = Some (fires h s a, h1)" and s1: "same_above lim h h1" and c1: "cache_below lim h1"
      using call_okD [OF assms(1) a Cons.prems(2,3)] by blast
    have "\<exists>h'. trigger_any call as h1 = Some (list_ex (fires h1 s) as, h') \<and> same_above lim h1 h' \<and> cache_below lim h'"
      using parts_bound [OF s1 as] c1 Cons.prems(2) same_above_acyclic [OF s1] by (intro Cons.IH) simp_all
    then show ?case using c s1 c1 same_above_trans [OF s1 order_refl] same_above_fires [OF s1] by auto
  qed simp
  then show ?thesis using that by blast
qed

lemma trigger_compute_ok:
  assumes "call_ok call s lim" "\<forall>a\<in>set (parts k). a < lim \<and> a < length h" "acyclic_store h" "cache_below lim h"
  obtains h' where "trigger_compute call k s h = Some (fires_kind (fires h s) k s, h')" "same_above lim h h'" "cache_below lim h'"
proof (cases k)
  case (NotTrigger a)
  then have "a < lim" "a < length h" using assms(2) by simp_all
  from call_okD [OF assms(1) this assms(3,4)] show ?thesis using that NotTrigger by auto
next
  case (AndTrigger as)
  then have "\<forall>a\<in>set as. a < lim \<and> a < length h" using assms(2) by simp
  from trigger_all_ok [OF assms(1) this assms(3,4)] show ?thesis using that AndTrigger by auto
next
  case (OrTrigger as)
  then have "\<forall>a\<in>set as. a < lim \<and> a < length h" using assms(2) by simp
  from trigger_any_ok [OF assms(1) this assms(3,4)] show ?thesis using that OrTrigger by auto
qed (use that assms(4) same_above_refl in auto)

lemma cache_below_mono: "cache_below m h \<Longrightarrow> n \<le> m \<Longrightarrow> cache_below n h"
  by (simp add: cache_below_def)

lemma kinds_cache: "kinds (h[a := (h ! a)\<lparr>m_last_timestep := s\<rparr>]) = kinds h" "kinds (h[a := (h ! a)\<lparr>m_last_trigger := b\<rparr>]) = kinds h"
  unfolding kinds_def by (metis list_update_id map_update trigger.select_convs(1) trigger.surjective trigger.update_convs(2),
      metis list_update_id map_update trigger.select_convs(1) trigger.surjective trigger.update_convs(3))

lemma trigger_call_ok:
  assumes "s \<noteq> - 1"
  shows "lim \<le> n \<Longrightarrow> call_ok (trigger_call n s) s lim"
proof (induction n arbitrary: lim)
  case 0
  then show ?case by (simp add: call_ok_def)
next
  case (Suc n)
  show ?case
    unfolding call_ok_def
  proof (intro allI impI)
    fix a h assume a: "a < lim" "a < length h" and ac: "acyclic_store h" and c: "cache_below lim h"
    show "\<exists>h'. trigger_call (Suc n) s a h = Some (fires h s a, h') \<and> same_above lim h h' \<and> cache_below lim h'"
    proof (cases "m_last_timestep (h ! a) = s")
      case True
      then have "m_last_trigger (h ! a) = fires h s a" using c a assms by (auto simp: cache_below_def)
      then show ?thesis using True c by simp
    next
      case False
      define h1 where "h1 = h[a := (h ! a)\<lparr>m_last_timestep := s\<rparr>]"
      have k1: "kinds h1 = kinds h" "length h1 = length h" by (simp_all add: h1_def kinds_cache)
      have s1: "same_above lim h h1" using a k1 by (simp add: same_above_def h1_def)
      note f1 = same_above_fires [OF s1] and ac1 = same_above_acyclic [OF s1]
      have c1: "cache_below a h1"
        unfolding cache_below_def f1 using c a by (simp add: cache_below_def h1_def)
      have p: "\<forall>b\<in>set (parts (m_kind (h1 ! a))). b < a \<and> b < length h1"
        using ac ac1 a k1 by (fastforce simp: acyclic_store_def)
      have "call_ok (trigger_call n s) s a" using a Suc.prems by (intro Suc.IH) simp
      from trigger_compute_ok [OF this p ac1 [THEN iffD2, OF ac] c1] obtain h2 where
        h2: "trigger_compute (trigger_call n s) (m_kind (h1 ! a)) s h1 = Some (fires_kind (fires h1 s) (m_kind (h1 ! a)) s, h2)"
          "same_above a h1 h2" "cache_below a h2" by blast
      have ka: "m_kind (h1 ! a) = m_kind (h ! a)" using a by (simp add: h1_def)
      have val: "fires_kind (fires h1 s) (m_kind (h1 ! a)) s = fires h s a"
        unfolding f1 ka by (rule fires_rec [OF ac a(2), symmetric])
      define h3 where "h3 = h2[a := (h2 ! a)\<lparr>m_last_trigger := fires h s a\<rparr>]"
      have l2: "length h2 = length h" "kinds h2 = kinds h" "h2 ! a = h1 ! a"
        and up: "\<And>b. b < length h \<Longrightarrow> a \<le> b \<Longrightarrow> h2 ! b = h1 ! b"
        using h2(2) k1 a by (auto simp: same_above_def)
      have k3: "kinds h3 = kinds h" by (simp add: h3_def kinds_cache l2(2))
      have s3: "same_above lim h h3"
        using l2 up a k3 by (simp add: same_above_def) (simp add: h3_def h1_def)
      have f3: "fires h3 = fires h" "fires h2 = fires h"
        using same_above_fires [OF s3] same_above_fires [OF h2(2)] f1 by simp_all
      have "cache_below lim h3"
        unfolding cache_below_def f3
      proof (intro allI impI)
        fix b assume b: "b < length h3" "b < lim"
        have lb: "b < length h" "length h3 = length h" using b l2 by (simp_all add: h3_def)
        consider "b < a" | "b = a" | "a < b" by linarith
        then show "m_last_timestep (h3 ! b) = - 1 \<or> m_last_trigger (h3 ! b) = fires h (m_last_timestep (h3 ! b)) b"
        proof cases
          case 1
          then show ?thesis using h2(3) lb l2 f3(2) by (simp add: cache_below_def h3_def)
        next
          case 2
          then show ?thesis using a l2 by (simp add: h3_def h1_def)
        next
          case 3
          then show ?thesis using c b(2) lb up [of b] l2(1) by (simp add: cache_below_def h3_def h1_def)
        qed
      qed
      moreover have "trigger_call (Suc n) s a h = Some (fires h s a, h3)"
        using False h2(1) val by (simp add: Let_def flip: h1_def) (simp add: h3_def)
      ultimately show ?thesis using s3 by blast
    qed
  qed
qed

lemma cache_ok_below: "cache_ok h \<longleftrightarrow> cache_below (length h) h"
  by (auto simp: cache_ok_def cache_below_def)

text \<open>The store between two calls.\<close>

definition triggers_ok :: "triggers \<Rightarrow> bool" where
  "triggers_ok h \<longleftrightarrow> acyclic_store h \<and> cache_ok h"

lemma trigger_call_correct:
  assumes "triggers_ok h" "a < length h" "s \<noteq> - 1" "length h \<le> n"
  obtains h' where "trigger_call n s a h = Some (fires h s a, h')" "triggers_ok h'" "kinds h' = kinds h"
proof -
  have "call_ok (trigger_call n s) s (length h)" by (rule trigger_call_ok [OF assms(3,4)])
  from call_okD [OF this assms(2,2)] assms(1) obtain h' where
    h': "trigger_call n s a h = Some (fires h s a, h')" "same_above (length h) h h'" "cache_below (length h) h'"
    unfolding triggers_ok_def cache_ok_below by blast
  then have "triggers_ok h'" "kinds h' = kinds h"
    using same_above_acyclic [OF h'(2)] assms(1) by (auto simp: triggers_ok_def cache_ok_below same_above_def)
  then show ?thesis using that h'(1) by blast
qed

lemma fires_kinds: "kinds h' = kinds h \<Longrightarrow> fires h' = fires h"
  by (simp add: fires_def fun_eq_iff)

section \<open>Properties\<close>

text \<open>A sequence of calls, each with a time step and an address.\<close>

fun trigger_calls :: "nat \<Rightarrow> (timestep \<times> nat) list \<Rightarrow> triggers \<Rightarrow> (bool list \<times> triggers) option" where
  "trigger_calls n [] h = Some ([], h)"
| "trigger_calls n ((s, a) # cs) h = (case trigger_call n s a h of None \<Rightarrow> None
     | Some (b, h) \<Rightarrow> map_option (\<lambda>(bs, h). (b # bs, h)) (trigger_calls n cs h))"

lemma trigger_calls_correct:
  assumes "triggers_ok h" "\<forall>(s, a)\<in>set cs. a < length h \<and> s \<noteq> - 1" "length h \<le> n"
  shows "\<exists>h'. trigger_calls n cs h = Some (map (\<lambda>(s, a). fires h s a) cs, h') \<and> triggers_ok h' \<and> kinds h' = kinds h"
  using assms
proof (induction cs arbitrary: h)
  case (Cons c cs)
  obtain s a where c: "c = (s, a)" by fastforce
  then have "a < length h" "s \<noteq> - 1" using Cons.prems(2) by simp_all
  from trigger_call_correct [OF Cons.prems(1) this Cons.prems(3)] obtain h1 where
    h1: "trigger_call n s a h = Some (fires h s a, h1)" "triggers_ok h1" "kinds h1 = kinds h" by blast
  have len: "length h1 = length h" using h1(3) unfolding kinds_def by (metis length_map)
  from Cons.IH [OF h1(2)] Cons.prems(2,3) len obtain h' where
    "trigger_calls n cs h1 = Some (map (\<lambda>(s, a). fires h1 s a) cs, h')" "triggers_ok h'" "kinds h' = kinds h1" by auto
  then show ?case using h1(1,3) fires_kinds [OF h1(3)] by (simp add: c)
qed simp

text \<open>Triggers that have just been constructed.\<close>

lemma fresh_ok: "acyclic_store h \<Longrightarrow> \<forall>t\<in>set h. t = Trigger (m_kind t) \<Longrightarrow> triggers_ok h"
  unfolding triggers_ok_def cache_ok_def by (metis Trigger_def nth_mem trigger.select_convs(2))

definition demo_triggers :: triggers where
  "demo_triggers = map Trigger [PeriodicTrigger 10 0, AfterTrigger 15, AndTrigger [0, 1], NotTrigger 2, OrTrigger [2, 0, 3]]"

lemma demo_triggers_ok: "triggers_ok demo_triggers"
proof (rule fresh_ok)
  show "acyclic_store demo_triggers"
    by (simp add: acyclic_store_def demo_triggers_def less_Suc_eq Trigger_def)
  show "\<forall>t\<in>set demo_triggers. t = Trigger (m_kind t)"
    by (simp add: demo_triggers_def Trigger_def)
qed

text \<open>C25: For triggers that were created after the triggers they combine, any sequence of queries, at time steps in any
  order and at any of the triggers, is answered (the nested calls end) as if nothing were cached, although triggers are
  shared, answers are remembered and short-circuit evaluation leaves some caches behind.  The time step \<open>2 ^ 64 - 1\<close>,
  which marks an unused cache, is excluded.\<close>

theorem trigger_cache_transparent:
  assumes "triggers_ok h" "\<forall>(s, a)\<in>set cs. a < length h \<and> s \<noteq> - 1"
  shows "\<exists>h'. trigger_calls (length h) cs h = Some (map (\<lambda>(s, a). fires h s a) cs, h')"
  using trigger_calls_correct [OF assms order_refl] by blast

theorem trigger_cache_transparent_witness:
  "\<exists>h'. trigger_calls (length demo_triggers) [(20, 4), (10, 2), (20, 2), (7, 3)] demo_triggers
    = Some ([True, False, True, True], h')"
proof -
  have "\<exists>h'. trigger_calls (length demo_triggers) [(20, 4), (10, 2), (20, 2), (7, 3)] demo_triggers
      = Some (map (\<lambda>(s, a). fires demo_triggers s a) [(20, 4), (10, 2), (20, 2), (7, 3)], h')"
    by (rule trigger_cache_transparent [OF demo_triggers_ok]) (simp add: demo_triggers_def)
  moreover have "map (\<lambda>(s, a). fires demo_triggers s a) [(20, 4), (10, 2), (20, 2), (7, 3)] = [True, False, True, True]"
  proof -
    have r: "fires demo_triggers s a = fires_kind (fires demo_triggers s) (m_kind (demo_triggers ! a)) s" if "a < 5" for s a
      using that demo_triggers_ok by (intro fires_rec) (simp_all add: triggers_ok_def demo_triggers_def)
    have "fires demo_triggers s 0 = (s mod 10 = 0)" "fires demo_triggers s 1 = (s > 15)"
      "fires demo_triggers s 2 = (s mod 10 = 0 \<and> s > 15)" "fires demo_triggers s 3 = (\<not> (s mod 10 = 0 \<and> s > 15))"
      "fires demo_triggers s 4 = True" for s
      using r [of 0 s] r [of 1 s] r [of 2 s] r [of 3 s] r [of 4 s] by (auto simp: demo_triggers_def Trigger_def)
    then show ?thesis by simp
  qed
  ultimately show ?thesis by simp
qed

text \<open>C26: From its phase on, a periodic trigger fires exactly on the steps that lie a multiple of the period after the
  phase, and a period of 0 is refused by the constructor.\<close>

theorem periodic_trigger_steps:
  assumes "make_PeriodicTrigger period phase = Inr t" "phase \<le> s"
  shows "trigger_compute call (m_kind t) s h = Some ((\<exists>k. unat s = unat phase + k * unat period), h)"
proof -
  have t: "m_kind t = PeriodicTrigger period phase" and p: "period \<noteq> 0"
    using assms(1) by (auto simp: make_PeriodicTrigger_def Trigger_def split: if_splits)
  have "unat (s - phase) = unat s - unat phase" using assms(2) by (rule unat_sub)
  then have "(s - phase) mod period = 0 \<longleftrightarrow> (unat s - unat phase) mod unat period = 0"
    by (metis unat_eq_zero unat_mod_distrib)
  also have "\<dots> \<longleftrightarrow> (\<exists>k. unat s = unat phase + k * unat period)"
  proof
    assume "(unat s - unat phase) mod unat period = 0"
    then obtain k where "unat s - unat phase = unat period * k" by (auto simp: mod_eq_0_iff_dvd)
    then show "\<exists>k. unat s = unat phase + k * unat period"
      using assms(2) by (intro exI [of _ k]) (simp add: word_le_nat_alt mult.commute)
  qed auto
  finally show ?thesis by (simp add: t)
qed

theorem periodic_trigger_steps_witness:
  "trigger_compute (\<lambda>_ _. None) (m_kind (Trigger (PeriodicTrigger 10 3))) 23 [] = Some (True, [])"
proof -
  have "make_PeriodicTrigger 10 3 = Inr (Trigger (PeriodicTrigger 10 3))" by (simp add: make_PeriodicTrigger_def)
  from periodic_trigger_steps [OF this, of 23] have
    "trigger_compute (\<lambda>_ _. None) (m_kind (Trigger (PeriodicTrigger 10 3))) 23 []
     = Some ((\<exists>k. unat (23 :: timestep) = unat (3 :: timestep) + k * unat (10 :: timestep)), [])" by simp
  moreover have "\<exists>k. unat (23 :: timestep) = unat (3 :: timestep) + k * unat (10 :: timestep)"
    by (intro exI [of _ 2]) simp
  ultimately show ?thesis by simp
qed

section \<open>Remarks on the code\<close>

text \<open>Before the phase the difference wraps around, and the trigger fires on steps that are not a multiple of the period
  away from the phase: with period 3 and phase 1 on step 0.\<close>

lemma periodic_wraps: "trigger_compute call (PeriodicTrigger 3 1) 0 h = Some (True, h)" "(0 - 1) mod 3 \<noteq> (0 :: int)"
  by code_simp+

text \<open>A setter that is called between two queries for the same step does not take effect, and the last step of the
  range is never computed.\<close>

lemma stale_cache:
  assumes "trigger_call 1 1 0 [Trigger (PeriodicTrigger 2 0)] = Some (b, h)"
  shows "fst (the (trigger_call 1 1 0 [setPeriod 1 (h ! 0)])) = False" "fires [setPeriod 1 (h ! 0)] 1 0 = True"
  using assms by (auto simp: Trigger_def setPeriod_def fires_def kinds_def Let_def)

lemma fresh_last_step: "trigger_call (Suc n) (- 1) 0 [Trigger k] = Some (False, [Trigger k])"
  by (simp add: Trigger_def)

end
