(* ===== verification/SystemRun.thy ===== *)
theory SystemRun
  imports Trigger "HOL-Library.Multiset"
begin

text \<open>
  Model of \<open>hoomd/System.cc\<close>: the run loop that executes tuners, updaters, the integrator and analyzers on the
  time steps their triggers select.  What an operation does to the particles is not part of this theory; a run is
  described by the sequence of operations it executes.  The theory shows that the operations selected by the triggers are executed
  in a fixed order on every step.
\<close>

section \<open>Model\<close>

text \<open>An operation: the address of its trigger, the particle data flags it requests, and whether it may change the
  degrees of freedom when it runs on a step.\<close>

record action =
  getTrigger :: nat
  getRequestedPDataFlags :: "nat set"
  mayChangeDegreesOfFreedom :: "timestep \<Rightarrow> bool"

datatype event =
    Reset_stats
  | Force_migrate
  | Communicate timestep
  | Prep_run timestep
  | Update_group_DOF
  | Set_flags "nat set"
  | Run_tuner nat timestep
  | Run_updater nat timestep
  | Integrate timestep
  | Run_analyzer nat timestep

record system =
  m_start_tstep :: timestep
  m_end_tstep :: timestep
  m_cur_tstep :: timestep
  m_integrator :: "nat set option"
  m_default_flags :: "nat set"
  m_analyzers :: "action list"
  m_updaters :: "action list"
  m_tuners :: "action list"
  m_update_group_dof_next_step :: bool
  domain_decomposed :: bool
  m_triggers :: triggers
  trace :: "event list"

definition record_event :: "event \<Rightarrow> system \<Rightarrow> system" where
  "record_event e st = st\<lparr>trace := trace st @ [e]\<rparr>"

text \<open>A call of the trigger of an operation; the number of triggers bounds the depth of nested calls.\<close>

definition ask :: "timestep \<Rightarrow> action \<Rightarrow> system \<Rightarrow> (bool \<times> system) option" where
  "ask s a st = (case trigger_call (length (m_triggers st)) s (getTrigger a) (m_triggers st) of None \<Rightarrow> None
     | Some (b, h) \<Rightarrow> Some (b, st\<lparr>m_triggers := h\<rparr>))"

text \<open>A loop over the operations of one kind, which counts them and runs those that are triggered.\<close>

fun for_triggered :: "(nat \<Rightarrow> action \<Rightarrow> system \<Rightarrow> system) \<Rightarrow> timestep \<Rightarrow> nat \<Rightarrow> action list \<Rightarrow> system \<Rightarrow> system option" where
  "for_triggered act s i [] st = Some st"
| "for_triggered act s i (a # as) st = (case ask s a st of None \<Rightarrow> None
     | Some (b, st) \<Rightarrow> for_triggered act s (Suc i) as (if b then act i a st else st))"

fun or_flags :: "timestep \<Rightarrow> action list \<Rightarrow> nat set \<Rightarrow> system \<Rightarrow> (nat set \<times> system) option" where
  "or_flags s [] flags st = Some (flags, st)"
| "or_flags s (a # as) flags st = (case ask s a st of None \<Rightarrow> None
     | Some (b, st) \<Rightarrow> or_flags s as (if b then flags \<union> getRequestedPDataFlags a else flags) st)"

definition determineFlags :: "timestep \<Rightarrow> system \<Rightarrow> (nat set \<times> system) option" where
  "determineFlags s st = (let
     flags = m_default_flags st;
     flags = (case m_integrator st of Some f \<Rightarrow> flags \<union> f | None \<Rightarrow> flags)
     in case or_flags s (m_analyzers st) flags st of None \<Rightarrow> None
        | Some (flags, st) \<Rightarrow> (case or_flags s (m_updaters st) flags st of None \<Rightarrow> None
        | Some (flags, st) \<Rightarrow> or_flags s (m_tuners st) flags st))"

definition run_updater :: "nat \<Rightarrow> action \<Rightarrow> system \<Rightarrow> system" where
  "run_updater i a st = (let st = record_event (Run_updater i (m_cur_tstep st)) st
     in st\<lparr>m_update_group_dof_next_step := m_update_group_dof_next_step st \<or> mayChangeDegreesOfFreedom a (m_cur_tstep st)\<rparr>)"

definition update_dof :: "system \<Rightarrow> system" where
  "update_dof st = (if m_update_group_dof_next_step st
     then (record_event Update_group_DOF st)\<lparr>m_update_group_dof_next_step := False\<rparr> else st)"

definition run_analyzers :: "system \<Rightarrow> system option" where
  "run_analyzers st = for_triggered (\<lambda>i a st. record_event (Run_analyzer i (m_cur_tstep st)) st) (m_cur_tstep st) 0 (m_analyzers st) st"

text \<open>One iteration of the loop of \<open>run\<close>.\<close>

definition run_step :: "system \<Rightarrow> system option" where
  "run_step st =
    (case for_triggered (\<lambda>i a st. record_event (Run_tuner i (m_cur_tstep st)) st) (m_cur_tstep st) 0 (m_tuners st) st of None \<Rightarrow> None
     | Some st \<Rightarrow> (case for_triggered run_updater (m_cur_tstep st) 0 (m_updaters st) st of None \<Rightarrow> None
     | Some st \<Rightarrow> (let st = update_dof st in
       (case determineFlags (m_cur_tstep st + 1) st of None \<Rightarrow> None
        | Some (flags, st) \<Rightarrow> (let
            st = record_event (Set_flags flags) st;
            st = (case m_integrator st of Some _ \<Rightarrow> record_event (Integrate (m_cur_tstep st)) st | None \<Rightarrow> st);
            st = st\<lparr>m_cur_tstep := m_cur_tstep st + 1\<rparr>
            in run_analyzers st)))))"

text \<open>The loop: \<open>signalled s\<close> says that Python has a pending signal when the loop gets to step \<open>s\<close>.\<close>

fun run_loop :: "(timestep \<Rightarrow> bool) \<Rightarrow> nat \<Rightarrow> system \<Rightarrow> (unit, system) outcome option" where
  "run_loop signalled 0 st = Some (Inr (), st)"
| "run_loop signalled (Suc n) st = (case run_step st of None \<Rightarrow> None
     | Some st \<Rightarrow> if signalled (m_cur_tstep st) then Some (Inl (Runtime_error ''error_already_set''), st)
       else run_loop signalled n st)"

definition run :: "(timestep \<Rightarrow> bool) \<Rightarrow> timestep \<Rightarrow> bool \<Rightarrow> system \<Rightarrow> (unit, system) outcome option" where
  "run signalled nsteps write_at_start st = (let
     st = st\<lparr>m_start_tstep := m_cur_tstep st, m_end_tstep := m_cur_tstep st + nsteps\<rparr>;
     st = record_event Reset_stats st;
     st = (if domain_decomposed st then record_event (Communicate (m_cur_tstep st)) (record_event Force_migrate st) else st);
     st = update_dof st;
     st = (case m_integrator st of Some _ \<Rightarrow> record_event (Prep_run (m_cur_tstep st)) st | None \<Rightarrow> st)
     in case determineFlags (m_cur_tstep st) st of None \<Rightarrow> None
        | Some (flags, st) \<Rightarrow> (let st = record_event (Set_flags flags) st in
          case (if write_at_start then run_analyzers st else Some st) of None \<Rightarrow> None
          | Some st \<Rightarrow> run_loop signalled (unat nsteps) st))"

section \<open>The schedule\<close>

text \<open>When a trigger fires, as a function of time step and address.\<close>

type_synonym firing = "timestep \<Rightarrow> nat \<Rightarrow> bool"

definition due :: "firing \<Rightarrow> (nat \<Rightarrow> timestep \<Rightarrow> event) \<Rightarrow> timestep \<Rightarrow> nat \<Rightarrow> action list \<Rightarrow> event list" where
  "due F ev s i as = map (\<lambda>(j, a). ev j s) (filter (\<lambda>(j, a). F s (getTrigger a)) (enumerate i as))"

definition changes_dof :: "firing \<Rightarrow> timestep \<Rightarrow> action list \<Rightarrow> bool" where
  "changes_dof F s as \<longleftrightarrow> list_ex (\<lambda>a. F s (getTrigger a) \<and> mayChangeDegreesOfFreedom a s) as"

definition requested :: "firing \<Rightarrow> timestep \<Rightarrow> action list \<Rightarrow> nat set" where
  "requested F s as = \<Union> (set (map getRequestedPDataFlags (filter (\<lambda>a. F s (getTrigger a)) as)))"

definition flags_at :: "firing \<Rightarrow> timestep \<Rightarrow> system \<Rightarrow> nat set" where
  "flags_at F s st = m_default_flags st \<union> (case m_integrator st of Some f \<Rightarrow> f | None \<Rightarrow> {}) \<union>
     requested F s (m_analyzers st) \<union> requested F s (m_updaters st) \<union> requested F s (m_tuners st)"

text \<open>What one step executes, in this order.\<close>

definition step_schedule :: "firing \<Rightarrow> system \<Rightarrow> timestep \<Rightarrow> event list" where
  "step_schedule F st s =
     due F Run_tuner s 0 (m_tuners st) @ due F Run_updater s 0 (m_updaters st) @
     (if changes_dof F s (m_updaters st) then [Update_group_DOF] else []) @
     [Set_flags (flags_at F (s + 1) st)] @ (if m_integrator st = None then [] else [Integrate s]) @
     due F Run_analyzer (s + 1) 0 (m_analyzers st)"

text \<open>What a run executes before its first step: communication, then the preparation of the integrator and the flags, then the
  analyzers if requested.\<close>

definition run_entry :: "system \<Rightarrow> event list" where
  "run_entry st = [Reset_stats] @ (if domain_decomposed st then [Force_migrate, Communicate (m_cur_tstep st)] else []) @
     (if m_update_group_dof_next_step st then [Update_group_DOF] else [])"

definition run_preparation :: "firing \<Rightarrow> system \<Rightarrow> event list" where
  "run_preparation F st = (if m_integrator st = None then [] else [Prep_run (m_cur_tstep st)]) @ [Set_flags (flags_at F (m_cur_tstep st) st)]"

definition run_steps :: "firing \<Rightarrow> system \<Rightarrow> nat \<Rightarrow> bool \<Rightarrow> event list" where
  "run_steps F st n write_at_start = (let s = m_cur_tstep st in
     (if write_at_start then due F Run_analyzer s 0 (m_analyzers st) else []) @
     concat (map (\<lambda>k. step_schedule F st (s + of_nat k)) [0..<n]))"

definition run_schedule :: "firing \<Rightarrow> system \<Rightarrow> nat \<Rightarrow> bool \<Rightarrow> event list" where
  "run_schedule F st n write_at_start = run_entry st @ run_preparation F st @ run_steps F st n write_at_start"

section \<open>The code follows the schedule\<close>

text \<open>The three fields that change within a step.\<close>

definition upd :: "triggers \<Rightarrow> event list \<Rightarrow> bool \<Rightarrow> system \<Rightarrow> system" where
  "upd h es dof st = st\<lparr>m_triggers := h, trace := trace st @ es, m_update_group_dof_next_step := dof\<rparr>"

lemma upd_fields [simp]:
  "m_triggers (upd h es dof st) = h" "trace (upd h es dof st) = trace st @ es"
  "m_update_group_dof_next_step (upd h es dof st) = dof" "m_cur_tstep (upd h es dof st) = m_cur_tstep st"
  "m_integrator (upd h es dof st) = m_integrator st" "m_default_flags (upd h es dof st) = m_default_flags st"
  "m_analyzers (upd h es dof st) = m_analyzers st" "m_updaters (upd h es dof st) = m_updaters st"
  "m_tuners (upd h es dof st) = m_tuners st" "domain_decomposed (upd h es dof st) = domain_decomposed st"
  by (simp_all add: upd_def)

lemma upd_upd [simp]: "upd h es dof (upd h' es' dof' st) = upd h (es' @ es) dof st"
  by (simp add: upd_def)

lemma upd_same: "st = upd (m_triggers st) [] (m_update_group_dof_next_step st) st"
  by (simp add: upd_def)

lemma record_upd [simp]: "record_event e (upd h es dof st) = upd h (es @ [e]) dof st"
  by (simp add: record_event_def upd_def)

lemma update_dof_upd [simp]:
  "update_dof (upd h es dof st) = upd h (es @ (if dof then [Update_group_DOF] else [])) False st"
  by (simp add: update_dof_def record_event_def upd_def)

definition store_ok :: "firing \<Rightarrow> nat \<Rightarrow> triggers \<Rightarrow> bool" where
  "store_ok F n h \<longleftrightarrow> triggers_ok h \<and> fires h = F \<and> length h = n"

lemma ask_ok:
  assumes "store_ok F n h" "getTrigger a < n" "s \<noteq> - 1"
  obtains h' where "ask s a (upd h es dof st) = Some (F s (getTrigger a), upd h' es dof st)" "store_ok F n h'"
proof -
  have h: "triggers_ok h" "fires h = F" "length h = n" using assms(1) by (simp_all add: store_ok_def)
  from trigger_call_correct [OF h(1) _ assms(3) order_refl] assms(2) h obtain h' where
    h': "trigger_call (length h) s (getTrigger a) h = Some (F s (getTrigger a), h')" "triggers_ok h'" "kinds h' = kinds h"
    by metis
  have "store_ok F n h'"
    using h'(2) fires_kinds [OF h'(3)] h h'(3) unfolding store_ok_def kinds_def by (metis length_map)
  moreover have "ask s a (upd h es dof st) = Some (F s (getTrigger a), upd h' es dof st)"
    using h'(1) by (simp add: ask_def upd_def)
  ultimately show ?thesis using that by blast
qed

lemma due_Cons: "due F ev s i (a # as) = (if F s (getTrigger a) then [ev i s] else []) @ due F ev s (Suc i) as"
  by (simp add: due_def)

lemma for_triggered_ok:
  assumes "store_ok F n h" "\<forall>a\<in>set as. getTrigger a < n" "s \<noteq> - 1"
    and act: "\<And>i a h es dof. act i a (upd h es dof st) = upd h (es @ [ev i s]) (dof \<or> g a) st"
  shows "\<exists>h'. for_triggered act s i as (upd h es dof st) =
      Some (upd h' (es @ due F ev s i as) (dof \<or> list_ex (\<lambda>a. F s (getTrigger a) \<and> g a) as) st) \<and> store_ok F n h'"
  using assms(1,2)
proof (induction as arbitrary: i h es dof)
  case Nil
  then show ?case by (auto simp: due_def)
next
  case (Cons a as)
  have "getTrigger a < n" using Cons.prems(2) by simp
  from ask_ok [OF Cons.prems(1) this assms(3)] obtain h1 where
    h1: "ask s a (upd h es dof st) = Some (F s (getTrigger a), upd h1 es dof st)" "store_ok F n h1" by blast
  have as: "\<forall>a\<in>set as. getTrigger a < n" using Cons.prems(2) by simp
  show ?case
    using Cons.IH [OF h1(2) as, of "Suc i" es dof] Cons.IH [OF h1(2) as, of "Suc i" "es @ [ev i s]" "dof \<or> g a"]
    by (cases "F s (getTrigger a)") (simp_all add: h1(1) act due_Cons disj_assoc)
qed

lemma or_flags_ok:
  assumes "store_ok F n h" "\<forall>a\<in>set as. getTrigger a < n" "s \<noteq> - 1"
  shows "\<exists>h'. or_flags s as flags (upd h es dof st) = Some (flags \<union> requested F s as, upd h' es dof st) \<and> store_ok F n h'"
  using assms(1,2)
proof (induction as arbitrary: h flags)
  case Nil
  then show ?case by (auto simp: requested_def)
next
  case (Cons a as)
  have "getTrigger a < n" using Cons.prems(2) by simp
  from ask_ok [OF Cons.prems(1) this assms(3)] obtain h1 where
    h1: "ask s a (upd h es dof st) = Some (F s (getTrigger a), upd h1 es dof st)" "store_ok F n h1" by blast
  have as: "\<forall>a\<in>set as. getTrigger a < n" using Cons.prems(2) by simp
  show ?case
    using Cons.IH [OF h1(2) as, of flags] Cons.IH [OF h1(2) as, of "flags \<union> getRequestedPDataFlags a"]
    by (cases "F s (getTrigger a)") (simp_all add: h1(1) requested_def Un_assoc)
qed

lemma list_ex_False [simp]: "\<not> list_ex (\<lambda>a. False) as"
  by (induction as) simp_all

definition addresses_ok :: "nat \<Rightarrow> system \<Rightarrow> bool" where
  "addresses_ok n st \<longleftrightarrow> (\<forall>a\<in>set (m_analyzers st @ m_updaters st @ m_tuners st). getTrigger a < n)"

lemma addresses_okD:
  assumes "addresses_ok n st"
  shows "\<forall>a\<in>set (m_analyzers st). getTrigger a < n" "\<forall>a\<in>set (m_updaters st). getTrigger a < n" "\<forall>a\<in>set (m_tuners st). getTrigger a < n"
  using assms by (auto simp: addresses_ok_def)

lemma determineFlags_ok:
  assumes "store_ok F n h" "addresses_ok n st" "s \<noteq> - 1"
  shows "\<exists>h'. determineFlags s (upd h es dof st) = Some (flags_at F s st, upd h' es dof st) \<and> store_ok F n h'"
proof -
  note A = addresses_okD [OF assms(2)]
  let ?f0 = "case m_integrator st of Some f \<Rightarrow> m_default_flags st \<union> f | None \<Rightarrow> m_default_flags st"
  obtain h1 where h1: "or_flags s (m_analyzers st) ?f0 (upd h es dof st) = Some (?f0 \<union> requested F s (m_analyzers st), upd h1 es dof st)"
    "store_ok F n h1" using or_flags_ok [OF assms(1) A(1) assms(3)] by blast
  let ?f1 = "?f0 \<union> requested F s (m_analyzers st)"
  obtain h2 where h2: "or_flags s (m_updaters st) ?f1 (upd h1 es dof st) = Some (?f1 \<union> requested F s (m_updaters st), upd h2 es dof st)"
    "store_ok F n h2" using or_flags_ok [OF h1(2) A(2) assms(3)] by blast
  let ?f2 = "?f1 \<union> requested F s (m_updaters st)"
  obtain h3 where h3: "or_flags s (m_tuners st) ?f2 (upd h2 es dof st) = Some (?f2 \<union> requested F s (m_tuners st), upd h3 es dof st)"
    "store_ok F n h3" using or_flags_ok [OF h2(2) A(3) assms(3)] by blast
  have "?f2 \<union> requested F s (m_tuners st) = flags_at F s st" by (auto simp: flags_at_def split: option.splits)
  then show ?thesis using h1 h2 h3 by (auto simp: determineFlags_def Let_def)
qed

lemma run_analyzers_ok:
  assumes "store_ok F n h" "addresses_ok n st" "m_cur_tstep st \<noteq> - 1"
  shows "\<exists>h'. run_analyzers (upd h es dof st) = Some (upd h' (es @ due F Run_analyzer (m_cur_tstep st) 0 (m_analyzers st)) dof st) \<and>
    store_ok F n h'"
  using for_triggered_ok [OF assms(1) addresses_okD(1) [OF assms(2)] assms(3),
      of "\<lambda>i a st. record_event (Run_analyzer i (m_cur_tstep st)) st" st Run_analyzer "\<lambda>_. False" 0 es dof]
  by (simp add: run_analyzers_def)

lemma run_step_ok:
  assumes "store_ok F n h" "addresses_ok n st" "m_cur_tstep st \<noteq> - 1" "m_cur_tstep st + 1 \<noteq> - 1"
  shows "\<exists>h'. run_step (upd h es False st) =
      Some ((upd h' (es @ step_schedule F st (m_cur_tstep st)) False st)\<lparr>m_cur_tstep := m_cur_tstep st + 1\<rparr>) \<and> store_ok F n h'"
proof -
  note A = addresses_okD [OF assms(2)]
  let ?s = "m_cur_tstep st"
  define e1 where "e1 = es @ due F Run_tuner ?s 0 (m_tuners st)"
  define e2 where "e2 = e1 @ due F Run_updater ?s 0 (m_updaters st)"
  let ?dof = "changes_dof F ?s (m_updaters st)"
  define e3 where "e3 = e2 @ (if ?dof then [Update_group_DOF] else [])"
  obtain h1 where h1: "for_triggered (\<lambda>i a st. record_event (Run_tuner i (m_cur_tstep st)) st) ?s 0 (m_tuners st) (upd h es False st)
      = Some (upd h1 e1 False st)" "store_ok F n h1"
    using for_triggered_ok [OF assms(1) A(3) assms(3), of "\<lambda>i a st. record_event (Run_tuner i (m_cur_tstep st)) st" st Run_tuner
        "\<lambda>_. False" 0 es False] by (auto simp: e1_def)
  obtain h2 where h2: "for_triggered run_updater ?s 0 (m_updaters st) (upd h1 e1 False st) = Some (upd h2 e2 ?dof st)" "store_ok F n h2"
    using for_triggered_ok [OF h1(2) A(2) assms(3), of run_updater st Run_updater "\<lambda>a. mayChangeDegreesOfFreedom a ?s" 0 e1 False]
    by (auto simp: e2_def changes_dof_def run_updater_def record_event_def upd_def Let_def)
  obtain h3 where h3: "determineFlags (?s + 1) (upd h2 e3 False st) = Some (flags_at F (?s + 1) st, upd h3 e3 False st)" "store_ok F n h3"
    using determineFlags_ok [OF h2(2) assms(2,4)] by blast
  define e4 where "e4 = e3 @ [Set_flags (flags_at F (?s + 1) st)] @ (if m_integrator st = None then [] else [Integrate ?s])"
  let ?st = "st\<lparr>m_cur_tstep := ?s + 1\<rparr>"
  have swap: "(upd k x b st)\<lparr>m_cur_tstep := ?s + 1\<rparr> = upd k x b ?st" for k x b by (simp add: upd_def)
  obtain h4 where h4: "run_analyzers (upd h3 e4 False ?st) = Some (upd h4 (e4 @ due F Run_analyzer (?s + 1) 0 (m_analyzers st)) False ?st)"
    "store_ok F n h4"
    using run_analyzers_ok [OF h3(2), of ?st e4 False] assms(2,4) by (auto simp: addresses_ok_def)
  have "run_step (upd h es False st) = run_analyzers (upd h3 e4 False ?st)"
    unfolding run_step_def upd_fields h1(1) option.case h2(1) Let_def update_dof_upd e3_def [symmetric] h3(1) prod.case record_upd
    by (cases "m_integrator st") (simp_all add: e4_def swap)
  moreover have "e4 @ due F Run_analyzer (?s + 1) 0 (m_analyzers st) = es @ step_schedule F st ?s"
    by (simp add: e4_def e3_def e2_def e1_def step_schedule_def)
  ultimately show ?thesis using h4 swap by auto
qed

lemma unat_last_step: "unat (- 1 :: timestep) = 2 ^ 64 - 1"
  by (simp add: unsigned_minus_1_eq_mask mask_eq_exp_minus_1)

lemma run_loop_ok:
  assumes "store_ok F n h" "addresses_ok n st" "unat (m_cur_tstep st) + k < 2 ^ 64 - 1"
    "\<forall>i<k. \<not> signalled (m_cur_tstep st + of_nat (Suc i))"
  shows "\<exists>h'. run_loop signalled k (upd h es False st) = Some (Inr (),
      (upd h' (es @ concat (map (\<lambda>i. step_schedule F st (m_cur_tstep st + of_nat i)) [0..<k])) False st)
        \<lparr>m_cur_tstep := m_cur_tstep st + of_nat k\<rparr>) \<and> store_ok F n h'"
  using assms
proof (induction k arbitrary: h st es)
  case 0
  then show ?case by (auto simp: upd_def)
next
  case (Suc k)
  let ?s = "m_cur_tstep st" and ?st = "st\<lparr>m_cur_tstep := m_cur_tstep st + 1\<rparr>"
  have u: "unat (?s + 1) = unat ?s + 1"
    using Suc.prems(3) by (subst unat_add_lem [THEN iffD1]) simp_all
  have "unat ?s \<noteq> unat (- 1 :: timestep)" "unat (?s + 1) \<noteq> unat (- 1 :: timestep)"
    using Suc.prems(3) unfolding u unat_last_step by simp_all
  then have ne: "?s \<noteq> - 1" "?s + 1 \<noteq> - 1" by metis+
  obtain h1 where h1: "run_step (upd h es False st) =
      Some ((upd h1 (es @ step_schedule F st ?s) False st)\<lparr>m_cur_tstep := ?s + 1\<rparr>)" "store_ok F n h1"
    using run_step_ok [OF Suc.prems(1,2) ne] by blast
  have swap: "(upd k x b z)\<lparr>m_cur_tstep := w\<rparr> = upd k x b (z\<lparr>m_cur_tstep := w\<rparr>)" for k x b w z by (simp add: upd_def)
  have sched: "step_schedule F ?st = step_schedule F st" by (simp add: fun_eq_iff step_schedule_def flags_at_def)
  have "\<not> signalled (?s + 1)" using Suc.prems(4) by auto
  then have run: "run_loop signalled (Suc k) (upd h es False st) = run_loop signalled k (upd h1 (es @ step_schedule F st ?s) False ?st)"
    by (simp add: h1(1) swap)
  have "\<exists>h'. run_loop signalled k (upd h1 (es @ step_schedule F st ?s) False ?st) = Some (Inr (),
      (upd h' ((es @ step_schedule F st ?s) @ concat (map (\<lambda>i. step_schedule F ?st (m_cur_tstep ?st + of_nat i)) [0..<k])) False ?st)
        \<lparr>m_cur_tstep := m_cur_tstep ?st + of_nat k\<rparr>) \<and> store_ok F n h'"
    using Suc.prems u by (intro Suc.IH [OF h1(2)]) (auto simp: addresses_ok_def add.assoc)
  moreover have "map (\<lambda>i. step_schedule F st (?s + of_nat i)) [0..<Suc k]
      = step_schedule F st ?s # map (\<lambda>i. step_schedule F st (?s + 1 + of_nat i)) [0..<k]"
    by (simp add: upt_conv_Cons map_Suc_upt [symmetric] add.assoc del: upt_Suc)
  ultimately show ?case unfolding run sched by (simp add: add.assoc swap del: upt_Suc)
qed

section \<open>Properties\<close>

definition system_ok :: "system \<Rightarrow> bool" where
  "system_ok st \<longleftrightarrow> triggers_ok (m_triggers st) \<and> addresses_ok (length (m_triggers st)) st"

lemma run_follows:
  assumes "system_ok st" "unat (m_cur_tstep st) + unat nsteps < 2 ^ 64 - 1"
    "\<forall>i<unat nsteps. \<not> signalled (m_cur_tstep st + of_nat (Suc i))"
  shows "\<exists>st'. run signalled nsteps write_at_start st = Some (Inr (), st') \<and>
    trace st' = trace st @ run_schedule (fires (m_triggers st)) st (unat nsteps) write_at_start \<and>
    m_cur_tstep st' = m_cur_tstep st + nsteps \<and> system_ok st'"
proof -
  let ?h = "m_triggers st" and ?s = "m_cur_tstep st"
  let ?F = "fires ?h" and ?n = "length (m_triggers st)"
  let ?st = "st\<lparr>m_start_tstep := ?s, m_end_tstep := ?s + nsteps\<rparr>"
  have store: "store_ok ?F ?n ?h" and ad: "addresses_ok ?n ?st" and ne: "m_cur_tstep ?st \<noteq> - 1"
    using assms(1,2) unat_last_step by (auto simp: store_ok_def system_ok_def addresses_ok_def)
  define e0 where "e0 = [Reset_stats] @ (if domain_decomposed st then [Force_migrate, Communicate ?s] else []) @
     (if m_update_group_dof_next_step st then [Update_group_DOF] else []) @ (if m_integrator st = None then [] else [Prep_run ?s])"
  define e1 where "e1 = e0 @ [Set_flags (flags_at ?F ?s st)]"
  define e2 where "e2 = e1 @ (if write_at_start then due ?F Run_analyzer ?s 0 (m_analyzers st) else [])"
  obtain h1 where h1: "determineFlags ?s (upd ?h e0 False ?st) = Some (flags_at ?F ?s ?st, upd h1 e0 False ?st)" "store_ok ?F ?n h1"
    using determineFlags_ok [OF store ad ne] by auto
  have fl: "flags_at ?F ?s ?st = flags_at ?F ?s st" by (simp add: flags_at_def)
  obtain h2 where h2: "(if write_at_start then run_analyzers (upd h1 e1 False ?st) else Some (upd h1 e1 False ?st)) = Some (upd h2 e2 False ?st)"
    "store_ok ?F ?n h2"
    using run_analyzers_ok [OF h1(2) ad ne, of e1 False] h1(2) by (cases write_at_start) (auto simp: e2_def)
  obtain h3 where h3: "run_loop signalled (unat nsteps) (upd h2 e2 False ?st) = Some (Inr (),
      (upd h3 (e2 @ concat (map (\<lambda>i. step_schedule ?F ?st (m_cur_tstep ?st + of_nat i)) [0..<unat nsteps])) False ?st)
        \<lparr>m_cur_tstep := m_cur_tstep ?st + of_nat (unat nsteps)\<rparr>)" "store_ok ?F ?n h3"
    using run_loop_ok [OF h2(2) ad, of "unat nsteps" signalled e2] assms(2,3) by auto
  have start: "record_event Reset_stats ?st = upd ?h [Reset_stats] (m_update_group_dof_next_step st) ?st"
    by (simp add: record_event_def upd_def)
  have pro: "(case m_integrator (update_dof (if domain_decomposed st then record_event (Communicate ?s) (record_event Force_migrate
        (record_event Reset_stats ?st)) else record_event Reset_stats ?st)) of
      Some _ \<Rightarrow> record_event (Prep_run ?s) (update_dof (if domain_decomposed st then record_event (Communicate ?s) (record_event
        Force_migrate (record_event Reset_stats ?st)) else record_event Reset_stats ?st))
    | None \<Rightarrow> update_dof (if domain_decomposed st then record_event (Communicate ?s) (record_event Force_migrate
        (record_event Reset_stats ?st)) else record_event Reset_stats ?st)) = upd ?h e0 False ?st"
    unfolding start by (cases "m_integrator st"; cases "domain_decomposed st") (simp_all add: e0_def)
  have cur: "m_cur_tstep (update_dof (if domain_decomposed st then record_event (Communicate ?s) (record_event Force_migrate
        (record_event Reset_stats ?st)) else record_event Reset_stats ?st)) = ?s" "domain_decomposed (record_event Reset_stats ?st) = domain_decomposed st"
    "m_cur_tstep (record_event Force_migrate (record_event Reset_stats ?st)) = ?s" "m_cur_tstep (record_event Reset_stats ?st) = ?s"
    "m_cur_tstep (upd ?h e0 False ?st) = ?s"
    unfolding start by simp_all
  have "run signalled nsteps write_at_start st = run_loop signalled (unat nsteps) (upd h2 e2 False ?st)"
    unfolding run_def Let_def cur pro h1(1) option.case prod.case fl record_upd e1_def [symmetric] h2(1) by (rule refl)
  moreover have "step_schedule ?F ?st = step_schedule ?F st" by (simp add: fun_eq_iff step_schedule_def flags_at_def)
  ultimately show ?thesis
    using h3 ad by (auto simp: run_schedule_def run_entry_def run_preparation_def run_steps_def Let_def e2_def e1_def e0_def system_ok_def store_ok_def addresses_ok_def)
qed

text \<open>A system with one tuner, two updaters that share a trigger, an integrator and an analyzer.\<close>

definition demo_system :: system where
  "demo_system = \<lparr>m_start_tstep = 0, m_end_tstep = 0, m_cur_tstep = 19, m_integrator = Some {}, m_default_flags = {},
     m_analyzers = [\<lparr>getTrigger = 4, getRequestedPDataFlags = {1}, mayChangeDegreesOfFreedom = (\<lambda>_. False)\<rparr>],
     m_updaters = [\<lparr>getTrigger = 0, getRequestedPDataFlags = {}, mayChangeDegreesOfFreedom = (\<lambda>_. True)\<rparr>,
                   \<lparr>getTrigger = 0, getRequestedPDataFlags = {}, mayChangeDegreesOfFreedom = (\<lambda>_. False)\<rparr>],
     m_tuners = [\<lparr>getTrigger = 3, getRequestedPDataFlags = {}, mayChangeDegreesOfFreedom = (\<lambda>_. False)\<rparr>],
     m_update_group_dof_next_step = False, domain_decomposed = False, m_triggers = demo_triggers, trace = []\<rparr>"

text \<open>C27: A run executes exactly this schedule and returns: first it resets the statistics, communicates if there is a domain
  decomposition and updates the degrees of freedom if that is pending; then it prepares the integrator and sets the flags for the
  current step, in an order that the statement leaves open because the comment and the code disagree on it; then it executes the
  analyzers on the current step if requested; then for each of the \<open>nsteps\<close> steps, in order, the tuners and then the updaters whose triggers fire on the step, an update
  of the degrees of freedom if one of these updaters may change them, the particle data flags requested for the next step, the
  integrator, and after the step counter has advanced the analyzers whose triggers fire on the new step.  The step counter has
  advanced by \<open>nsteps\<close> at the end.\<close>

theorem run_executes_schedule:
  assumes "system_ok st" "unat (m_cur_tstep st) + unat nsteps < 2 ^ 64 - 1"
    "\<forall>i<unat nsteps. \<not> signalled (m_cur_tstep st + of_nat (Suc i))"
  shows "\<exists>st' prep. run signalled nsteps write_at_start st = Some (Inr (), st') \<and>
    mset prep = mset (run_preparation (fires (m_triggers st)) st) \<and>
    trace st' = trace st @ run_entry st @ prep @ run_steps (fires (m_triggers st)) st (unat nsteps) write_at_start \<and>
    m_cur_tstep st' = m_cur_tstep st + nsteps"
  using run_follows [OF assms] unfolding run_schedule_def by blast

theorem run_executes_schedule_witness:
  "\<exists>st' prep. run (\<lambda>_. False) 2 False demo_system = Some (Inr (), st') \<and>
    mset prep = mset (run_preparation (fires demo_triggers) demo_system) \<and>
    trace st' = Reset_stats # prep @ run_steps (fires demo_triggers) demo_system 2 False \<and> m_cur_tstep st' = 21"
  using run_executes_schedule [of demo_system 2 "\<lambda>_. False" False] demo_triggers_ok
  by (simp add: system_ok_def addresses_ok_def run_entry_def demo_system_def demo_triggers_def)

end
