(* ===== verification/BondedGroupData.thy ===== *)
theory BondedGroupData
  imports ParticleTags
begin

text \<open>
  Model of \<open>hoomd/BondedGroupData.cc\<close> and \<open>hoomd/BondedGroupData.h\<close>: groups of a fixed number of particles
  (bonds, angles, dihedrals, constraints), stored by index with global tags of their own and looked up by particle.
  The parallel vectors of members, type or value, tag and ranks are one vector of records.  This theory holds the
  model; the proofs are in the theories that follow it.
\<close>

section \<open>Model\<close>

text \<open>The union of a type and a constraint value; which of the two is meant is fixed per class.\<close>

datatype typeval = Type nat | Val real

primrec tv_type :: "typeval \<Rightarrow> nat" where
  "tv_type (Type t) = t"
| "tv_type (Val v) = 0"

primrec tv_val :: "typeval \<Rightarrow> real" where
  "tv_val (Type t) = 0"
| "tv_val (Val v) = v"

record bonded_group =
  g_members :: "nat list"
  g_typeval :: typeval
  g_tag :: nat
  g_ranks :: "nat list"

definition zero_group :: bonded_group where
  "zero_group = \<lparr>g_members = [], g_typeval = Type 0, g_tag = 0, g_ranks = []\<rparr>"

datatype bg_signal = Group_num_change | Group_reorder

record bonded_data =
  group_size :: nat
  group_name :: string
  has_type_mapping :: bool
  m_groups :: "bonded_group list" \<comment> \<open>the buffer with its full capacity\<close>
  m_groups_size :: nat
  m_n_groups :: nat
  m_n_ghost :: nat
  m_nglobal_groups :: nat
  m_group_rtag :: "nat list"
  m_group_types :: "string list"
  m_group_tags :: "nat list"
  m_group_recycled :: "nat list"
  m_group_cached :: "nat list"
  m_group_cache_invalid :: bool
  m_groups_dirty :: bool
  m_gpu_n_groups :: "nat list"
  m_gpu_table_height :: nat
  m_gpu_table :: "nat list list"
  m_gpu_pos_table :: "nat list"
  bg_signals :: "bg_signal list"

definition bg_emit :: "bg_signal \<Rightarrow> bonded_data \<Rightarrow> bonded_data" where
  "bg_emit s b = b\<lparr>bg_signals := bg_signals b @ [s]\<rparr>"

subsection \<open>Storage\<close>

definition grown_capacity :: "nat \<Rightarrow> nat \<Rightarrow> nat" where
  "grown_capacity n cap = (let need = max n 1 in if need > cap then grow need (if cap \<noteq> 0 then cap else 1) else cap)"

definition bg_reallocate :: "nat \<Rightarrow> bonded_data \<Rightarrow> bonded_data" where
  "bg_reallocate new_size b = b\<lparr>m_groups := m_groups b @ replicate (grown_capacity new_size (length (m_groups b)) - length (m_groups b)) zero_group,
     m_groups_size := new_size\<rparr>"

definition push_group :: "bonded_group \<Rightarrow> bonded_data \<Rightarrow> bonded_data" where
  "push_group g b = (let n = m_groups_size b; b = bg_reallocate (n + 1) b in b\<lparr>m_groups := (m_groups b)[n := g]\<rparr>)"

definition pop_group :: "bonded_data \<Rightarrow> bonded_data" where
  "pop_group b = b\<lparr>m_groups_size := m_groups_size b - 1\<rparr>"

definition removeAllGhostGroups :: "bonded_data \<Rightarrow> bonded_data" where
  "removeAllGhostGroups b = (bg_reallocate (m_groups_size b - m_n_ghost b) b)\<lparr>m_n_ghost := 0\<rparr>"

definition addGhostGroups :: "nat \<Rightarrow> bonded_data \<Rightarrow> bonded_data" where
  "addGhostGroups n b = (let b = bg_reallocate (m_groups_size b + n) b in b\<lparr>m_n_ghost := m_n_ghost b + n\<rparr>)"

definition addGroups :: "nat \<Rightarrow> bonded_data \<Rightarrow> bonded_data" where
  "addGroups n b = (let b = bg_reallocate (m_n_groups b + n) b in b\<lparr>m_n_groups := m_n_groups b + n\<rparr>)"

definition removeGroups :: "nat \<Rightarrow> bonded_data \<Rightarrow> bonded_data" where
  "removeGroups n b = (let b = bg_reallocate (m_n_groups b - n) b in b\<lparr>m_n_groups := m_n_groups b - n\<rparr>)"

definition notifyGroupReorder :: "bonded_data \<Rightarrow> bonded_data" where
  "notifyGroupReorder b = bg_emit Group_reorder (b\<lparr>m_groups_dirty := True\<rparr>)"

definition setDirty :: "bonded_data \<Rightarrow> bonded_data" where
  "setDirty b = b\<lparr>m_groups_dirty := True\<rparr>"

definition bg_initialize :: "bonded_data \<Rightarrow> bonded_data" where
  "bg_initialize b = b\<lparr>m_nglobal_groups := 0, m_n_groups := 0, m_n_ghost := 0, m_group_tags := [],
     m_group_cache_invalid := True, m_group_recycled := [], m_groups := [], m_groups_size := 0, m_group_rtag := [],
     m_gpu_table := [], m_gpu_pos_table := [], m_gpu_n_groups := []\<rparr>"

text \<open>The constructor with a number of types.\<close>

definition BondedGroupData :: "nat \<Rightarrow> string \<Rightarrow> bool \<Rightarrow> string list \<Rightarrow> bonded_data" where
  "BondedGroupData gs name has_types default_names = bg_initialize \<lparr>group_size = gs, group_name = name,
     has_type_mapping = has_types, m_groups = [], m_groups_size = 0, m_n_groups = 0, m_n_ghost = 0,
     m_nglobal_groups = 0, m_group_rtag = [], m_group_types = (if has_types then default_names else []),
     m_group_tags = [], m_group_recycled = [], m_group_cached = [], m_group_cache_invalid = True,
     m_groups_dirty = True, m_gpu_n_groups = [], m_gpu_table_height = 0, m_gpu_table = [], m_gpu_pos_table = [],
     bg_signals = []\<rparr>"

subsection \<open>Adding and removing groups\<close>

fun join_tags :: "string \<Rightarrow> nat list \<Rightarrow> string" where
  "join_tags sep [] = ''''"
| "join_tags sep [t] = nat_str t"
| "join_tags sep (t # u # ts) = nat_str t @ sep @ join_tags sep (u # ts)"

definition newline :: string where
  "newline = [char_of (10 :: nat)]"

definition check_group :: "string \<Rightarrow> bool \<Rightarrow> string list \<Rightarrow> particle_data \<Rightarrow> typeval \<Rightarrow> nat list \<Rightarrow> exn + unit" where
  "check_group name has_types types d tv members =
    (if \<exists>t\<in>set members. t > getMaximumTag d then
       Inl (Runtime_error (''Particle tag out of bounds when attempting to add '' @ name @ '': ''
         @ join_tags '','' members @ newline))
     else if \<not> distinct members then
       Inl (Runtime_error (''The same particle can only occur once in a '' @ name @ '': ''
         @ join_tags '','' members @ newline))
     else if has_types \<and> tv_type tv \<ge> length (types) then
       Inl (Runtime_error (''Invalid '' @ name @ '' typeid '' @ nat_str (tv_type tv)
         @ ''. The number of types is '' @ nat_str (length (types)) @ ''.''))
     else Inr ())"

text \<open>The tag of a new group, and its entry in the reverse table.\<close>

definition new_group_tag :: "bool \<Rightarrow> bonded_data \<Rightarrow> nat \<times> bonded_data" where
  "new_group_tag is_local b = (case m_group_recycled b of
     t # r \<Rightarrow> (let b = b\<lparr>m_group_recycled := r\<rparr>
       in (t, if is_local then b\<lparr>m_group_rtag := (m_group_rtag b)[t := m_n_groups b]\<rparr> else b))
   | [] \<Rightarrow> (m_nglobal_groups b,
       b\<lparr>m_group_rtag := m_group_rtag b @ [if is_local then m_n_groups b else NOT_LOCAL]\<rparr>))"

definition addBondedGroup :: "mpi_env \<Rightarrow> particle_data \<Rightarrow> typeval \<Rightarrow> nat list \<Rightarrow> bonded_data \<Rightarrow> (nat, bonded_data) outcome" where
  "addBondedGroup mpi d tv members b = (let b = removeAllGhostGroups b in
     case check_group (group_name b) (has_type_mapping b) (m_group_types b) d tv members of Inl e \<Rightarrow> (Inl e, b)
     | Inr _ \<Rightarrow> (let
         is_local = (if decomposed mpi then \<exists>t\<in>set members. isParticleLocal t d else True);
         (tag, b) = new_group_tag is_local b;
         b = (if is_local then
                (push_group \<lparr>g_members = members, g_typeval = tv, g_tag = tag, g_ranks = replicate (group_size b) 0\<rparr> b)
                  \<lparr>m_n_groups := m_n_groups b + 1\<rparr>
              else b);
         b = b\<lparr>m_group_tags := insort_insert tag (m_group_tags b), m_group_cache_invalid := True\<rparr>;
         b = b\<lparr>m_nglobal_groups := m_nglobal_groups b + 1\<rparr>
         in (Inr tag, notifyGroupReorder (bg_emit Group_num_change b))))"

definition removeBondedGroup :: "mpi_env \<Rightarrow> nat \<Rightarrow> bonded_data \<Rightarrow> (unit, bonded_data) outcome" where
  "removeBondedGroup mpi tag b = (let b = removeAllGhostGroups b in
     if tag \<ge> length (m_group_rtag b) then
       (Inl (Runtime_error (''Trying to remove '' @ group_name b @ '' '' @ nat_str tag @ '' which does not exist!'')), b)
     else let
       idx = m_group_rtag b ! tag;
       is_local = idx < m_n_groups b;
       is_available = (if decomposed mpi then allreduce_sum mpi (if is_local then 1 else 0) \<noteq> 0 else is_local) in
     if \<not> is_available then
       (Inl (Runtime_error (''Trying to remove '' @ group_name b @ '' '' @ nat_str tag @ '' which has been previously removed!'')), b)
     else let
       b = b\<lparr>m_group_rtag := (m_group_rtag b)[tag := NOT_LOCAL]\<rparr>;
       b = (if is_local then
              let sz = m_n_groups b;
                  b = (if idx < sz - 1 then
                         let lst = m_groups b ! (sz - 1)
                         in b\<lparr>m_groups := (m_groups b)[idx := lst], m_group_rtag := (m_group_rtag b)[g_tag lst := idx]\<rparr>
                       else b)
              in (pop_group b)\<lparr>m_n_groups := m_n_groups b - 1\<rparr>
            else b);
       b = b\<lparr>m_group_tags := remove1 tag (m_group_tags b), m_group_cache_invalid := True\<rparr>;
       b = b\<lparr>m_group_recycled := tag # m_group_recycled b, m_nglobal_groups := m_nglobal_groups b - 1\<rparr>
       in (Inr (), notifyGroupReorder (bg_emit Group_num_change b)))"

subsection \<open>Access\<close>

definition bg_maybe_rebuild_tag_cache :: "bonded_data \<Rightarrow> bonded_data" where
  "bg_maybe_rebuild_tag_cache b = (if m_group_cache_invalid b
     then b\<lparr>m_group_cached := m_group_tags b, m_group_cache_invalid := False\<rparr> else b)"

definition bg_getNthTag :: "nat \<Rightarrow> bonded_data \<Rightarrow> (nat, bonded_data) outcome" where
  "bg_getNthTag n b = (if n \<ge> m_nglobal_groups b then
     (Inl (Runtime_error (group_name b @ '' index '' @ nat_str n @ '' out of bounds!'' @ ''The number of '' @ group_name b
        @ ''s is '' @ nat_str (m_nglobal_groups b))), b)
     else let b = bg_maybe_rebuild_tag_cache b in (Inr (m_group_cached b ! n), b))"

definition check_members ::
    "string \<Rightarrow> particle_data \<Rightarrow> nat \<Rightarrow> typeval \<times> nat list \<Rightarrow> exn + (typeval \<times> nat list)" where
  "check_members name d tag g = (case find (\<lambda>t. \<not> isTagActive t d) (snd g) of
     Some ptag \<Rightarrow> Inl (Runtime_error (''Member tag '' @ nat_str ptag @ '' of '' @ name @ '' '' @ nat_str tag
       @ '' does not exist!'' @ newline))
   | None \<Rightarrow> Inr g)"

text \<open>Without a domain decomposition; a tag beyond the reverse table is not checked by the code.\<close>

definition getGroupByTag :: "particle_data \<Rightarrow> nat \<Rightarrow> bonded_data \<Rightarrow> exn + (typeval \<times> nat list)" where
  "getGroupByTag d tag b = (let idx = m_group_rtag b ! tag in
     if idx = NOT_LOCAL then
       Inl (Runtime_error (''Trying to get type or constraint value of '' @ group_name b @ '' '' @ nat_str tag
         @ '' which does not exist!''))
     else check_members (group_name b) d tag (g_typeval (m_groups b ! idx), g_members (m_groups b ! idx)))"

text \<open>With a domain decomposition: \<open>bcast_group\<close> yields the group that the given rank sends.\<close>

definition getGroupByTag_mpi :: "mpi_env \<Rightarrow> (int \<Rightarrow> typeval \<times> nat list) \<Rightarrow> particle_data \<Rightarrow> nat \<Rightarrow> bonded_data \<Rightarrow>
    exn + (typeval \<times> nat list)" where
  "getGroupByTag_mpi mpi bcast_group d tag b = (let idx = m_group_rtag b ! tag;
     rank = allreduce_max mpi (if idx < m_n_groups b then int (getRank mpi) else - 1) in
     if rank = - 1 then Inl (Runtime_error (''Error getting '' @ group_name b))
     else check_members (group_name b) d tag (bcast_group rank))"

definition getTypeByIndex :: "nat \<Rightarrow> bonded_data \<Rightarrow> nat" where
  "getTypeByIndex i b = tv_type (g_typeval (m_groups b ! i))"

definition getValueByIndex :: "nat \<Rightarrow> bonded_data \<Rightarrow> real" where
  "getValueByIndex i b = tv_val (g_typeval (m_groups b ! i))"

definition getMembersByIndex :: "nat \<Rightarrow> bonded_data \<Rightarrow> nat list" where
  "getMembersByIndex i b = g_members (m_groups b ! i)"

definition setMemberByIndex :: "nat \<Rightarrow> nat list \<Rightarrow> bonded_data \<Rightarrow> bonded_data" where
  "setMemberByIndex i members b = b\<lparr>m_groups := (m_groups b)[i := (m_groups b ! i)\<lparr>g_members := members\<rparr>]\<rparr>"

definition bg_getTypeByName :: "string \<Rightarrow> bonded_data \<Rightarrow> exn + nat" where
  "bg_getTypeByName type_name b = (case find_type type_name 0 (m_group_types b) of
     Some i \<Rightarrow> Inr i
   | None \<Rightarrow> Inl (Runtime_error (group_name b @ '' type '' @ type_name @ '' not found!'' @ newline)))"

definition bg_getNameByType :: "nat \<Rightarrow> bonded_data \<Rightarrow> exn + string" where
  "bg_getNameByType ty b = (if ty \<ge> length (m_group_types b)
     then Inl (Runtime_error (''Requesting type name for non-existent type '' @ nat_str ty @ newline))
     else Inr (m_group_types b ! ty))"

definition bg_setTypeName :: "nat \<Rightarrow> string \<Rightarrow> bonded_data \<Rightarrow> (unit, bonded_data) outcome" where
  "bg_setTypeName ty new_name b = (if ty \<ge> length (m_group_types b)
     then (Inl (Runtime_error (''Setting type name for non-existent type '' @ nat_str ty)), b)
     else (Inr (), b\<lparr>m_group_types := (m_group_types b)[ty := new_name]\<rparr>))"

subsection \<open>Table of the groups of each particle\<close>

text \<open>All pairs of a group index and a position in the group, in the order of the two nested loops.\<close>

definition group_slots :: "bonded_data \<Rightarrow> (nat \<times> nat) list" where
  "group_slots b = concat (map (\<lambda>c. map (\<lambda>i. (c, i)) [0..<group_size b]) [0..<m_n_groups b + m_n_ghost b])"

definition slot_index :: "nat list \<Rightarrow> bonded_data \<Rightarrow> nat \<times> nat \<Rightarrow> nat" where
  "slot_index rtag b = (\<lambda>(c, i). rtag ! (g_members (m_groups b ! c) ! i))"

text \<open>The first loop counts the groups of every particle; it stops at the first member that is neither local nor a
  ghost.\<close>

fun count_slots :: "nat list \<Rightarrow> bonded_data \<Rightarrow> (nat \<times> nat) list \<Rightarrow> nat list \<Rightarrow> nat option \<times> nat list" where
  "count_slots rtag b [] n_groups = (None, n_groups)"
| "count_slots rtag b (s # ss) n_groups = (let idx = slot_index rtag b s in
     if idx = NOT_LOCAL then (Some (fst s), n_groups)
     else count_slots rtag b ss (n_groups[idx := n_groups ! idx + 1]))"

definition table_entry :: "nat list \<Rightarrow> bonded_data \<Rightarrow> nat \<times> nat \<Rightarrow> nat list" where
  "table_entry rtag b = (\<lambda>(c, i). let members = g_members (m_groups b ! c) in
     map (\<lambda>j. rtag ! (members ! j)) (filter (\<lambda>j. j \<noteq> i) [0..<group_size b])
     @ [if has_type_mapping b then tv_type (g_typeval (m_groups b ! c)) else c])"

text \<open>One iteration of the second loop, on the counters, the table and the table of positions; \<open>w\<close> is the width of the
  table.\<close>

definition fill_slot :: "nat list \<Rightarrow> bonded_data \<Rightarrow> nat \<Rightarrow> nat list \<times> nat list list \<times> nat list \<Rightarrow> nat \<times> nat \<Rightarrow>
    nat list \<times> nat list list \<times> nat list" where
  "fill_slot rtag b w st s = (case st of (n_groups, table, pos_table) \<Rightarrow>
     let idx1 = slot_index rtag b s; num = n_groups ! idx1
     in (n_groups[idx1 := num + 1], table[num * w + idx1 := table_entry rtag b s], pos_table[num * w + idx1 := snd s]))"

fun max_element :: "nat list \<Rightarrow> nat" where
  "max_element [] = 0"
| "max_element (x # xs) = foldl max x xs"

definition rebuildGPUTable :: "particle_data \<Rightarrow> bonded_data \<Rightarrow> (unit, bonded_data) outcome" where
  "rebuildGPUTable d b = (let
     rtag = hv_buf (m_rtag d);
     w = m_nparticles d + m_nghosts d in
     case count_slots rtag b (group_slots b) (replicate w 0) of
       (Some c, n_groups) \<Rightarrow> (Inl (Runtime_error (group_name b @ '' '' @ join_tags '', '' (g_members (m_groups b ! c)) @ '' incomplete!'')),
          b\<lparr>m_gpu_n_groups := n_groups\<rparr>)
     | (None, n_groups) \<Rightarrow> (let
          num_groups_max = max_element n_groups;
          table = resized (w * num_groups_max) [] (m_gpu_table b);
          pos_table = resized (w * num_groups_max) 0 (m_gpu_pos_table b);
          (n_groups, table, pos_table) = foldl (fill_slot rtag b w) (replicate w 0, table, pos_table) (group_slots b)
          in (Inr (), b\<lparr>m_gpu_n_groups := n_groups, m_gpu_table_height := num_groups_max, m_gpu_table := table,
                m_gpu_pos_table := pos_table\<rparr>)))"

definition getGPUTable :: "particle_data \<Rightarrow> bonded_data \<Rightarrow> (nat list list, bonded_data) outcome" where
  "getGPUTable d b = (if m_groups_dirty b
     then obind (rebuildGPUTable d b) (\<lambda>_ b. (Inr (m_gpu_table b), b\<lparr>m_groups_dirty := False\<rparr>))
     else (Inr (m_gpu_table b), b))"

subsection \<open>Snapshots\<close>

record group_snapshot =
  gs_type_id :: "nat list"
  gs_val :: "real list"
  gs_groups :: "nat list list"
  gs_type_mapping :: "string list"
  gs_size :: nat

text \<open>The operations of a snapshot, for a class with types (\<open>ht\<close>) or with values; \<open>k\<close> is the size of a group.\<close>

definition gs_resize :: "bool \<Rightarrow> nat \<Rightarrow> nat \<Rightarrow> group_snapshot \<Rightarrow> group_snapshot" where
  "gs_resize ht k n s = (let s = (if ht then s\<lparr>gs_type_id := resized n 0 (gs_type_id s)\<rparr> else s\<lparr>gs_val := resized n 0 (gs_val s)\<rparr>)
     in s\<lparr>gs_groups := resized n (replicate k 0) (gs_groups s), gs_size := n\<rparr>)"

definition gs_validate :: "bool \<Rightarrow> group_snapshot \<Rightarrow> exn + unit" where
  "gs_validate ht s =
    (if ht \<and> length (gs_groups s) \<noteq> length (gs_type_id s) then Inl (Runtime_error ''All array sizes must match.'')
     else if \<not> ht \<and> length (gs_groups s) \<noteq> length (gs_val s) then Inl (Runtime_error ''All array sizes must match.'')
     else if ht \<and> length (remdups_adj (sort (gs_type_mapping s))) \<noteq> length (gs_type_mapping s)
       then Inl (Runtime_error ''Type names must be unique.'')
     else Inr ())"

text \<open>The copy \<open>j\<close> of group \<open>i\<close>, whose members are \<open>g\<close>, and the loop over the copies of one group.  Tags and sizes
  are unsigned 32-bit numbers.\<close>

definition replicate_copy :: "bool \<Rightarrow> nat \<Rightarrow> nat \<Rightarrow> nat \<Rightarrow> nat list \<Rightarrow> group_snapshot \<Rightarrow> nat \<Rightarrow> group_snapshot" where
  "replicate_copy ht old_size old_n_particles i g s j = (let
     h = map (\<lambda>t. (t + old_n_particles * j) mod 2 ^ 32) g;
     s = s\<lparr>gs_groups := (gs_groups s)[old_size * j + i := h]\<rparr>
     in if ht then s\<lparr>gs_type_id := (gs_type_id s)[old_size * j + i := gs_type_id s ! i]\<rparr>
        else s\<lparr>gs_val := (gs_val s)[old_size * j + i := gs_val s ! i]\<rparr>)"

definition replicate_group :: "bool \<Rightarrow> nat \<Rightarrow> nat \<Rightarrow> nat \<Rightarrow> group_snapshot \<Rightarrow> nat \<Rightarrow> group_snapshot" where
  "replicate_group ht old_size n old_n_particles s i = (let g = gs_groups s ! i
     in foldl (replicate_copy ht old_size old_n_particles i g) s [0..<n])"

definition gs_replicate :: "bool \<Rightarrow> nat \<Rightarrow> nat \<Rightarrow> nat \<Rightarrow> group_snapshot \<Rightarrow> group_snapshot" where
  "gs_replicate ht k n old_n_particles s = (let
     old_size = gs_size s;
     new_size = (n * old_size) mod 2 ^ 32;
     s = s\<lparr>gs_groups := resized new_size (replicate k 0) (gs_groups s)\<rparr>;
     s = (if ht then s\<lparr>gs_type_id := resized new_size 0 (gs_type_id s)\<rparr> else s\<lparr>gs_val := resized new_size 0 (gs_val s)\<rparr>);
     s = foldl (replicate_group ht old_size n old_n_particles) s [0..<old_size]
     in s\<lparr>gs_size := new_size\<rparr>)"

text \<open>The groups are added one after the other until one is refused.\<close>

fun add_groups :: "mpi_env \<Rightarrow> particle_data \<Rightarrow> (typeval \<times> nat list) list \<Rightarrow> bonded_data \<Rightarrow> (unit, bonded_data) outcome" where
  "add_groups mpi d [] b = (Inr (), b)"
| "add_groups mpi d ((tv, members) # gs) b = obind (addBondedGroup mpi d tv members b) (\<lambda>_ b. add_groups mpi d gs b)"

definition snapshot_typevals :: "bool \<Rightarrow> group_snapshot \<Rightarrow> typeval list" where
  "snapshot_typevals ht s = (if ht then map Type (gs_type_id s) else map Val (gs_val s))"

text \<open>With a domain decomposition every rank adds what the broadcast from rank 0 delivers: its groups, types or values
  and type names.\<close>

definition bg_initializeFromSnapshot :: "mpi_env \<Rightarrow> typeval list \<times> nat list list \<times> string list \<Rightarrow> particle_data \<Rightarrow>
    group_snapshot \<Rightarrow> bonded_data \<Rightarrow> (unit, bonded_data) outcome" where
  "bg_initializeFromSnapshot mpi received d s b =
    (case (if getRank mpi = 0 then gs_validate (has_type_mapping b) s else Inr ()) of Inl e \<Rightarrow> (Inl e, b)
     | Inr _ \<Rightarrow> (let
         b = bg_initialize b;
         (typevals, groups, types) = (if decomposed mpi then received
           else (snapshot_typevals (has_type_mapping b) s, gs_groups s, gs_type_mapping s));
         b = b\<lparr>m_group_types := types\<rparr>
         in add_groups mpi d (zip typevals groups) b))"

text \<open>The loop over the active tags: \<open>lookup\<close> finds the type or value and the members of a group, \<open>err\<close> is the
  message for a tag that is not found and \<open>index\<close> collects the rows of the snapshot.\<close>

fun store_groups :: "bool \<Rightarrow> (nat \<rightharpoonup> typeval \<times> nat list) \<Rightarrow> (nat \<Rightarrow> string) \<Rightarrow> nat list \<Rightarrow> nat \<Rightarrow> (nat \<rightharpoonup> nat) \<times> group_snapshot \<Rightarrow>
    (nat \<rightharpoonup> nat, group_snapshot) outcome" where
  "store_groups ht lookup err [] snap_id (index, s) = (Inr index, s)"
| "store_groups ht lookup err (t # ts) snap_id (index, s) = (case lookup t of
     None \<Rightarrow> (Inl (Runtime_error (err t)), s)
   | Some (tv, members) \<Rightarrow> (let
       index = index(t \<mapsto> snap_id);
       s = s\<lparr>gs_groups := (gs_groups s)[snap_id := members]\<rparr>;
       s = (if ht then s\<lparr>gs_type_id := (gs_type_id s)[snap_id := tv_type tv]\<rparr>
            else s\<lparr>gs_val := (gs_val s)[snap_id := tv_val tv]\<rparr>)
       in store_groups ht lookup err ts (snap_id + 1) (index, s)))"

text \<open>The groups by tag, from the local vectors, and from the vectors of all ranks: a group that several ranks hold is
  taken from the first of them.\<close>

definition group_data :: "bonded_group \<Rightarrow> typeval \<times> nat list" where
  "group_data g = (g_typeval g, g_members g)"

definition local_lookup :: "bonded_data \<Rightarrow> nat \<rightharpoonup> typeval \<times> nat list" where
  "local_lookup b = map_of (map (\<lambda>i. (g_tag (m_groups b ! i), group_data (m_groups b ! i))) [0..<m_n_groups b])"

definition gathered_lookup :: "bonded_data list \<Rightarrow> nat \<rightharpoonup> typeval \<times> nat list" where
  "gathered_lookup bs t = foldr (\<lambda>b found. case local_lookup b t of Some g \<Rightarrow> Some g | None \<Rightarrow> found) bs None"

definition bg_takeSnapshot :: "bonded_data \<Rightarrow> group_snapshot \<Rightarrow> (nat \<rightharpoonup> nat, group_snapshot) outcome" where
  "bg_takeSnapshot b s = (let
     s = gs_resize (has_type_mapping b) (group_size b) (m_nglobal_groups b) s
     in obind (store_groups (has_type_mapping b) (local_lookup b) (\<lambda>t. ''Could not find '' @ group_name b @ '' '' @ nat_str t)
            (m_group_tags b) 0 (Map.empty, s))
          (\<lambda>index s. (Inr index, s\<lparr>gs_type_mapping := m_group_types b\<rparr>)))"

text \<open>With a domain decomposition: rank \<open>r\<close> of the ranks \<open>bs\<close>, where rank 0 gathers the groups of all.\<close>

definition bg_takeSnapshot_mpi :: "bonded_data list \<Rightarrow> nat \<Rightarrow> group_snapshot \<Rightarrow> (nat \<rightharpoonup> nat, group_snapshot) outcome" where
  "bg_takeSnapshot_mpi bs r s = (let b = bs ! r in
     obind (if r = 0 then
         let s = gs_resize (has_type_mapping b) (group_size b) (m_nglobal_groups b) s
         in store_groups (has_type_mapping b) (gathered_lookup bs)
              (\<lambda>t. ''Could not find '' @ group_name b @ '' '' @ nat_str t @ '' on any processor.'') (m_group_tags b) 0 (Map.empty, s)
       else (Inr Map.empty, s))
     (\<lambda>index s. (Inr index, s\<lparr>gs_type_mapping := m_group_types b\<rparr>)))"

subsection \<open>Following a particle to another rank\<close>

text \<open>On the old rank: the groups of the particle are sent, and those without a local member are removed.\<close>

definition groups_of :: "nat \<Rightarrow> bonded_data \<Rightarrow> bonded_group list" where
  "groups_of ptag b = filter (\<lambda>g. ptag \<in> set (g_members g)) (take (m_n_groups b) (m_groups b))"

definition erase_group :: "nat \<Rightarrow> bonded_data \<Rightarrow> bonded_data" where
  "erase_group i b = b\<lparr>m_groups := take i (m_groups b) @ drop (Suc i) (take (m_groups_size b) (m_groups b)) @ drop (m_groups_size b - 1) (m_groups b),
     m_groups_size := m_groups_size b - 1\<rparr>"

definition drop_group :: "particle_data \<Rightarrow> bonded_data \<Rightarrow> nat \<Rightarrow> bonded_data" where
  "drop_group d b group_tag = (let
     group_idx = m_group_rtag b ! group_tag;
     is_local = (\<exists>t\<in>set (g_members (m_groups b ! group_idx)). isParticleLocal t d) in
     if is_local then b
     else let
       b = b\<lparr>m_group_rtag := (m_group_rtag b)[group_tag := NOT_LOCAL]\<rparr>;
       b = (erase_group group_idx b)\<lparr>m_n_groups := m_n_groups b - 1\<rparr>
       in b\<lparr>m_group_rtag := reindex (map g_tag (take (m_n_groups b) (m_groups b))) (m_group_rtag b)\<rparr>)"

text \<open>On the new rank: groups that are not yet present are appended.\<close>

definition receive_group :: "bonded_data \<Rightarrow> bonded_group \<Rightarrow> bonded_data" where
  "receive_group b g = (if m_group_rtag b ! g_tag g \<noteq> NOT_LOCAL then b
     else let n = m_groups_size b;
              b = (push_group (g\<lparr>g_ranks := replicate (group_size b) 0\<rparr>) b)\<lparr>m_n_groups := m_n_groups b + 1\<rparr>
          in b\<lparr>m_group_rtag := (m_group_rtag b)[g_tag g := n]\<rparr>)"

text \<open>The method on rank \<open>my_rank\<close>: \<open>received\<close> are the groups that the old rank sends; the result is what this rank
  sends.\<close>

definition moveParticleGroups :: "nat \<Rightarrow> nat \<Rightarrow> nat \<Rightarrow> nat \<Rightarrow> bonded_group list \<Rightarrow> particle_data \<Rightarrow> bonded_data \<Rightarrow>
    bonded_group list \<times> bonded_data" where
  "moveParticleGroups ptag old_rank new_rank my_rank received d b = (let
     b = removeAllGhostGroups b;
     (sent, b) = (if my_rank = old_rank then (let sent = groups_of ptag b in (sent, foldl (drop_group d) b (map g_tag sent)))
       else if my_rank = new_rank then ([], foldl receive_group b received)
       else ([], b))
     in (sent, notifyGroupReorder (bg_emit Group_num_change b)))"

end
