(* ===== verification/BondedGroups.thy ===== *)
theory BondedGroups
  imports BondedGroupData
begin

text \<open>
  The tags of the bonded groups: the invariant of the vectors, the reverse table and the sets of tags, what adding and
  removing a group do to them on any rank, and the refinement of a finite map when there is one rank.
\<close>

section \<open>Invariant\<close>

definition locals :: "bonded_data \<Rightarrow> bonded_group list" where
  "locals b = take (m_n_groups b) (m_groups b)"

definition bg_ok :: "bonded_data \<Rightarrow> bool" where
  "bg_ok b \<longleftrightarrow> m_groups_size b = m_n_groups b + m_n_ghost b \<and> m_groups_size b \<le> length (m_groups b) \<and>
     tags_ok (map g_tag (locals b)) (m_group_rtag b) (m_group_tags b) (m_group_recycled b) \<and>
     length (m_group_rtag b) = length (m_group_tags b) + length (m_group_recycled b) \<and>
     m_nglobal_groups b = length (m_group_tags b) \<and> (\<not> m_group_cache_invalid b \<longrightarrow> m_group_cached b = m_group_tags b)"

lemma bg_okD:
  assumes "bg_ok b"
  shows "m_groups_size b = m_n_groups b + m_n_ghost b" "m_groups_size b \<le> length (m_groups b)"
    "tags_ok (map g_tag (locals b)) (m_group_rtag b) (m_group_tags b) (m_group_recycled b)"
    "length (m_group_rtag b) = length (m_group_tags b) + length (m_group_recycled b)"
    "m_nglobal_groups b = length (m_group_tags b)" "\<not> m_group_cache_invalid b \<Longrightarrow> m_group_cached b = m_group_tags b"
    "length (locals b) = m_n_groups b"
  using assms by (auto simp: bg_ok_def locals_def)

lemma locals_nth: "i < m_n_groups b \<Longrightarrow> locals b ! i = m_groups b ! i"
  by (simp add: locals_def)

text \<open>The map of the groups by tag, from the local groups.\<close>

lemma local_lookup_locals:
  assumes "m_n_groups b \<le> length (m_groups b)"
  shows "local_lookup b = map_of (map (\<lambda>g. (g_tag g, group_data g)) (locals b))"
proof -
  have "map (\<lambda>i. (g_tag (m_groups b ! i), group_data (m_groups b ! i))) [0..<m_n_groups b]
    = map (\<lambda>g. (g_tag g, group_data g)) (locals b)"
    using assms by (simp add: list_eq_iff_nth_eq locals_def)
  then show ?thesis unfolding local_lookup_def by simp
qed

lemma local_lookup_Some:
  assumes "bg_ok b"
  shows "local_lookup b t = Some v \<longleftrightarrow> (\<exists>g\<in>set (locals b). g_tag g = t \<and> group_data g = v)"
proof -
  have "m_n_groups b \<le> length (m_groups b)" using bg_okD(1,2) [OF assms] by simp
  moreover have "distinct (map fst (map (\<lambda>g. (g_tag g, group_data g)) (locals b)))"
    using tags_ok_distinct [OF bg_okD(3) [OF assms]] by (simp add: comp_def)
  ultimately show ?thesis by (auto simp: local_lookup_locals)
qed

lemma dom_local_lookup: "bg_ok b \<Longrightarrow> dom (local_lookup b) = g_tag ` set (locals b)"
  by (auto simp: dom_def local_lookup_Some group_data_def)

lemma local_lookup_eqI:
  assumes "bg_ok b" "\<And>t v. m t = Some v \<longleftrightarrow> (\<exists>g\<in>set (locals b). g_tag g = t \<and> group_data g = v)"
  shows "local_lookup b = m"
proof
  fix t
  show "local_lookup b t = m t"
    using local_lookup_Some [OF assms(1), of t] assms(2) [of t] by (metis not_Some_eq)
qed

text \<open>A group is local when its entry in the reverse table is an index.\<close>

lemma rtag_local:
  assumes "bg_ok b" "t \<in> set (m_group_tags b)"
  shows "t \<in> g_tag ` set (locals b) \<longleftrightarrow> m_group_rtag b ! t \<noteq> NOT_LOCAL"
    "m_group_rtag b ! t \<noteq> NOT_LOCAL \<longleftrightarrow> m_group_rtag b ! t < m_n_groups b"
    "m_group_rtag b ! t < m_n_groups b \<Longrightarrow> g_tag (m_groups b ! (m_group_rtag b ! t)) = t"
    "m_group_rtag b ! t < m_n_groups b \<Longrightarrow> local_lookup b t = Some (group_data (m_groups b ! (m_group_rtag b ! t)))"
proof -
  note T = bg_okD(3) [OF assms(1)] and len = bg_okD(7) [OF assms(1)]
  show "t \<in> g_tag ` set (locals b) \<longleftrightarrow> m_group_rtag b ! t \<noteq> NOT_LOCAL"
    using tags_ok_set [OF T] assms(2) by auto
  show "m_group_rtag b ! t \<noteq> NOT_LOCAL \<longleftrightarrow> m_group_rtag b ! t < m_n_groups b"
    using tags_ok_rtag [OF T assms(2)] len by simp
  assume l: "m_group_rtag b ! t < m_n_groups b"
  then have "m_group_rtag b ! t \<noteq> NOT_LOCAL" using tags_ok_rtag [OF T assms(2)] len by simp
  from tags_okD(10) [OF T assms(2) this] show g: "g_tag (m_groups b ! (m_group_rtag b ! t)) = t"
    using l len by (simp add: locals_nth)
  have "locals b ! (m_group_rtag b ! t) \<in> set (locals b)" using l len by simp
  then show "local_lookup b t = Some (group_data (m_groups b ! (m_group_rtag b ! t)))"
    using g l local_lookup_Some [OF assms(1)] by (auto simp: locals_nth)
qed

section \<open>Storage\<close>

lemma bg_reallocate_eq:
  obtains k where "bg_reallocate n b = b\<lparr>m_groups := m_groups b @ replicate k zero_group, m_groups_size := n\<rparr>"
    "n \<le> length (m_groups b) + k"
proof
  let ?k = "grown_capacity n (length (m_groups b)) - length (m_groups b)"
  show "bg_reallocate n b = b\<lparr>m_groups := m_groups b @ replicate ?k zero_group, m_groups_size := n\<rparr>"
    by (simp add: bg_reallocate_def)
  have "n \<le> grown_capacity n (length (m_groups b))"
    using grow_ge [of "max n 1"] by (auto simp: grown_capacity_def Let_def intro: order_trans [OF max.cobounded1])
  then show "n \<le> length (m_groups b) + ?k" by simp
qed

lemma removeAllGhostGroups_eq:
  assumes "bg_ok b"
  obtains gs where "removeAllGhostGroups b = b\<lparr>m_groups := gs, m_groups_size := m_n_groups b, m_n_ghost := 0\<rparr>"
    "take (m_n_groups b) gs = locals b" "m_n_groups b \<le> length gs"
proof -
  note D = bg_okD(1,2) [OF assms]
  obtain k where k: "bg_reallocate (m_n_groups b) b
      = b\<lparr>m_groups := m_groups b @ replicate k zero_group, m_groups_size := m_n_groups b\<rparr>"
    by (rule bg_reallocate_eq)
  show thesis
    by (rule that [of "m_groups b @ replicate k zero_group"])
      (use D in \<open>simp_all add: removeAllGhostGroups_def k locals_def\<close>)
qed

lemma push_group_eq:
  assumes "m_groups_size b = m_n_groups b" "m_n_groups b \<le> length (m_groups b)"
  obtains gs where "push_group g b = b\<lparr>m_groups := gs, m_groups_size := m_n_groups b + 1\<rparr>"
    "take (m_n_groups b + 1) gs = locals b @ [g]" "m_n_groups b + 1 \<le> length gs"
proof -
  obtain k where k: "bg_reallocate (m_n_groups b + 1) b
      = b\<lparr>m_groups := m_groups b @ replicate k zero_group, m_groups_size := m_n_groups b + 1\<rparr>"
    and len: "m_n_groups b + 1 \<le> length (m_groups b) + k"
    by (rule bg_reallocate_eq)
  let ?gs = "(m_groups b @ replicate k zero_group)[m_n_groups b := g]"
  have "take (m_n_groups b + 1) ?gs = locals b @ [g]"
    using assms(2) len by (simp add: take_Suc_conv_app_nth locals_def)
  then show thesis
    by (intro that [of ?gs]) (use assms len in \<open>simp_all add: push_group_def Let_def k [simplified]\<close>)
qed

text \<open>What the operations leave alone.\<close>

definition config :: "bonded_data \<Rightarrow> nat \<times> string \<times> bool \<times> string list" where
  "config b = (group_size b, group_name b, has_type_mapping b, m_group_types b)"

lemma removeAllGhostGroups_ok:
  assumes "bg_ok b"
  shows "bg_ok (removeAllGhostGroups b)" "locals (removeAllGhostGroups b) = locals b" "config (removeAllGhostGroups b) = config b"
    "local_lookup (removeAllGhostGroups b) = local_lookup b" "m_groups_size (removeAllGhostGroups b) = m_n_groups b"
    "m_n_groups (removeAllGhostGroups b) = m_n_groups b" "m_group_rtag (removeAllGhostGroups b) = m_group_rtag b"
    "m_group_tags (removeAllGhostGroups b) = m_group_tags b" "m_group_recycled (removeAllGhostGroups b) = m_group_recycled b"
    "m_n_groups b \<le> length (m_groups (removeAllGhostGroups b))" "m_n_ghost (removeAllGhostGroups b) = 0"
proof -
  obtain gs where e: "removeAllGhostGroups b = b\<lparr>m_groups := gs, m_groups_size := m_n_groups b, m_n_ghost := 0\<rparr>"
    and gs: "take (m_n_groups b) gs = locals b" "m_n_groups b \<le> length gs"
    using removeAllGhostGroups_eq [OF assms] by blast
  show "locals (removeAllGhostGroups b) = locals b" using gs by (simp add: e locals_def)
  then show "bg_ok (removeAllGhostGroups b)" "local_lookup (removeAllGhostGroups b) = local_lookup b"
    using assms gs by (simp_all add: e bg_ok_def local_lookup_locals)
  show "config (removeAllGhostGroups b) = config b" by (simp add: e config_def)
qed (use removeAllGhostGroups_eq [OF assms] in force)+

section \<open>Adding a group\<close>

definition stores_locally :: "mpi_env \<Rightarrow> particle_data \<Rightarrow> nat list \<Rightarrow> bool" where
  "stores_locally mpi d members \<longleftrightarrow> (decomposed mpi \<longrightarrow> (\<exists>t\<in>set members. isParticleLocal t d))"

lemma notifyGroupReorder_ok [simp]:
  "bg_ok (notifyGroupReorder b) = bg_ok b" "locals (notifyGroupReorder b) = locals b"
  "config (notifyGroupReorder b) = config b" "local_lookup (notifyGroupReorder b) = local_lookup b"
  "m_group_tags (notifyGroupReorder b) = m_group_tags b" "m_group_recycled (notifyGroupReorder b) = m_group_recycled b"
  "m_group_rtag (notifyGroupReorder b) = m_group_rtag b" "m_nglobal_groups (notifyGroupReorder b) = m_nglobal_groups b"
  by (simp_all add: notifyGroupReorder_def bg_emit_def bg_ok_def locals_def config_def local_lookup_def)

lemma bg_emit_ok [simp]:
  "bg_ok (bg_emit e b) = bg_ok b" "locals (bg_emit e b) = locals b"
  "config (bg_emit e b) = config b" "local_lookup (bg_emit e b) = local_lookup b"
  "m_group_tags (bg_emit e b) = m_group_tags b" "m_group_recycled (bg_emit e b) = m_group_recycled b"
  "m_group_rtag (bg_emit e b) = m_group_rtag b" "m_nglobal_groups (bg_emit e b) = m_nglobal_groups b"
  by (simp_all add: bg_emit_def bg_ok_def locals_def config_def local_lookup_def)

text \<open>The reverse table of the code is the one of the shared lemmas about tags.\<close>

lemma add_rtag_cases:
  assumes "bg_ok b" "new_tag (length (m_group_tags b)) (m_group_recycled b) = (t, rc')"
  defines "rb' \<equiv> (if m_group_recycled b = [] then m_group_rtag b @ [NOT_LOCAL] else m_group_rtag b)"
  shows "t < length rb'" "rb'[t := NOT_LOCAL] = rb'" "\<exists>zs. rb' = m_group_rtag b @ zs"
    "length rb' = length (m_group_tags b) + length rc' + 1"
proof -
  note D = bg_okD [OF assms(1)]
  have "t < length rb' \<and> rb' ! t = NOT_LOCAL \<and> length rb' = length (m_group_tags b) + length rc' + 1"
  proof (cases "m_group_recycled b")
    case Nil
    then show ?thesis using assms(2) D(4) by (auto simp: new_tag_def rb'_def nth_append)
  next
    case (Cons r rs)
    then have "t = r" "rc' = rs" using assms(2) by (auto simp: new_tag_def)
    moreover have "r < length (m_group_rtag b)" using tags_ok_less [OF D(3)] Cons by simp
    moreover have "m_group_rtag b ! r = NOT_LOCAL" using tags_okD(11) [OF D(3)] Cons by simp
    ultimately show ?thesis using Cons D(4) by (simp add: rb'_def)
  qed
  then show "t < length rb'" "rb'[t := NOT_LOCAL] = rb'" "length rb' = length (m_group_tags b) + length rc' + 1"
    by (auto simp: list_update_same_conv)
  show "\<exists>zs. rb' = m_group_rtag b @ zs" by (simp add: rb'_def)
qed

lemma addBondedGroup_refused:
  assumes "check_group (group_name b) (has_type_mapping b) (m_group_types b) d tv members = Inl e" "bg_ok b"
  shows "addBondedGroup mpi d tv members b = (Inl e, removeAllGhostGroups b)"
proof -
  have "check_group (group_name (removeAllGhostGroups b)) (has_type_mapping (removeAllGhostGroups b))
      (m_group_types (removeAllGhostGroups b)) d tv members = Inl e"
    using assms(1) removeAllGhostGroups_ok(3) [OF assms(2)] by (simp add: config_def)
  then show ?thesis by (simp add: addBondedGroup_def)
qed

lemma addBondedGroup_eq:
  fixes mpi :: mpi_env
  assumes ok: "bg_ok b" and chk: "check_group (group_name b) (has_type_mapping b) (m_group_types b) d tv members = Inr ()"
    and new: "new_tag (length (m_group_tags b)) (m_group_recycled b) = (t, rc')"
  defines "g \<equiv> \<lparr>g_members = members, g_typeval = tv, g_tag = t, g_ranks = replicate (group_size b) 0\<rparr>"
    and "rb' \<equiv> (if m_group_recycled b = [] then m_group_rtag b @ [NOT_LOCAL] else m_group_rtag b)"
    and "loc \<equiv> stores_locally mpi d members"
  obtains b' where "addBondedGroup mpi d tv members b = (Inr t, notifyGroupReorder (bg_emit Group_num_change b'))"
    "locals b' = (if loc then locals b @ [g] else locals b)" "config b' = config b"
    "m_groups_size b' = m_n_groups b'" "m_n_ghost b' = 0" "m_n_groups b' \<le> length (m_groups b')"
    "m_group_rtag b' = (if loc then rb'[t := length (locals b)] else rb')"
    "m_group_tags b' = insort_insert t (m_group_tags b)" "m_group_recycled b' = rc'" "m_group_cache_invalid b'"
    "m_nglobal_groups b' = m_nglobal_groups b + 1"
proof -
  define b0 where "b0 = removeAllGhostGroups b"
  note G = removeAllGhostGroups_ok [OF ok, folded b0_def]
  have nl: "length (locals b) = m_n_groups b" by (rule bg_okD(7) [OF ok])
  have b0: "group_size b0 = group_size b" "group_name b0 = group_name b" "has_type_mapping b0 = has_type_mapping b"
    "m_group_types b0 = m_group_types b" using G(3) by (simp_all add: config_def)
  define b1 where "b1 = b0\<lparr>m_group_recycled := rc', m_group_rtag := (if loc then rb'[t := m_n_groups b] else rb')\<rparr>"
  have ng: "m_nglobal_groups b0 = m_nglobal_groups b" "m_nglobal_groups b = length (m_group_tags b)"
    using bg_okD(5) [OF ok] bg_okD(5) [OF G(1)] G(8) by simp_all
  obtain gs where p: "push_group g b1 = b1\<lparr>m_groups := gs, m_groups_size := m_n_groups b1 + 1\<rparr>"
    "take (m_n_groups b1 + 1) gs = locals b1 @ [g]" "m_n_groups b1 + 1 \<le> length gs"
    using push_group_eq [of b1 g] G by (force simp: b1_def)
  define b2 where "b2 = (if loc then (push_group g b1)\<lparr>m_n_groups := m_n_groups b1 + 1\<rparr> else b1)"
  have l1: "locals b1 = locals b" using G(2) by (simp add: b1_def locals_def)
  define b3 where "b3 = b2\<lparr>m_group_tags := insort_insert t (m_group_tags b2), m_group_cache_invalid := True,
      m_nglobal_groups := m_nglobal_groups b2 + 1\<rparr>"
  have tag: "new_group_tag loc b0 = (t, b1)"
  proof (cases "m_group_recycled b")
    case Nil
    then have "t = length (m_group_tags b)" "rc' = []" using new by (auto simp: new_tag_def)
    moreover have "(m_group_rtag b @ [NOT_LOCAL])[length (m_group_tags b) := i] = m_group_rtag b @ [i]" for i
      using bg_okD(4) [OF ok] Nil list_update_length [of "m_group_rtag b" NOT_LOCAL "[]" i] by simp
    moreover have "m_group_recycled b0 = []" using Nil G(9) by simp
    moreover have same: "b0\<lparr>m_group_recycled := []\<rparr> = b0" using \<open>m_group_recycled b0 = []\<close> by simp
    ultimately show ?thesis using Nil G(5-9) ng unfolding b1_def rb'_def by (auto simp: same new_group_tag_def)
  next
    case (Cons r rs)
    then have "t = r" "rc' = rs" using new by (auto simp: new_tag_def)
    moreover have "b0\<lparr>m_group_recycled := rs\<rparr> = b0\<lparr>m_group_recycled := rs, m_group_rtag := m_group_rtag b\<rparr>" using G(7) by simp
    ultimately show ?thesis using Cons G by (simp add: b1_def rb'_def new_group_tag_def)
  qed
  have loc': "(if decomposed mpi then \<exists>t\<in>set members. isParticleLocal t d else True) = loc"
    by (simp add: loc_def stores_locally_def)
  have res: "addBondedGroup mpi d tv members b = (Inr t, notifyGroupReorder (bg_emit Group_num_change b3))"
    unfolding addBondedGroup_def b0_def [symmetric] Let_def loc' b0 chk tag
    by (simp add: b3_def b2_def g_def b0 b1_def)
  have l2: "locals b2 = (if loc then locals b @ [g] else locals b)" using p(1,2) l1 by (simp add: b2_def locals_def)
  have l3: "locals b3 = locals b2" by (simp add: b3_def locals_def)
  show thesis
  proof (rule that [of b3])
    show "addBondedGroup mpi d tv members b = (Inr t, notifyGroupReorder (bg_emit Group_num_change b3))" by (rule res)
    show "locals b3 = (if loc then locals b @ [g] else locals b)" using l2 l3 by simp
  qed (use p(1,3) G b0 nl ng in \<open>auto simp: b3_def b2_def b1_def config_def\<close>)
qed

lemma addBondedGroup_ok:
  assumes ok: "bg_ok b" and chk: "check_group (group_name b) (has_type_mapping b) (m_group_types b) d tv members = Inr ()"
    and new: "new_tag (length (m_group_tags b)) (m_group_recycled b) = (t, rc')"
    and room: "m_n_groups b < NOT_LOCAL" and step: "addBondedGroup mpi d tv members b = (r, b')"
  shows "r = Inr t" "bg_ok b'" "config b' = config b" "m_group_tags b' = insort_insert t (m_group_tags b)"
    "m_group_recycled b' = rc'" "m_n_ghost b' = 0"
    "local_lookup b' = (if stores_locally mpi d members then (local_lookup b)(t \<mapsto> (tv, members)) else local_lookup b)"
proof -
  define g where "g = \<lparr>g_members = members, g_typeval = tv, g_tag = t, g_ranks = replicate (group_size b) 0\<rparr>"
  define rb where "rb = (if m_group_recycled b = [] then m_group_rtag b @ [NOT_LOCAL] else m_group_rtag b)"
  define loc where "loc = stores_locally mpi d members"
  note T = bg_okD(3) [OF ok] and len = bg_okD(7) [OF ok]
  note R = add_rtag_cases [OF ok new, folded rb_def]
  note n = new_tag_props [OF T new]
  obtain c where c: "(r, b') = (Inr t, notifyGroupReorder (bg_emit Group_num_change c))"
    "locals c = (if loc then locals b @ [g] else locals b)" "config c = config b"
    "m_groups_size c = m_n_groups c" "m_n_ghost c = 0" "m_n_groups c \<le> length (m_groups c)"
    "m_group_rtag c = (if loc then rb[t := length (locals b)] else rb)"
    "m_group_tags c = insort_insert t (m_group_tags b)" "m_group_recycled c = rc'" "m_group_cache_invalid c"
    "m_nglobal_groups c = m_nglobal_groups b + 1"
    using addBondedGroup_eq [OF ok chk new, of mpi] unfolding step g_def rb_def loc_def by metis
  then have b': "r = Inr t" "b' = notifyGroupReorder (bg_emit Group_num_change c)" by auto
  obtain zs where zs: "rb = m_group_rtag b @ zs" using R(3) by blast
  have room': "length (map g_tag (locals b)) < NOT_LOCAL" using room len by simp
  have "tags_ok (map g_tag (locals c)) (m_group_rtag c) (m_group_tags c) (m_group_recycled c)"
    using tags_ok_add [OF T new zs R(1) room'] R(2) c(2,7-9) by (simp add: g_def)
  moreover have "length (m_group_rtag c) = length (m_group_tags c) + length (m_group_recycled c)"
    using R(4) c(7-9) length_insort_insert [OF n(1)] by simp
  ultimately have okc: "bg_ok c"
    using c(4-6,8,10,11) bg_okD(5) [OF ok] length_insort_insert [OF n(1)] by (simp add: bg_ok_def)
  then show "bg_ok b'" "r = Inr t" using b' by simp_all
  show "config b' = config b" "m_group_tags b' = insort_insert t (m_group_tags b)" "m_group_recycled b' = rc'"
    using b' c by simp_all
  show "m_n_ghost b' = 0" using b' c(5) by (simp add: notifyGroupReorder_def bg_emit_def)
  have "t \<notin> g_tag ` set (locals b)" using n(7) by simp
  then have "local_lookup c = (if loc then (local_lookup b)(t \<mapsto> (tv, members)) else local_lookup b)"
    by (intro local_lookup_eqI [OF okc]) (auto simp: c(2) local_lookup_Some [OF ok] g_def group_data_def)
  then show "local_lookup b' = (if stores_locally mpi d members then (local_lookup b)(t \<mapsto> (tv, members)) else local_lookup b)"
    using b' by (simp add: loc_def)
qed

section \<open>Removing a group\<close>

definition removable :: "mpi_env \<Rightarrow> nat \<Rightarrow> bonded_data \<Rightarrow> bool" where
  "removable mpi t b = (let is_local = m_group_rtag b ! t < m_n_groups b
     in if decomposed mpi then allreduce_sum mpi (if is_local then 1 else 0) \<noteq> 0 else is_local)"

lemma removeBondedGroup_refused:
  assumes "bg_ok b"
  shows "t \<ge> length (m_group_rtag b) \<Longrightarrow> removeBondedGroup mpi t b
      = (Inl (Runtime_error (''Trying to remove '' @ group_name b @ '' '' @ nat_str t @ '' which does not exist!'')), removeAllGhostGroups b)"
    "t < length (m_group_rtag b) \<Longrightarrow> \<not> removable mpi t b \<Longrightarrow> removeBondedGroup mpi t b
      = (Inl (Runtime_error (''Trying to remove '' @ group_name b @ '' '' @ nat_str t @ '' which has been previously removed!'')),
         removeAllGhostGroups b)"
  using removeAllGhostGroups_ok(3,6,7) [OF assms]
  by (simp_all add: removeBondedGroup_def Let_def removable_def config_def)

lemma swap_remove_take:
  assumes "i < n" "n \<le> length xs"
  shows "take (n - 1) (if i < n - 1 then xs[i := xs ! (n - 1)] else xs) = swap_remove i (take n xs)"
proof -
  have l: "last (take n xs) = xs ! (n - 1)" using assms by (subst last_conv_nth) auto
  show ?thesis
  proof (rule nth_equalityI)
    fix j assume "j < length (take (n - 1) (if i < n - 1 then xs[i := xs ! (n - 1)] else xs))"
    then have "j < n - 1" by simp
    then show "take (n - 1) (if i < n - 1 then xs[i := xs ! (n - 1)] else xs) ! j = swap_remove i (take n xs) ! j"
      using assms l by (auto simp: swap_remove_nth nth_list_update)
  qed (use assms in auto)
qed

lemma removeBondedGroup_ok:
  assumes ok: "bg_ok b" and t: "t \<in> set (m_group_tags b)" and av: "removable mpi t b"
    and step: "removeBondedGroup mpi t b = (r, b')"
  shows "r = Inr ()" "bg_ok b'" "config b' = config b" "m_group_tags b' = remove1 t (m_group_tags b)"
    "m_group_recycled b' = t # m_group_recycled b" "local_lookup b' = (local_lookup b)(t := None)"
proof -
  define b0 where "b0 = removeAllGhostGroups b"
  note G = removeAllGhostGroups_ok [OF ok, folded b0_def]
  note T = bg_okD(3) [OF ok] and len = bg_okD(7) [OF ok]
  define i where "i = m_group_rtag b ! t"
  define n where "n = m_n_groups b"
  have lt: "t < length (m_group_rtag b)" using tags_ok_less [OF T] t by blast
  define b1 where "b1 = b0\<lparr>m_group_rtag := (m_group_rtag b)[t := NOT_LOCAL]\<rparr>"
  define lst where "lst = m_groups b0 ! (n - 1)"
  define b2 where "b2 = (if i < n - 1 then b1\<lparr>m_groups := (m_groups b1)[i := lst], m_group_rtag := (m_group_rtag b1)[g_tag lst := i]\<rparr> else b1)"
  define b3 where "b3 = (if i < n then (pop_group b2)\<lparr>m_n_groups := m_n_groups b2 - 1\<rparr> else b1)"
  define b4 where "b4 = b3\<lparr>m_group_tags := remove1 t (m_group_tags b3), m_group_cache_invalid := True,
     m_group_recycled := t # m_group_recycled b3, m_nglobal_groups := m_nglobal_groups b3 - 1\<rparr>"
  have av': "(if decomposed mpi then allreduce_sum mpi (if i < n then 1 else 0) \<noteq> 0 else i < n) = True"
    using av by (simp add: removable_def i_def n_def Let_def)
  have res: "r = Inr () \<and> b' = notifyGroupReorder (bg_emit Group_num_change b4)"
    using step [symmetric] lt av'
    unfolding removeBondedGroup_def b0_def [symmetric] Let_def G(6,7) i_def [symmetric] n_def [symmetric]
    by (simp add: b4_def b3_def b2_def b1_def lst_def G n_def [symmetric] not_le)
  have b4: "m_group_tags b4 = remove1 t (m_group_tags b)" "m_group_recycled b4 = t # m_group_recycled b"
    "m_nglobal_groups b4 = m_nglobal_groups b - 1" "m_group_cache_invalid b4" "config b4 = config b"
    using G bg_okD(5) [OF ok] bg_okD(5) [OF G(1)] by (auto simp: b4_def b3_def b2_def b1_def pop_group_def config_def)
  have sz: "m_groups_size b4 = m_n_groups b4 + m_n_ghost b4" "m_groups_size b4 \<le> length (m_groups b4)"
    using G by (auto simp: b4_def b3_def b2_def b1_def pop_group_def n_def)
  have la: "take n (m_groups b0) = locals b" "n \<le> length (m_groups b0)" using G by (simp_all add: locals_def n_def)
  have loc: "locals b4 = (if i < n then swap_remove i (locals b) else locals b)"
  proof (cases "i < n")
    case True
    have "m_groups b4 = (if i < n - 1 then (m_groups b0)[i := m_groups b0 ! (n - 1)] else m_groups b0)" "m_n_groups b4 = n - 1"
      using True G by (auto simp: b4_def b3_def b2_def b1_def pop_group_def lst_def n_def)
    then show ?thesis using True swap_remove_take [OF True la(2)] la(1) by (simp add: locals_def)
  next
    case False
    then show ?thesis using la G by (simp add: b4_def b3_def b1_def locals_def)
  qed
  have last: "last (map g_tag (locals b)) = g_tag lst" if "i < n"
  proof -
    have "locals b \<noteq> []" using that len by (auto simp: n_def)
    then have "last (locals b) = locals b ! (n - 1)" using len by (simp add: last_conv_nth n_def)
    moreover have "locals b ! (n - 1) = lst" unfolding la(1) [symmetric] lst_def using that by simp
    ultimately show ?thesis using \<open>locals b \<noteq> []\<close> by (simp add: last_map)
  qed
  have rb: "m_group_rtag b4 = (let rb = (m_group_rtag b)[t := NOT_LOCAL] in
      if i < n then (if i < n - 1 then rb[g_tag lst := i] else rb) else rb)"
    using G by (simp add: b4_def b3_def b2_def b1_def pop_group_def)
  have "tags_ok (map g_tag (locals b4)) (m_group_rtag b4) (m_group_tags b4) (m_group_recycled b4)"
  proof (cases "i < n")
    case True
    have "swap_remove i (map g_tag (locals b)) = map g_tag (swap_remove i (locals b))"
      using True len by (cases "locals b" rule: rev_cases) (auto simp: swap_remove_def map_butlast map_update n_def)
    moreover have il: "i < length (map g_tag (locals b))" "m_group_rtag b ! t = i" "length (map g_tag (locals b)) = n"
      using True len by (simp_all add: n_def i_def)
    ultimately show ?thesis
      using tags_ok_remove_local [OF T t il(1,2)] unfolding il(3) last [OF True] rb loc b4(1,2) Let_def
      by (simp only: True if_True)
  next
    case False
    then have nl: "m_group_rtag b ! t = NOT_LOCAL" using rtag_local(2) [OF ok t] by (simp add: i_def n_def)
    then have "(m_group_rtag b)[t := NOT_LOCAL] = m_group_rtag b" by (simp add: list_update_same_conv lt)
    then show ?thesis using tags_ok_remove_remote [OF T t nl] False rb loc b4(1,2) by simp
  qed
  moreover have "length (m_group_rtag b4) = length (m_group_tags b4) + length (m_group_recycled b4)"
    using rb bg_okD(4) [OF ok] b4(1,2) t length_pos_if_in_set [OF t]
    by (simp add: Let_def length_remove1 split: if_split)
  moreover have "m_nglobal_groups b4 = length (m_group_tags b4)"
    using b4(1,3) bg_okD(5) [OF ok] t by (simp add: length_remove1)
  ultimately have ok4: "bg_ok b4" using sz b4(4) by (simp add: bg_ok_def)
  have "set (locals b4) = {g \<in> set (locals b). g_tag g \<noteq> t}"
  proof (cases "i < n")
    case True
    have d: "distinct (map g_tag (locals b))" by (rule tags_ok_distinct [OF T])
    have it: "g_tag (locals b ! i) = t" "i < length (locals b)"
      using rtag_local(3) [OF ok t] True len by (simp_all add: i_def n_def locals_nth)
    have "g_tag g = t \<longleftrightarrow> g = locals b ! i" if "g \<in> set (locals b)" for g
      using inj_onD [OF distinct_map [THEN iffD1, OF d, THEN conjunct2], of g "locals b ! i"] that it by fastforce
    moreover have "distinct (locals b)" using d by (simp add: distinct_map)
    ultimately show ?thesis using loc True set_swap_remove [OF _ it(2)] by auto
  next
    case False
    then have "t \<notin> g_tag ` set (locals b)" using rtag_local(1,2) [OF ok t] by (simp add: i_def n_def)
    then show ?thesis using loc False by auto
  qed
  then have "local_lookup b4 = (local_lookup b)(t := None)"
    by (intro local_lookup_eqI [OF ok4]) (auto simp: local_lookup_Some [OF ok])
  then show "r = Inr ()" "bg_ok b'" "config b' = config b" "m_group_tags b' = remove1 t (m_group_tags b)"
    "m_group_recycled b' = t # m_group_recycled b" "local_lookup b' = (local_lookup b)(t := None)"
    using res ok4 b4 by simp_all
qed

section \<open>Refinement of a map from tags to groups\<close>

text \<open>Without a domain decomposition every active group is local.\<close>

definition bg_inv :: "bonded_data \<Rightarrow> bool" where
  "bg_inv b \<longleftrightarrow> bg_ok b \<and> (\<forall>t\<in>set (m_group_tags b). m_group_rtag b ! t \<noteq> NOT_LOCAL)"

lemma bg_inv_iff: "bg_inv b \<longleftrightarrow> bg_ok b \<and> dom (local_lookup b) = set (m_group_tags b)"
proof (cases "bg_ok b")
  case True
  have "g_tag ` set (locals b) \<subseteq> set (m_group_tags b)" using tags_ok_set [OF bg_okD(3) [OF True]] by auto
  then show ?thesis using True rtag_local(1) [OF True] by (auto simp: bg_inv_def dom_local_lookup [OF True])
qed (simp add: bg_inv_def)

lemma bg_inv_counts:
  assumes "bg_inv b"
  shows "bg_ok b" "dom (local_lookup b) = set (m_group_tags b)" "card (dom (local_lookup b)) = m_nglobal_groups b"
    "m_n_groups b = m_nglobal_groups b" "sorted_list_of_set (dom (local_lookup b)) = m_group_tags b"
proof -
  show ok: "bg_ok b" and dom: "dom (local_lookup b) = set (m_group_tags b)" using assms by (simp_all add: bg_inv_iff)
  note T = tags_okD(1,2) [OF bg_okD(3) [OF ok]]
  show c: "card (dom (local_lookup b)) = m_nglobal_groups b" using T(2) bg_okD(5) [OF ok] by (simp add: dom distinct_card)
  have "card (g_tag ` set (locals b)) = m_n_groups b"
    using distinct_card [OF tags_ok_distinct [OF bg_okD(3) [OF ok]]] bg_okD(7) [OF ok] by simp
  then show "m_n_groups b = m_nglobal_groups b" using c by (simp add: dom_local_lookup [OF ok])
  show "sorted_list_of_set (dom (local_lookup b)) = m_group_tags b"
    unfolding dom by (rule sorted_distinct_set_unique) (use T in auto)
qed

datatype bg_op = Add_group typeval "nat list" | Remove_group nat | Nth_tag nat | Get_group nat | Set_type_name nat string

datatype bg_result = Tag nat | Done | Group "typeval \<times> nat list"

fun bg_step :: "particle_data \<Rightarrow> bg_op \<Rightarrow> bonded_data \<Rightarrow> (bg_result, bonded_data) outcome" where
  "bg_step d (Add_group tv members) b = obind (addBondedGroup serial_env d tv members b) (\<lambda>t b. (Inr (Tag t), b))"
| "bg_step d (Remove_group t) b = obind (removeBondedGroup serial_env t b) (\<lambda>_ b. (Inr Done, b))"
| "bg_step d (Nth_tag n) b = obind (bg_getNthTag n b) (\<lambda>t b. (Inr (Tag t), b))"
| "bg_step d (Get_group t) b = (map_sum id Group (getGroupByTag d t b), b)"
| "bg_step d (Set_type_name ty name) b = obind (bg_setTypeName ty name b) (\<lambda>_ b. (Inr Done, b))"

text \<open>The abstract machine: a finite map, the stack of tags to use again, and the size of a group, the name of the
  class, whether it has types, and their names.\<close>

type_synonym bg_abs_state = "(nat \<rightharpoonup> typeval \<times> nat list) \<times> nat list \<times> nat \<times> string \<times> bool \<times> string list"

fun bg_spec :: "particle_data \<Rightarrow> bg_op \<Rightarrow> bg_abs_state \<Rightarrow> (bg_result, bg_abs_state) outcome" where
  "bg_spec d (Add_group tv members) (m, rc, k, name, ht, types) = (case check_group name ht types d tv members of
     Inl e \<Rightarrow> (Inl e, (m, rc, k, name, ht, types))
   | Inr _ \<Rightarrow> (let (t, rc') = new_tag (card (dom m)) rc in (Inr (Tag t), (m(t \<mapsto> (tv, members)), rc', k, name, ht, types))))"
| "bg_spec d (Remove_group t) (m, rc, k, name, ht, types) =
    (if t \<ge> card (dom m) + length rc then
       (Inl (Runtime_error (''Trying to remove '' @ name @ '' '' @ nat_str t @ '' which does not exist!'')), (m, rc, k, name, ht, types))
     else if m t = None then
       (Inl (Runtime_error (''Trying to remove '' @ name @ '' '' @ nat_str t @ '' which has been previously removed!'')), (m, rc, k, name, ht, types))
     else (Inr Done, (m(t := None), t # rc, k, name, ht, types)))"
| "bg_spec d (Nth_tag n) (m, rc, k, name, ht, types) =
    (if n \<ge> card (dom m) then
       (Inl (Runtime_error (name @ '' index '' @ nat_str n @ '' out of bounds!'' @ ''The number of '' @ name
         @ ''s is '' @ nat_str (card (dom m)))), (m, rc, k, name, ht, types))
     else (Inr (Tag (sorted_list_of_set (dom m) ! n)), (m, rc, k, name, ht, types)))"
| "bg_spec d (Get_group t) (m, rc, k, name, ht, types) =
    ((case m t of None \<Rightarrow> Inl (Runtime_error (''Trying to get type or constraint value of '' @ name @ '' '' @ nat_str t
         @ '' which does not exist!''))
      | Some g \<Rightarrow> map_sum id Group (check_members name d t g)), (m, rc, k, name, ht, types))"
| "bg_spec d (Set_type_name ty new_name) (m, rc, k, name, ht, types) =
    (if ty \<ge> length types then
       (Inl (Runtime_error (''Setting type name for non-existent type '' @ nat_str ty)), (m, rc, k, name, ht, types))
     else (Inr Done, (m, rc, k, name, ht, types[ty := new_name])))"

text \<open>The code does not check a tag that was never given out when it looks a group up.\<close>

fun bg_pre :: "bg_op \<Rightarrow> bg_abs_state \<Rightarrow> bool" where
  "bg_pre (Add_group tv members) (m, rc, cfg) \<longleftrightarrow> card (dom m) < NOT_LOCAL"
| "bg_pre (Get_group t) (m, rc, cfg) \<longleftrightarrow> t < card (dom m) + length rc"
| "bg_pre _ _ \<longleftrightarrow> True"

definition bg_abs :: "bonded_data \<Rightarrow> bg_abs_state" where
  "bg_abs b = (local_lookup b, m_group_recycled b, config b)"

lemma bg_invI: "bg_ok b \<Longrightarrow> dom (local_lookup b) = set (m_group_tags b) \<Longrightarrow> bg_inv b"
  by (simp add: bg_inv_iff)

lemma removeAllGhostGroups_inv:
  assumes "bg_inv b"
  shows "bg_inv (removeAllGhostGroups b)" "bg_abs (removeAllGhostGroups b) = bg_abs b"
  using assms removeAllGhostGroups_ok [of b] by (simp_all add: bg_inv_iff bg_abs_def)

lemma bg_add_refines:
  assumes inv: "bg_inv b" and pre: "bg_pre (Add_group tv members) (bg_abs b)"
    and step: "addBondedGroup serial_env d tv members b = (r, b')"
  shows "bg_inv b' \<and> bg_spec d (Add_group tv members) (bg_abs b) = (map_sum id Tag r, bg_abs b')"
proof (cases "check_group (group_name b) (has_type_mapping b) (m_group_types b) d tv members")
  case (Inl e)
  then show ?thesis
    using addBondedGroup_refused [OF Inl bg_inv_counts(1) [OF inv], of serial_env] step removeAllGhostGroups_inv [OF inv]
    by (simp add: bg_abs_def config_def)
next
  case (Inr u)
  note c = bg_inv_counts [OF inv]
  obtain t rc' where new: "new_tag (length (m_group_tags b)) (m_group_recycled b) = (t, rc')" by fastforce
  have room: "m_n_groups b < NOT_LOCAL" using pre c by (simp add: bg_abs_def)
  have chk: "check_group (group_name b) (has_type_mapping b) (m_group_types b) d tv members = Inr ()" using Inr by simp
  note R = addBondedGroup_ok [OF c(1) chk new room step]
  have "stores_locally serial_env d members" by (simp add: stores_locally_def serial_env_def)
  then have l: "local_lookup b' = (local_lookup b)(t \<mapsto> (tv, members))" using R(7) by simp
  have "bg_inv b'" by (rule bg_invI [OF R(2)]) (use R(4) l c(2) in \<open>simp add: set_insort_insert\<close>)
  then show ?thesis
    using R(1,3,5) l chk new c(3) bg_okD(5) [OF c(1)] by (simp add: bg_abs_def config_def)
qed

lemma bg_remove_refines:
  assumes inv: "bg_inv b" and step: "removeBondedGroup serial_env t b = (r, b')"
  shows "bg_inv b' \<and> bg_spec d (Remove_group t) (bg_abs b) = (map_sum id (\<lambda>_. Done) r, bg_abs b')"
proof -
  note c = bg_inv_counts [OF inv] and D = bg_okD [OF bg_inv_counts(1) [OF inv]]
  note G = removeAllGhostGroups_inv [OF inv]
  have rem: "removable serial_env t b \<longleftrightarrow> m_group_rtag b ! t < m_n_groups b"
    by (simp add: removable_def Let_def serial_env_def)
  consider (unknown) "t \<ge> length (m_group_rtag b)"
    | (gone) "t < length (m_group_rtag b)" "t \<notin> set (m_group_tags b)" | (active) "t \<in> set (m_group_tags b)"
    by (metis not_less)
  then show ?thesis
  proof cases
    case unknown
    then have "t \<ge> card (dom (local_lookup b)) + length (m_group_recycled b)" using D(4,5) c(3) by simp
    then show ?thesis
      using removeBondedGroup_refused(1) [OF c(1) unknown, of serial_env] step G by (auto simp: bg_abs_def config_def)
  next
    case gone
    have "t \<in> set (m_group_tags b) \<union> set (m_group_recycled b)"
      unfolding tags_okD(5) [OF D(3)] using gone(1) D(4) by simp
    then have "t \<in> set (m_group_recycled b)" using gone(2) by blast
    then have "\<not> removable serial_env t b" using tags_okD(11,12) [OF D(3)] D(7) rem by simp
    moreover have "local_lookup b t = None" using gone(2) c(2) by blast
    moreover have "t < card (dom (local_lookup b)) + length (m_group_recycled b)" using gone(1) D(4,5) c(3) by simp
    ultimately show ?thesis
      using removeBondedGroup_refused(2) [OF c(1) gone(1), of serial_env] step G by (auto simp: bg_abs_def config_def)
  next
    case active
    have av: "removable serial_env t b" using inv active rem rtag_local(2) [OF c(1) active] by (simp add: bg_inv_def)
    note R = removeBondedGroup_ok [OF c(1) active av step]
    have "bg_inv b'"
      by (rule bg_invI [OF R(2)]) (use R(4,6) c(2) tags_okD(2) [OF D(3)] in \<open>simp add: set_remove1_eq\<close>)
    moreover have "t < card (dom (local_lookup b)) + length (m_group_recycled b)"
      using tags_ok_less [OF D(3), of t] active D(4,5) c(3) by simp
    moreover have "local_lookup b t \<noteq> None" using active c(2) by blast
    ultimately show ?thesis using R(1,3,5,6) by (auto simp: bg_abs_def config_def)
  qed
qed

lemma bg_get_refines:
  assumes inv: "bg_inv b" and pre: "bg_pre (Get_group t) (bg_abs b)"
  shows "bg_spec d (Get_group t) (bg_abs b) = (map_sum id Group (getGroupByTag d t b), bg_abs b)"
proof -
  note c = bg_inv_counts [OF inv] and D = bg_okD [OF bg_inv_counts(1) [OF inv]]
  have t: "t \<in> set (m_group_tags b) \<union> set (m_group_recycled b)"
    unfolding tags_okD(5) [OF D(3)] using pre D(5) c(3) by (simp add: bg_abs_def)
  show ?thesis
  proof (cases "t \<in> set (m_group_tags b)")
    case True
    then have "m_group_rtag b ! t \<noteq> NOT_LOCAL" using inv by (simp add: bg_inv_def)
    then show ?thesis
      using rtag_local(2,4) [OF c(1) True] by (simp add: bg_abs_def config_def getGroupByTag_def group_data_def Let_def)
  next
    case False
    then have "m_group_rtag b ! t = NOT_LOCAL" using t tags_okD(11) [OF D(3)] by blast
    moreover have "local_lookup b t = None" using False c(2) by blast
    ultimately show ?thesis by (simp add: bg_abs_def config_def getGroupByTag_def)
  qed
qed

lemma bg_step_refines:
  assumes inv: "bg_inv b" and pre: "bg_pre op (bg_abs b)"
  shows "bg_inv (snd (bg_step d op b)) \<and> bg_spec d op (bg_abs b) = (fst (bg_step d op b), bg_abs (snd (bg_step d op b)))"
proof (cases op)
  case (Add_group tv members)
  obtain r b' where step: "addBondedGroup serial_env d tv members b = (r, b')" by fastforce
  show ?thesis using bg_add_refines [OF inv _ step] pre Add_group step by (cases r) (auto simp: id_def)
next
  case (Remove_group t)
  obtain r b' where step: "removeBondedGroup serial_env t b = (r, b')" by fastforce
  show ?thesis using bg_remove_refines [OF inv step, of d] Remove_group step by (cases r) (auto simp: id_def)
next
  case (Nth_tag n)
  note c = bg_inv_counts [OF inv]
  have "bg_inv (bg_maybe_rebuild_tag_cache b)" "bg_abs (bg_maybe_rebuild_tag_cache b) = bg_abs b"
    "m_group_cached (bg_maybe_rebuild_tag_cache b) = m_group_tags b"
    using inv bg_okD(6) [OF c(1)]
    by (auto simp: bg_maybe_rebuild_tag_cache_def bg_inv_def bg_ok_def locals_def bg_abs_def config_def local_lookup_def)
  then show ?thesis using inv c Nth_tag by (simp add: bg_getNthTag_def bg_abs_def config_def Let_def)
next
  case (Get_group t)
  then show ?thesis using bg_get_refines [OF inv] pre inv by simp
next
  case (Set_type_name ty name)
  then show ?thesis using inv
    by (simp add: bg_setTypeName_def bg_inv_def bg_ok_def locals_def bg_abs_def config_def local_lookup_def)
qed

interpretation bnds: refinement bg_inv bg_abs bg_pre "bg_step d" "bg_spec d" for d
  by unfold_locales (use bg_step_refines in \<open>auto simp: prod_eq_iff\<close>)

section \<open>Remarks on the code\<close>

text \<open>When there is no particle at all, the largest tag is the largest number and the check of the members lets every
  tag pass.\<close>

lemma add_without_particles:
  assumes "m_tag_set d = []" "distinct members" "\<not> has_types" "\<forall>t\<in>set members. t < 2 ^ 32"
  shows "check_group name has_types types d tv members = Inr ()"
  using assms by (auto simp: check_group_def getMaximumTag_def)

text \<open>The check compares with the largest tag only: a group may be added with a member that has been removed, and then
  cannot be looked up.\<close>

lemma add_with_removed_member:
  assumes "m_tag_set d = [0, 2]"
  shows "check_group name False types d (Val v) [0, 1] = Inr ()"
    "check_members name d t (Val v, [0, 1]) = Inl (Runtime_error (''Member tag '' @ nat_str 1 @ '' of '' @ name @ '' '' @ nat_str t
       @ '' does not exist!'' @ newline))"
  using assms by (auto simp: check_group_def getMaximumTag_def check_members_def isTagActive_def)

section \<open>Properties\<close>

lemma BondedGroupData_inv:
  "bg_inv (BondedGroupData k name ht names)" "bg_abs (BondedGroupData k name ht names) = (Map.empty, [], k, name, ht, if ht then names else [])"
  by (simp_all add: BondedGroupData_def bg_initialize_def bg_inv_def bg_ok_def locals_def tags_ok_def bg_abs_def
      local_lookup_def config_def)

text \<open>C28: Without a domain decomposition every sequence of \<open>addBondedGroup\<close>, \<open>removeBondedGroup\<close>, \<open>getNthTag\<close>,
  \<open>getGroupByTag\<close> and \<open>setTypeName\<close> returns the tags and groups and raises the errors of a finite map from tags to groups
  with a stack of tags to use again, and leaves the vectors and the reverse table holding exactly that map: a refused group
  changes nothing, and the group that is moved into the gap of a removed one keeps its tag.\<close>

theorem bonded_groups_refine:
  assumes "bg_inv b" "pre_run bg_pre (bg_spec d) ops (bg_abs b)"
  shows "bg_inv (snd (run_ops (bg_step d) ops b)) \<and>
    fst (run_ops (bg_step d) ops b) = fst (run_ops (bg_spec d) ops (bg_abs b)) \<and>
    bg_abs (snd (run_ops (bg_step d) ops b)) = snd (run_ops (bg_spec d) ops (bg_abs b))"
  using assms by (rule bnds.run_refines)

definition three_particles :: particle_data where
  "three_particles = allocated_empty\<lparr>m_tag_set := [0, 1, 2]\<rparr>"

theorem bonded_groups_refine_witness:
  "fst (run_ops (bg_step three_particles)
      [Add_group (Type 0) [0, 1], Add_group (Type 0) [1, 2], Remove_group 0, Get_group 1, Add_group (Type 0) [0, 2],
       Add_group (Type 0) [1, 1]] (BondedGroupData 2 ''bond'' True [''A'']))
    = [Inr (Tag 0), Inr (Tag 1), Inr Done, Inr (Group (Type 0, [1, 2])), Inr (Tag 0),
       Inl (Runtime_error (''The same particle can only occur once in a '' @ ''bond'' @ '': '' @ join_tags '','' [1, 1] @ newline))]"
proof -
  let ?c = "(2::nat, ''bond'', True, [''A''])"
  let ?g = "\<lambda>x y. (Type 0, [x, y :: nat])"
  have d: "dom [0 \<mapsto> ?g 0 1, 1 \<mapsto> ?g 1 2] = {0, 1::nat}" "dom [1 \<mapsto> ?g 1 2, 0 \<mapsto> ?g 0 2] = {0, 1::nat}" by auto
  have chk: "check_group ''bond'' True [''A''] three_particles (Type 0) [x, y] = Inr ()" if "x \<le> 2" "y \<le> 2" "x \<noteq> y" for x y
    using that by (simp add: check_group_def three_particles_def getMaximumTag_def)
  have steps: "bg_spec three_particles (Add_group (Type 0) [0, 1]) (Map.empty, [], ?c) = (Inr (Tag 0), ([0 \<mapsto> ?g 0 1], [], ?c))"
    "bg_spec three_particles (Add_group (Type 0) [1, 2]) ([0 \<mapsto> ?g 0 1], [], ?c) = (Inr (Tag 1), ([0 \<mapsto> ?g 0 1, 1 \<mapsto> ?g 1 2], [], ?c))"
    "bg_spec three_particles (Remove_group 0) ([0 \<mapsto> ?g 0 1, 1 \<mapsto> ?g 1 2], [], ?c) = (Inr Done, ([1 \<mapsto> ?g 1 2], [0], ?c))"
    "bg_spec three_particles (Get_group 1) ([1 \<mapsto> ?g 1 2], [0], ?c) = (Inr (Group (?g 1 2)), ([1 \<mapsto> ?g 1 2], [0], ?c))"
    "bg_spec three_particles (Add_group (Type 0) [0, 2]) ([1 \<mapsto> ?g 1 2], [0], ?c) = (Inr (Tag 0), ([1 \<mapsto> ?g 1 2, 0 \<mapsto> ?g 0 2], [], ?c))"
    "bg_spec three_particles (Add_group (Type 0) [1, 1]) ([1 \<mapsto> ?g 1 2, 0 \<mapsto> ?g 0 2], [], ?c) =
      (Inl (Runtime_error (''The same particle can only occur once in a '' @ ''bond'' @ '': '' @ join_tags '','' [1, 1] @ newline)),
       ([1 \<mapsto> ?g 1 2, 0 \<mapsto> ?g 0 2], [], ?c))"
    by (auto simp: chk d new_tag_def fun_eq_iff check_members_def isTagActive_def)
      (auto simp: check_group_def three_particles_def getMaximumTag_def)
  have "pre_run bg_pre (bg_spec three_particles) [Add_group (Type 0) [0, 1], Add_group (Type 0) [1, 2], Remove_group 0, Get_group 1,
      Add_group (Type 0) [0, 2], Add_group (Type 0) [1, 1]] (bg_abs (BondedGroupData 2 ''bond'' True [''A'']))"
    unfolding BondedGroupData_inv(2) by (simp add: steps d NOT_LOCAL_def del: bg_spec.simps One_nat_def)
  from bonded_groups_refine [OF BondedGroupData_inv(1) this] show ?thesis
    unfolding BondedGroupData_inv(2) by (simp add: steps del: bg_spec.simps One_nat_def)
qed

end
