(* ===== verification/BondedTables.thy ===== *)
theory BondedTables
  imports BondedGroups
begin

text \<open>
  The lookup table of \<open>rebuildGPUTable\<close>: what the counting loop and the filling loop compute, and that every row describes
  a group of its particle.
\<close>

section \<open>The table of the groups of each particle\<close>

definition entries :: "nat list \<Rightarrow> bonded_data \<Rightarrow> nat \<Rightarrow> (nat \<times> nat) list" where
  "entries rtag b p = filter (\<lambda>s. slot_index rtag b s = p) (group_slots b)"

lemma count_slots_complete:
  assumes "\<forall>s\<in>set ss. slot_index rtag b s < w" "w \<le> NOT_LOCAL" "length ns = w"
  shows "count_slots rtag b ss ns = (None, map (\<lambda>p. ns ! p + length (filter (\<lambda>s. slot_index rtag b s = p) ss)) [0..<w])"
  using assms
proof (induction ss arbitrary: ns)
  case Nil
  then show ?case by (auto simp: map_nth)
next
  case (Cons s ss)
  let ?i = "slot_index rtag b s"
  have i: "?i < w" "?i \<noteq> NOT_LOCAL" using Cons.prems by auto
  have "map (\<lambda>p. ns[?i := ns ! ?i + 1] ! p + length (filter (\<lambda>s. slot_index rtag b s = p) ss)) [0..<w]
      = map (\<lambda>p. ns ! p + length (filter (\<lambda>s. slot_index rtag b s = p) (s # ss))) [0..<w]"
    using Cons.prems(3) i by (auto simp: nth_list_update)
  then show ?case using Cons.IH [of "ns[?i := ns ! ?i + 1]"] Cons.prems i by (simp add: Let_def)
qed

lemma count_slots_incomplete:
  "fst (count_slots rtag b ss ns) = map_option fst (find (\<lambda>s. slot_index rtag b s = NOT_LOCAL) ss)"
  by (induction ss arbitrary: ns) (auto simp: Let_def)

lemma max_element_ge: "x \<in> set xs \<Longrightarrow> x \<le> max_element xs"
proof -
  assume x: "x \<in> set xs"
  have "y \<le> foldl max y zs" "z \<in> set zs \<Longrightarrow> z \<le> foldl max y zs" for y z :: nat and zs
    by (induction zs arbitrary: y) (auto intro: order_trans [OF max.cobounded1] order_trans [OF max.cobounded2])
  then show ?thesis using x by (cases xs) auto
qed

lemma slot_position_inject:
  assumes "p < w" "q < w" "k * w + p = l * w + (q :: nat)"
  shows "k = l \<and> p = q"
proof -
  have "(k * w + p) div w = k" using assms(1) by simp
  moreover have "(l * w + q) div w = l" using assms(2) by simp
  ultimately have "k = l" using assms(3) by simp
  then show ?thesis using assms(3) by simp
qed

lemma slot_position_less:
  assumes "p < w" "k < h"
  shows "k * w + p < w * (h :: nat)"
proof -
  have "k * w + p < (k + 1) * w" using assms by simp
  also have "\<dots> \<le> h * w" using assms by (intro mult_right_mono) auto
  finally show ?thesis by (simp add: mult.commute)
qed

definition filled :: "nat list \<Rightarrow> bonded_data \<Rightarrow> nat \<Rightarrow> (nat \<times> nat) list \<Rightarrow> nat list \<times> nat list list \<times> nat list \<Rightarrow> bool" where
  "filled rtag b w ss st \<longleftrightarrow> (let f = \<lambda>p. filter (\<lambda>s. slot_index rtag b s = p) ss in
     case st of (ns, table, pos) \<Rightarrow> ns = map (\<lambda>p. length (f p)) [0..<w] \<and>
       (\<forall>p<w. \<forall>k<length (f p). table ! (k * w + p) = table_entry rtag b (f p ! k) \<and> pos ! (k * w + p) = snd (f p ! k)))"

lemma fill_slots_filled:
  assumes "\<forall>s\<in>set ss. slot_index rtag b s < w" "\<forall>p<w. length (filter (\<lambda>s. slot_index rtag b s = p) ss) \<le> h"
    "length table = w * h" "length pos = w * h"
  shows "filled rtag b w ss (foldl (fill_slot rtag b w) (replicate w 0, table, pos) ss) \<and>
    length (fst (snd (foldl (fill_slot rtag b w) (replicate w 0, table, pos) ss))) = w * h \<and>
    length (snd (snd (foldl (fill_slot rtag b w) (replicate w 0, table, pos) ss))) = w * h"
  using assms(1,2)
proof (induction ss rule: rev_induct)
  case Nil
  show ?case using assms(3,4) by (simp add: filled_def Let_def map_replicate_const)
next
  case (snoc s ss)
  define f where "f = (\<lambda>p. filter (\<lambda>s. slot_index rtag b s = p) ss)"
  define q where "q = slot_index rtag b s"
  have q: "q < w" using snoc.prems(1) by (simp add: q_def)
  have f': "filter (\<lambda>s. slot_index rtag b s = p) (ss @ [s]) = (if p = q then f p @ [s] else f p)" for p
    by (auto simp: f_def q_def)
  have h: "length (f q) < h" using snoc.prems(2) q f' [of q] by (metis Suc_le_eq length_append_singleton)
  have "length (f p) \<le> h" if "p < w" for p
    using snoc.prems(2) that unfolding f' by (cases "p = q") (force dest: spec [of _ p])+
  then have IH: "filled rtag b w ss (foldl (fill_slot rtag b w) (replicate w 0, table, pos) ss)"
    "length (fst (snd (foldl (fill_slot rtag b w) (replicate w 0, table, pos) ss))) = w * h"
    "length (snd (snd (foldl (fill_slot rtag b w) (replicate w 0, table, pos) ss))) = w * h"
    using snoc.IH snoc.prems(1) by (auto simp: f_def)
  obtain ns T P where st: "foldl (fill_slot rtag b w) (replicate w 0, table, pos) ss = (ns, T, P)" by (metis prod_cases3)
  have ns: "ns = map (\<lambda>p. length (f p)) [0..<w]" and len: "length T = w * h" "length P = w * h"
    and tp: "\<And>p k. p < w \<Longrightarrow> k < length (f p) \<Longrightarrow> T ! (k * w + p) = table_entry rtag b (f p ! k) \<and> P ! (k * w + p) = snd (f p ! k)"
    using IH unfolding st by (simp_all add: filled_def f_def Let_def)
  define x where "x = length (f q) * w + q"
  have x: "x < w * h" unfolding x_def by (rule slot_position_less [OF q h])
  have step: "foldl (fill_slot rtag b w) (replicate w 0, table, pos) (ss @ [s])
      = (ns[q := length (f q) + 1], T[x := table_entry rtag b s], P[x := snd s])"
    using st ns q by (simp add: fill_slot_def q_def [symmetric] x_def Let_def)
  have cnt: "ns[q := length (f q) + 1] = map (\<lambda>p. length (if p = q then f p @ [s] else f p)) [0..<w]"
    using q by (auto simp: ns list_eq_iff_nth_eq nth_list_update)
  have "T[x := table_entry rtag b s] ! (k * w + p) = table_entry rtag b ((if p = q then f p @ [s] else f p) ! k) \<and>
      P[x := snd s] ! (k * w + p) = snd ((if p = q then f p @ [s] else f p) ! k)"
    if p: "p < w" and k: "k < length (if p = q then f p @ [s] else f p)" for p k
  proof (cases "p = q \<and> k = length (f q)")
    case True
    then show ?thesis using x len by (simp add: x_def)
  next
    case False
    then have k': "k < length (f p)" using k by (auto split: if_splits)
    have "k * w + p \<noteq> x" using slot_position_inject [OF p q, of k "length (f q)"] False by (auto simp: x_def)
    then show ?thesis using tp [OF p k'] k' by (auto simp: nth_append)
  qed
  then show ?case
    unfolding step filled_def Let_def f' prod.case fst_conv snd_conv length_list_update using cnt len by blast
qed

lemma rebuildGPUTable_incomplete:
  assumes "find (\<lambda>s. slot_index (hv_buf (m_rtag d)) b s = NOT_LOCAL) (group_slots b) = Some (c, i)"
  shows "fst (rebuildGPUTable d b)
    = Inl (Runtime_error (group_name b @ '' '' @ join_tags '', '' (g_members (m_groups b ! c)) @ '' incomplete!''))"
proof -
  let ?r = "count_slots (hv_buf (m_rtag d)) b (group_slots b) (replicate (m_nparticles d + m_nghosts d) 0)"
  have "fst ?r = Some c" using assms by (simp add: count_slots_incomplete)
  then obtain ns where "?r = (Some c, ns)" by (cases ?r) auto
  then show ?thesis by (simp add: rebuildGPUTable_def Let_def)
qed

lemma rebuildGPUTable_complete:
  assumes "\<forall>s\<in>set (group_slots b). slot_index (hv_buf (m_rtag d)) b s < w" "w \<le> NOT_LOCAL" "w = m_nparticles d + m_nghosts d"
  obtains b' where "rebuildGPUTable d b = (Inr (), b')"
    "filled (hv_buf (m_rtag d)) b w (group_slots b) (m_gpu_n_groups b', m_gpu_table b', m_gpu_pos_table b')"
    "length (m_gpu_table b') = w * m_gpu_table_height b'" "length (m_gpu_pos_table b') = w * m_gpu_table_height b'"
    "\<forall>p<w. length (entries (hv_buf (m_rtag d)) b p) \<le> m_gpu_table_height b'"
proof -
  let ?rt = "hv_buf (m_rtag d)"
  define ns where "ns = map (\<lambda>p. length (entries ?rt b p)) [0..<w]"
  have cnt: "count_slots ?rt b (group_slots b) (replicate w 0) = (None, ns)"
    using count_slots_complete [OF assms(1,2), of "replicate w 0"] by (simp add: ns_def entries_def cong: map_cong)
  define h where "h = max_element ns"
  have le: "length (entries ?rt b p) \<le> h" if "p < w" for p
    unfolding h_def by (rule max_element_ge) (use that in \<open>simp add: ns_def\<close>)
  define st where "st = foldl (fill_slot ?rt b w) (replicate w 0, resized (w * h) [] (m_gpu_table b), resized (w * h) 0 (m_gpu_pos_table b)) (group_slots b)"
  obtain n2 T P where st': "st = (n2, T, P)" by (metis prod_cases3)
  have F: "filled ?rt b w (group_slots b) st" "length (fst (snd st)) = w * h" "length (snd (snd st)) = w * h"
    using fill_slots_filled [OF assms(1), of h "resized (w * h) [] (m_gpu_table b)" "resized (w * h) 0 (m_gpu_pos_table b)"] le
    by (simp_all add: entries_def st_def)
  show thesis
  proof (rule that)
    show "rebuildGPUTable d b = (Inr (), b\<lparr>m_gpu_n_groups := n2, m_gpu_table_height := h, m_gpu_table := T, m_gpu_pos_table := P\<rparr>)"
      unfolding rebuildGPUTable_def assms(3) [symmetric] Let_def cnt prod.case option.case h_def [symmetric] st_def [symmetric] st' ..
  qed (use F le st' in simp_all)
qed

text \<open>When the members of every group are distinct particles, a particle occurs at most once in a group.\<close>

definition members_distinct :: "nat list \<Rightarrow> bonded_data \<Rightarrow> bool" where
  "members_distinct rtag b \<longleftrightarrow> (\<forall>c<m_n_groups b + m_n_ghost b. length (g_members (m_groups b ! c)) = group_size b \<and>
     distinct (map (\<lambda>t. rtag ! t) (g_members (m_groups b ! c))))"

lemma set_group_slots: "set (group_slots b) = {(c, i). c < m_n_groups b + m_n_ghost b \<and> i < group_size b}"
  by (auto simp: group_slots_def)

lemma distinct_group_slots: "distinct (group_slots b)"
proof -
  have "distinct (concat (map (\<lambda>c. map (\<lambda>i. (c, i)) [0..<k]) [0..<n]))" for k n :: nat
    by (induction n) (auto simp: distinct_map inj_on_def)
  then show ?thesis by (simp add: group_slots_def)
qed

lemma entries_groups:
  assumes "members_distinct rtag b"
  shows "distinct (map fst (entries rtag b p))"
    "set (map fst (entries rtag b p)) = {c. c < m_n_groups b + m_n_ghost b \<and> p \<in> (\<lambda>t. rtag ! t) ` set (g_members (m_groups b ! c))}"
proof -
  have len: "length (g_members (m_groups b ! c)) = group_size b"
    and dist: "distinct (map (\<lambda>t. rtag ! t) (g_members (m_groups b ! c)))" if "c < m_n_groups b + m_n_ghost b" for c
    using assms that by (auto simp: members_distinct_def)
  have "i = j" if "(c, i) \<in> set (entries rtag b p)" "(c, j) \<in> set (entries rtag b p)" for c i j
    using that len [of c] nth_eq_iff_index_eq [OF dist [of c], of i j] by (auto simp: entries_def set_group_slots slot_index_def)
  then have "inj_on fst (set (entries rtag b p))" by (auto simp: inj_on_def)
  moreover have "distinct (entries rtag b p)" by (simp add: entries_def distinct_group_slots)
  ultimately show "distinct (map fst (entries rtag b p))" by (simp add: distinct_map)
  show "set (map fst (entries rtag b p)) = {c. c < m_n_groups b + m_n_ghost b \<and> p \<in> (\<lambda>t. rtag ! t) ` set (g_members (m_groups b ! c))}"
  proof (intro equalityI subsetI)
    fix c assume "c \<in> {c. c < m_n_groups b + m_n_ghost b \<and> p \<in> (\<lambda>t. rtag ! t) ` set (g_members (m_groups b ! c))}"
    then obtain i where "c < m_n_groups b + m_n_ghost b" "i < group_size b" "rtag ! (g_members (m_groups b ! c) ! i) = p"
      using len by (auto simp: in_set_conv_nth)
    then show "c \<in> set (map fst (entries rtag b p))"
      by (force simp: entries_def set_group_slots slot_index_def)
  qed (use len in \<open>auto simp: entries_def set_group_slots slot_index_def\<close>)
qed

lemma table_entry_members:
  assumes "length members = k" "i < k"
  shows "map (\<lambda>j. rtag ! (members ! j)) (filter (\<lambda>j. j \<noteq> i) [0..<k]) = map (\<lambda>t. rtag ! t) (take i members @ drop (Suc i) members)"
proof -
  have "filter (\<lambda>j. j \<noteq> i) [0..<k] = [0..<i] @ [Suc i..<k]"
  proof -
    have "[0..<k] = [0..<i] @ i # [Suc i..<k]" 
      using upt_add_eq_append [of 0 i "k - i"] upt_conv_Cons [of i k] assms(2) by simp
    moreover have "filter (\<lambda>j. j \<noteq> i) [0..<i] = [0..<i]" "filter (\<lambda>j. j \<noteq> i) [Suc i..<k] = [Suc i..<k]"
      by (auto simp: filter_id_conv)
    ultimately show ?thesis by simp
  qed
  then show ?thesis using assms by (auto simp: list_eq_iff_nth_eq nth_append)
qed

text \<open>Row \<open>k\<close> of the table for particle \<open>p\<close> describes group \<open>c\<close>: next to the position of the particle in the group, the
  indices of the other members in their order, and the type of the group, or its index for a class without types.\<close>

definition row_describes :: "nat list \<Rightarrow> bonded_data \<Rightarrow> nat \<Rightarrow> bonded_data \<Rightarrow> nat \<Rightarrow> nat \<Rightarrow> nat \<Rightarrow> bool" where
  "row_describes rtag b w b' p k c \<longleftrightarrow> (let members = g_members (m_groups b ! c); pos = m_gpu_pos_table b' ! (k * w + p) in
     pos < group_size b \<and> rtag ! (members ! pos) = p \<and>
     m_gpu_table b' ! (k * w + p) = map (\<lambda>t. rtag ! t) (take pos members @ drop (Suc pos) members)
       @ [if has_type_mapping b then tv_type (g_typeval (m_groups b ! c)) else c])"

definition groups_with :: "nat list \<Rightarrow> bonded_data \<Rightarrow> nat \<Rightarrow> nat set" where
  "groups_with rtag b p = {c. c < m_n_groups b + m_n_ghost b \<and> p \<in> (\<lambda>t. rtag ! t) ` set (g_members (m_groups b ! c))}"

lemma row_of_entry:
  assumes "members_distinct rtag b" "k < length (entries rtag b p)"
    "m_gpu_table b' ! (k * w + p) = table_entry rtag b (entries rtag b p ! k)"
    "m_gpu_pos_table b' ! (k * w + p) = snd (entries rtag b p ! k)"
  shows "row_describes rtag b w b' p k (fst (entries rtag b p ! k))"
proof -
  obtain c i where e: "entries rtag b p ! k = (c, i)" by fastforce
  have "(c, i) \<in> set (entries rtag b p)" using assms(2) e by (metis nth_mem)
  then have ci: "c < m_n_groups b + m_n_ghost b" "i < group_size b" "rtag ! (g_members (m_groups b ! c) ! i) = p"
    by (auto simp: entries_def set_group_slots slot_index_def)
  have "length (g_members (m_groups b ! c)) = group_size b" using assms(1) ci(1) by (simp add: members_distinct_def)
  then show ?thesis
    using assms(3,4) e ci table_entry_members [of "g_members (m_groups b ! c)" "group_size b" i rtag]
    by (simp add: row_describes_def table_entry_def Let_def)
qed

text \<open>C29: When every member of every group, ghosts included, is present, \<open>rebuildGPUTable\<close> succeeds and lists, for each
  particle, exactly the groups it belongs to, each of them once: next to its position in the group, the indices of the
  other members in their order, and the type of the group (or its index, for a class without types).\<close>

theorem group_table_correct:
  assumes "rtag = hv_buf (m_rtag d)" "w = m_nparticles d + m_nghosts d" "w \<le> NOT_LOCAL"
    and "members_distinct rtag b" "\<forall>s\<in>set (group_slots b). slot_index rtag b s < w"
  shows "\<exists>b'. rebuildGPUTable d b = (Inr (), b') \<and> (\<forall>p<w. \<exists>gs. distinct gs \<and> set gs = groups_with rtag b p \<and>
    m_gpu_n_groups b' ! p = length gs \<and> (\<forall>k<length gs. row_describes rtag b w b' p k (gs ! k)))"
proof -
  obtain b' where b': "rebuildGPUTable d b = (Inr (), b')"
    and fl: "filled rtag b w (group_slots b) (m_gpu_n_groups b', m_gpu_table b', m_gpu_pos_table b')"
    using rebuildGPUTable_complete [OF assms(5) [unfolded assms(1)] assms(3,2)] unfolding assms(1) by metis
  have "\<exists>gs. distinct gs \<and> set gs = groups_with rtag b p \<and>
    m_gpu_n_groups b' ! p = length gs \<and> (\<forall>k<length gs. row_describes rtag b w b' p k (gs ! k))" if p: "p < w" for p
  proof (intro exI conjI allI impI)
    let ?gs = "map fst (entries rtag b p)"
    show "distinct ?gs" "set ?gs = groups_with rtag b p"
      unfolding groups_with_def by (rule entries_groups [OF assms(4)])+
    show "m_gpu_n_groups b' ! p = length ?gs" using fl p by (simp add: filled_def entries_def Let_def)
    fix k assume "k < length ?gs"
    then show "row_describes rtag b w b' p k (?gs ! k)"
      using row_of_entry [OF assms(4), of k p b' w] fl p by (simp add: filled_def entries_def Let_def)
  qed
  then show ?thesis using b' by blast
qed

text \<open>A chain of three particles with two bonds.\<close>

definition chain_particles :: particle_data where
  "chain_particles = three_particles\<lparr>m_nparticles := 3, m_rtag := \<lparr>hv_buf = [2, 0, 1], hv_size = 3\<rparr>\<rparr>"

definition chain_bonds :: bonded_data where
  "chain_bonds = (BondedGroupData 2 ''bond'' True [''A''])\<lparr>m_n_groups := 2, m_groups_size := 2, m_groups :=
     [zero_group\<lparr>g_members := [0, 1], g_tag := 0\<rparr>, zero_group\<lparr>g_members := [1, 2], g_tag := 1\<rparr>]\<rparr>"

theorem group_table_correct_witness:
  "fst (rebuildGPUTable chain_particles chain_bonds) = Inr () \<and>
   m_gpu_n_groups (snd (rebuildGPUTable chain_particles chain_bonds)) ! 0 = 2"
proof -
  have r: "[2, 0, 1] = hv_buf (m_rtag chain_particles)" "3 = m_nparticles chain_particles + m_nghosts chain_particles"
    by (simp_all add: chain_particles_def three_particles_def allocated_empty_inv)
  note defs = chain_bonds_def BondedGroupData_def bg_initialize_def less_2_cases_iff
  have b: "m_n_groups chain_bonds + m_n_ghost chain_bonds = 2" "group_size chain_bonds = 2"
    "g_members (m_groups chain_bonds ! 0) = [0, 1]" "g_members (m_groups chain_bonds ! Suc 0) = [1, 2]"
    by (simp_all add: defs)
  have m: "members_distinct [2, 0, 1] chain_bonds"
    unfolding members_distinct_def b by (auto simp: less_2_cases_iff b)
  have s: "\<forall>s\<in>set (group_slots chain_bonds). slot_index [2, 0, 1] chain_bonds s < 3"
    unfolding set_group_slots b by (auto simp: less_2_cases_iff slot_index_def b)
  have "groups_with [2, 0, 1] chain_bonds 0 = {0, 1}"
    unfolding groups_with_def b by (auto simp: less_2_cases_iff b)
  moreover obtain b' gs where "rebuildGPUTable chain_particles chain_bonds = (Inr (), b')" "distinct gs"
    "set gs = groups_with [2, 0, 1] chain_bonds 0" "m_gpu_n_groups b' ! 0 = length gs"
  proof -
    have "3 \<le> NOT_LOCAL" "(0::nat) < 3" by (simp_all add: NOT_LOCAL_def)
    from group_table_correct [OF r this(1) m s] this(2) show thesis using that by blast
  qed
  ultimately show ?thesis using distinct_card [of gs] by simp
qed

end
