(* ===== verification/BondedSnapshot.thy ===== *)
theory BondedSnapshot
  imports BondedTables
begin

text \<open>
  Snapshots of the bonded groups: loading, storing and replicating them.
\<close>

section \<open>Loading and storing snapshots\<close>

lemma new_tag_fresh: "new_tag n [] = (n, [])"
  by (simp add: new_tag_def)

lemma insort_next_tag: "insort_insert n [0..<n] = [0..<Suc n]"
  by (simp add: insort_insert_insort insort_is_Cons sorted_insort_is_snoc)

lemma add_groups_ok:
  assumes "bg_inv b" "m_group_recycled b = []" "m_group_tags b = [0..<n]" "n + length gs \<le> NOT_LOCAL"
    "\<forall>(tv, members)\<in>set gs. check_group (group_name b) (has_type_mapping b) (m_group_types b) d tv members = Inr ()"
    "\<forall>t<n. local_lookup b t = Some (hs ! t)" "length hs = n"
  obtains b' where "add_groups serial_env d gs b = (Inr (), b')" "bg_inv b'" "m_group_recycled b' = []"
    "m_group_tags b' = [0..<n + length gs]" "config b' = config b" "\<forall>t<n + length gs. local_lookup b' t = Some ((hs @ gs) ! t)"
  using assms
proof (induction gs arbitrary: b n hs thesis)
  case Nil
  then show ?case by simp
next
  case (Cons g gs)
  obtain tv members where g: "g = (tv, members)" by fastforce
  note c = bg_inv_counts [OF Cons.prems(2)]
  have chk: "check_group (group_name b) (has_type_mapping b) (m_group_types b) d tv members = Inr ()"
    using Cons.prems(6) g by simp
  have new: "new_tag (length (m_group_tags b)) (m_group_recycled b) = (n, [])"
    using Cons.prems(3,4) by (simp add: new_tag_fresh)
  have room: "m_n_groups b < NOT_LOCAL" using c(4) bg_okD(5) [OF c(1)] Cons.prems(4,5) by simp
  obtain r b1 where step: "addBondedGroup serial_env d tv members b = (r, b1)" by fastforce
  note R = addBondedGroup_ok [OF c(1) chk new room step]
  have "stores_locally serial_env d members" by (simp add: stores_locally_def serial_env_def)
  then have l: "local_lookup b1 = (local_lookup b)(n \<mapsto> (tv, members))" using R(7) by simp
  have tags: "m_group_tags b1 = [0..<Suc n]" using R(4) Cons.prems(4) insort_next_tag by simp
  have "set (insort_insert n (m_group_tags b)) = insert n (set (m_group_tags b))" by (simp add: set_insort_insert)
  then have inv: "bg_inv b1" using R(2,4) l c(2) by (simp add: bg_inv_iff)
  have cfg: "group_name b1 = group_name b" "has_type_mapping b1 = has_type_mapping b" "m_group_types b1 = m_group_types b"
    using R(3) by (simp_all add: config_def)
  have lk: "\<forall>t<Suc n. local_lookup b1 t = Some ((hs @ [g]) ! t)"
    using l Cons.prems(7,8) g by (auto simp: nth_append less_Suc_eq)
  obtain b' where b': "add_groups serial_env d gs b1 = (Inr (), b')" "bg_inv b'" "m_group_recycled b' = []"
    "m_group_tags b' = [0..<Suc n + length gs]" "config b' = config b1"
    "\<forall>t<Suc n + length gs. local_lookup b' t = Some (((hs @ [g]) @ gs) ! t)"
  proof (rule Cons.IH [OF _ inv R(5) tags _ _ lk])
    show "Suc n + length gs \<le> NOT_LOCAL" using Cons.prems(5) by simp
    show "\<forall>(tv, members)\<in>set gs. check_group (group_name b1) (has_type_mapping b1) (m_group_types b1) d tv members = Inr ()"
      using Cons.prems(6) by (simp add: cfg)
    show "length (hs @ [g]) = Suc n" using Cons.prems(8) by simp
  qed
  show ?case
    by (rule Cons.prems(1) [of b']) (use b' step R(1,3) g in auto)
qed

definition snapshot_rows :: "bool \<Rightarrow> (typeval \<times> nat list) list \<Rightarrow> nat \<Rightarrow> group_snapshot \<Rightarrow> group_snapshot" where
  "snapshot_rows ht rows n s = (let put = \<lambda>f xs. take n xs @ map f rows @ drop (n + length rows) xs;
     s = s\<lparr>gs_groups := put snd (gs_groups s)\<rparr>
     in if ht then s\<lparr>gs_type_id := take n (gs_type_id s) @ map (\<lambda>r. tv_type (fst r)) rows @ drop (n + length rows) (gs_type_id s)\<rparr>
        else s\<lparr>gs_val := take n (gs_val s) @ map (\<lambda>r. tv_val (fst r)) rows @ drop (n + length rows) (gs_val s)\<rparr>)"

lemma put_group_row:
  assumes "n < length xs"
  shows "take (Suc n) (xs[n := x]) @ ys @ drop (Suc n + k) (xs[n := x]) = take n xs @ (x # ys) @ drop (n + Suc k) xs"
  using assms by (simp add: take_Suc_conv_app_nth)

lemma store_groups_ok:
  assumes "\<forall>t\<in>set ts. lookup t = Some (row t)" "n + length ts \<le> length (gs_groups s)"
    "ht \<Longrightarrow> n + length ts \<le> length (gs_type_id s)" "\<not> ht \<Longrightarrow> n + length ts \<le> length (gs_val s)"
  shows "store_groups ht lookup err ts n (index, s)
    = (Inr (index(ts [\<mapsto>] [n..<n + length ts])), snapshot_rows ht (map row ts) n s)"
  using assms
proof (induction ts arbitrary: n index s)
  case Nil
  then show ?case by (simp add: snapshot_rows_def Let_def)
next
  case (Cons t ts)
  obtain tv ms where r: "row t = (tv, ms)" by fastforce
  have "[n..<n + length (t # ts)] = n # [Suc n..<Suc n + length ts]" by (simp add: upt_rec)
  then have i: "index(t # ts [\<mapsto>] [n..<n + length (t # ts)]) = (index(t \<mapsto> n))(ts [\<mapsto>] [Suc n..<Suc n + length ts])" by simp
  show ?case
  proof (cases ht)
    case True
    define s1 where "s1 = s\<lparr>gs_groups := (gs_groups s)[n := ms], gs_type_id := (gs_type_id s)[n := tv_type tv]\<rparr>"
    have "store_groups ht lookup err (t # ts) n (index, s) = store_groups ht lookup err ts (Suc n) (index(t \<mapsto> n), s1)"
      using Cons.prems(1) r True by (simp add: s1_def)
    also have "\<dots> = (Inr ((index(t \<mapsto> n))(ts [\<mapsto>] [Suc n..<Suc n + length ts])), snapshot_rows ht (map row ts) (Suc n) s1)"
      using Cons.prems True by (intro Cons.IH) (auto simp: s1_def)
    also have "snapshot_rows ht (map row ts) (Suc n) s1 = snapshot_rows ht (map row (t # ts)) n s"
      using Cons.prems(2,3) True r put_group_row [of n "gs_groups s" ms "map (snd \<circ> row) ts" "length ts"]
        put_group_row [of n "gs_type_id s" "tv_type tv" "map (\<lambda>t. tv_type (fst (row t))) ts" "length ts"]
      by (simp add: snapshot_rows_def s1_def comp_def)
    finally show ?thesis unfolding i .
  next
    case False
    define s1 where "s1 = s\<lparr>gs_groups := (gs_groups s)[n := ms], gs_val := (gs_val s)[n := tv_val tv]\<rparr>"
    have "store_groups ht lookup err (t # ts) n (index, s) = store_groups ht lookup err ts (Suc n) (index(t \<mapsto> n), s1)"
      using Cons.prems(1) r False by (simp add: s1_def)
    also have "\<dots> = (Inr ((index(t \<mapsto> n))(ts [\<mapsto>] [Suc n..<Suc n + length ts])), snapshot_rows ht (map row ts) (Suc n) s1)"
      using Cons.prems False by (intro Cons.IH) (auto simp: s1_def)
    also have "snapshot_rows ht (map row ts) (Suc n) s1 = snapshot_rows ht (map row (t # ts)) n s"
      using Cons.prems(2,4) False r put_group_row [of n "gs_groups s" ms "map (snd \<circ> row) ts" "length ts"]
        put_group_row [of n "gs_val s" "tv_val tv" "map (\<lambda>t. tv_val (fst (row t))) ts" "length ts"]
      by (simp add: snapshot_rows_def s1_def comp_def)
    finally show ?thesis unfolding i .
  qed
qed

lemma snapshot_rows_all:
  assumes "length rows = n"
  shows "gs_groups (snapshot_rows ht rows 0 (gs_resize ht k n s)) = map snd rows"
    "gs_type_id (snapshot_rows ht rows 0 (gs_resize ht k n s)) = (if ht then map (\<lambda>r. tv_type (fst r)) rows else gs_type_id s)"
    "gs_val (snapshot_rows ht rows 0 (gs_resize ht k n s)) = (if ht then gs_val s else map (\<lambda>r. tv_val (fst r)) rows)"
    "gs_size (snapshot_rows ht rows 0 (gs_resize ht k n s)) = n"
  using assms by (simp_all add: snapshot_rows_def gs_resize_def Let_def)

text \<open>On any rank that can look up all active groups.\<close>

lemma store_groups_rows:
  assumes "\<forall>t\<in>set tags. lookup t = Some (row t)" "n = length tags"
  shows "store_groups ht lookup err tags 0 (Map.empty, gs_resize ht k n s)
    = (Inr [tags [\<mapsto>] [0..<n]], snapshot_rows ht (map row tags) 0 (gs_resize ht k n s))"
  using store_groups_ok [OF assms(1), of 0 "gs_resize ht k n s" ht err Map.empty] assms(2) by (simp add: gs_resize_def Let_def)

section \<open>Replication\<close>

text \<open>Both loops of \<open>replicate\<close> on one array: \<open>f j x\<close> is the copy \<open>j\<close> of the element \<open>x\<close>.\<close>

definition spread :: "(nat \<Rightarrow> 'a \<Rightarrow> 'a) \<Rightarrow> nat \<Rightarrow> nat \<Rightarrow> 'a list \<Rightarrow> nat \<Rightarrow> 'a list" where
  "spread f a n xs i = foldl (\<lambda>ys j. ys[a * j + i := f j (xs ! i)]) xs [0..<n]"

lemma position_div_mod:
  assumes "(i :: nat) < a"
  shows "a * j + i = q \<longleftrightarrow> q div a = j \<and> q mod a = i"
  using assms by (metis add.commute add_cancel_right_right div_less div_mult_self2 less_zeroE mod_less mod_mult_self2 mult_div_mod_eq)

lemma length_spread [simp]: "length (spread f a n xs i) = length xs"
proof -
  have "length (foldl (\<lambda>ys j. ys[a * j + i := h j]) xs js) = length xs" for h js
    by (induction js rule: rev_induct) auto
  then show ?thesis by (simp add: spread_def)
qed

lemma spread_nth:
  assumes "i < a" "q < length xs"
  shows "spread f a n xs i ! q = (if q mod a = i \<and> q div a < n then f (q div a) (xs ! i) else xs ! q)"
proof (induction n)
  case 0
  show ?case by (simp add: spread_def)
next
  case (Suc n)
  have "spread f a (Suc n) xs i = (spread f a n xs i)[a * n + i := f n (xs ! i)]" by (simp add: spread_def)
  then show ?case using Suc assms position_div_mod [OF assms(1), of n q] by (auto simp: nth_list_update)
qed

lemma spread_all_nth:
  assumes "m \<le> a" "q < length xs" "a \<le> length xs"
  shows "foldl (spread f a n) xs [0..<m] ! q = (if q mod a < m \<and> q div a < n then f (q div a) (xs ! (q mod a)) else xs ! q)"
  using assms(1,2)
proof (induction m arbitrary: q)
  case 0
  show ?case by simp
next
  case (Suc m)
  have len: "length (foldl (spread f a n) xs ms) = length xs" for ms by (induction ms rule: rev_induct) auto
  have "foldl (spread f a n) xs [0..<m] ! m = xs ! m" using Suc assms(3) by simp
  then show ?case using Suc by (auto simp: spread_nth len)
qed

text \<open>The record of the snapshot, array by array.\<close>

lemma replicate_copies:
  "foldl (replicate_copy ht a old_n i g) s js = s\<lparr>
     gs_groups := foldl (\<lambda>ys j. ys[a * j + i := map (\<lambda>t. (t + old_n * j) mod 2 ^ 32) g]) (gs_groups s) js,
     gs_type_id := (if ht then foldl (\<lambda>ys j. ys[a * j + i := ys ! i]) (gs_type_id s) js else gs_type_id s),
     gs_val := (if ht then gs_val s else foldl (\<lambda>ys j. ys[a * j + i := ys ! i]) (gs_val s) js)\<rparr>"
  by (induction js rule: rev_induct) (simp_all add: replicate_copy_def Let_def)

lemma foldl_reread:
  assumes "i < a"
  shows "foldl (\<lambda>ys j. ys[a * j + i := ys ! i]) xs [0..<n] = spread (\<lambda>_ x. x) a n xs i"
proof (induction n)
  case (Suc n)
  have "spread (\<lambda>_ x. x) a n xs i ! i = xs ! i"
  proof (cases "i < length xs")
    case True
    then show ?thesis using assms by (simp add: spread_nth)
  next
    case False
    have "a * j + i \<ge> length xs" for j using False by (metis add.commute le_add1 le_trans not_le)
    then have "foldl (\<lambda>ys j. ys[a * j + i := xs ! i]) xs js = xs" for js
      by (induction js rule: rev_induct) (auto simp: list_update_beyond)
    then show ?thesis by (simp add: spread_def)
  qed
  moreover have "spread (\<lambda>_ x. x) a (Suc n) xs i = (spread (\<lambda>_ x. x) a n xs i)[a * n + i := xs ! i]" by (simp add: spread_def)
  ultimately show ?case using Suc by simp
qed (simp add: spread_def)

lemma replicate_group_eq:
  assumes "i < a"
  shows "replicate_group ht a n old_n s i = s\<lparr>gs_groups := spread (\<lambda>j. map (\<lambda>t. (t + old_n * j) mod 2 ^ 32)) a n (gs_groups s) i,
     gs_type_id := (if ht then spread (\<lambda>_ x. x) a n (gs_type_id s) i else gs_type_id s),
     gs_val := (if ht then gs_val s else spread (\<lambda>_ x. x) a n (gs_val s) i)\<rparr>"
  by (simp only: replicate_group_def Let_def replicate_copies foldl_reread [OF assms] spread_def)

lemma replicate_groups_eq:
  assumes "m \<le> a"
  shows "foldl (replicate_group ht a n old_n) s [0..<m] = s\<lparr>
     gs_groups := foldl (spread (\<lambda>j. map (\<lambda>t. (t + old_n * j) mod 2 ^ 32)) a n) (gs_groups s) [0..<m],
     gs_type_id := (if ht then foldl (spread (\<lambda>_ x. x) a n) (gs_type_id s) [0..<m] else gs_type_id s),
     gs_val := (if ht then gs_val s else foldl (spread (\<lambda>_ x. x) a n) (gs_val s) [0..<m])\<rparr>"
  using assms by (induction m) (simp_all add: replicate_group_eq)

lemma spread_resized:
  assumes "j < n" "i < a" "length xs = a"
  shows "foldl (spread f a n) (resized (n * a) z xs) [0..<a] ! (a * j + i) = f j (xs ! i)"
proof -
  have a: "a * j + i < n * a" using slot_position_less [OF assms(2,1)] by (simp add: mult.commute)
  have le: "a \<le> n * a" using assms(1) by (cases n) auto
  have "(a * j + i) mod a = i" "(a * j + i) div a = j" using assms(2) by simp_all
  then show ?thesis
    using spread_all_nth [of a a "a * j + i" "resized (n * a) z xs" f n] a le assms by (simp add: resized_def nth_append)
qed

text \<open>Copy \<open>j\<close> of group \<open>i\<close> is at row \<open>size * j + i\<close>, with the tags of copy \<open>j\<close> of the particles and the same type or
  value.\<close>

lemma gs_replicate_correct:
  assumes "n * gs_size s < 2 ^ 32" "length (gs_groups s) = gs_size s" "ht \<Longrightarrow> length (gs_type_id s) = gs_size s"
    "\<not> ht \<Longrightarrow> length (gs_val s) = gs_size s" "j < n" "i < gs_size s" "\<forall>t\<in>set (gs_groups s ! i). t + old_n * j < 2 ^ 32"
  shows "gs_groups (gs_replicate ht k n old_n s) ! (gs_size s * j + i) = map (\<lambda>t. t + old_n * j) (gs_groups s ! i)"
    "ht \<Longrightarrow> gs_type_id (gs_replicate ht k n old_n s) ! (gs_size s * j + i) = gs_type_id s ! i"
    "\<not> ht \<Longrightarrow> gs_val (gs_replicate ht k n old_n s) ! (gs_size s * j + i) = gs_val s ! i"
    "gs_size (gs_replicate ht k n old_n s) = n * gs_size s"
  using assms(1-6) assms(7)
  by (simp_all add: gs_replicate_def Let_def replicate_groups_eq spread_resized cong: map_cong)

section \<open>Properties\<close>

text \<open>C31: For every snapshot whose groups can all be added, \<open>initializeFromSnapshot\<close> succeeds whatever the object held
  before, and a snapshot taken afterwards has the same groups in the same rows, the same types or values and the same type
  names; the returned map sends every tag to its row.\<close>

theorem bonded_snapshot_roundtrip:
  assumes "gs_validate (has_type_mapping b) s = Inr ()" "length (gs_groups s) \<le> NOT_LOCAL"
    "\<forall>(tv, members)\<in>set (zip (snapshot_typevals (has_type_mapping b) s) (gs_groups s)).
       check_group (group_name b) (has_type_mapping b) (gs_type_mapping s) d tv members = Inr ()"
  shows "\<exists>b' s'. bg_initializeFromSnapshot serial_env received d s b = (Inr (), b') \<and>
    bg_takeSnapshot b' s0 = (Inr [[0..<length (gs_groups s)] [\<mapsto>] [0..<length (gs_groups s)]], s') \<and>
    gs_groups s' = gs_groups s \<and> gs_type_mapping s' = gs_type_mapping s \<and> gs_size s' = length (gs_groups s) \<and>
    (if has_type_mapping b then gs_type_id s' = gs_type_id s else gs_val s' = gs_val s)"
proof -
  define ht where "ht = has_type_mapping b"
  define tvs where "tvs = snapshot_typevals ht s"
  define gs where "gs = zip tvs (gs_groups s)"
  define b0 where "b0 = (bg_initialize b)\<lparr>m_group_types := gs_type_mapping s\<rparr>"
  have len: "length tvs = length (gs_groups s)"
    using assms(1) by (auto simp: gs_validate_def tvs_def snapshot_typevals_def ht_def split: if_splits)
  have b0: "bg_inv b0" "m_group_recycled b0 = []" "m_group_tags b0 = [0..<0]" "group_name b0 = group_name b"
    "has_type_mapping b0 = ht" "m_group_types b0 = gs_type_mapping s"
    by (simp_all add: b0_def bg_initialize_def bg_inv_def bg_ok_def locals_def tags_ok_def ht_def)
  obtain b' where b': "add_groups serial_env d gs b0 = (Inr (), b')" "bg_inv b'" "m_group_tags b' = [0..<length gs]"
    "config b' = config b0" "\<forall>t<length gs. local_lookup b' t = Some (gs ! t)"
  proof -
    have "0 + length gs \<le> NOT_LOCAL" using assms(2) by (simp add: gs_def)
    moreover have "\<forall>(tv, members)\<in>set gs. check_group (group_name b0) (has_type_mapping b0) (m_group_types b0) d tv members = Inr ()"
      using assms(3) by (simp add: b0 gs_def tvs_def ht_def)
    ultimately show thesis by (rule add_groups_ok [OF b0(1-3), of gs d "[]"]) (use that in auto)
  qed
  have init: "bg_initializeFromSnapshot serial_env received d s b = (Inr (), b')"
    using b'(1) assms(1) by (simp add: bg_initializeFromSnapshot_def serial_env_def b0_def gs_def tvs_def ht_def
        bg_initialize_def Let_def)
  have cfg: "has_type_mapping b' = ht" "m_group_types b' = gs_type_mapping s" "m_nglobal_groups b' = length gs"
    using b'(3,4) b0 bg_okD(5) [OF bg_inv_counts(1) [OF b'(2)]] by (simp_all add: config_def)
  let ?r = "snapshot_rows ht gs 0 (gs_resize ht (group_size b') (length gs) s0)"
  have row: "map ((!) gs) [0..<length gs] = gs" by (rule map_nth)
  have "bg_takeSnapshot b' s0 = (Inr [[0..<length gs] [\<mapsto>] [0..<length gs]], ?r\<lparr>gs_type_mapping := gs_type_mapping s\<rparr>)"
    using store_groups_rows [of "[0..<length gs]" "local_lookup b'" "(!) gs" "length gs"] b'(3,5)
    by (simp add: bg_takeSnapshot_def cfg row Let_def)
  moreover have "map snd gs = gs_groups s" "length gs = length (gs_groups s)" "map fst gs = tvs"
    using len by (simp_all add: gs_def)
  moreover have "map (\<lambda>r. tv_type (fst r)) gs = map tv_type tvs" "map (\<lambda>r. tv_val (fst r)) gs = map tv_val tvs"
    unfolding \<open>map fst gs = tvs\<close> [symmetric] by simp_all
  moreover have "ht \<Longrightarrow> map tv_type tvs = gs_type_id s" "\<not> ht \<Longrightarrow> map tv_val tvs = gs_val s"
    by (simp_all add: tvs_def snapshot_typevals_def comp_def)
  ultimately show ?thesis
    using init snapshot_rows_all [of gs "length gs" ht "group_size b'" s0] by (auto simp: ht_def [symmetric] comp_def)
qed

definition chain_snapshot :: group_snapshot where
  "chain_snapshot = \<lparr>gs_type_id = [0, 0], gs_val = [], gs_groups = [[0, 1], [1, 2]], gs_type_mapping = [''A''], gs_size = 2\<rparr>"

theorem bonded_snapshot_roundtrip_witness:
  "\<exists>b' s'. bg_initializeFromSnapshot serial_env ([], [], []) three_particles chain_snapshot (BondedGroupData 2 ''bond'' True []) = (Inr (), b') \<and>
    bg_takeSnapshot b' chain_snapshot = (Inr [[0..<2] [\<mapsto>] [0..<2]], s') \<and> gs_groups s' = [[0, 1], [1, 2]]"
proof -
  let ?b = "BondedGroupData 2 ''bond'' True []"
  have b: "has_type_mapping ?b" "group_name ?b = ''bond''" by (simp_all add: BondedGroupData_def bg_initialize_def)
  have v: "gs_validate (has_type_mapping ?b) chain_snapshot = Inr ()" by (simp add: b gs_validate_def chain_snapshot_def)
  have l: "length (gs_groups chain_snapshot) \<le> NOT_LOCAL" by (simp add: chain_snapshot_def NOT_LOCAL_def)
  have c: "\<forall>(tv, members)\<in>set (zip (snapshot_typevals (has_type_mapping ?b) chain_snapshot) (gs_groups chain_snapshot)).
       check_group (group_name ?b) (has_type_mapping ?b) (gs_type_mapping chain_snapshot) three_particles tv members = Inr ()"
    by (simp add: b snapshot_typevals_def chain_snapshot_def check_group_def three_particles_def getMaximumTag_def)
  have "length (gs_groups chain_snapshot) = 2" "gs_groups chain_snapshot = [[0, 1], [1, 2]]" by (simp_all add: chain_snapshot_def)
  then show ?thesis using bonded_snapshot_roundtrip [OF v l c, of "([], [], [])" chain_snapshot] by metis
qed

end
