(* ===== verification/BondedRanks.thy ===== *)
theory BondedRanks
  imports BondedSnapshot
begin

text \<open>
  The bonded groups of a parallel simulation: which groups a rank holds, how adding, removing and moving particles keeps
  that, and the snapshot that rank 0 gathers.
\<close>

section \<open>What a rank holds\<close>

text \<open>\<open>M\<close> is the map of all groups of the simulation.  A rank holds those that have a local particle among their members,
  and knows the tags of all.\<close>

definition has_local :: "particle_data \<Rightarrow> typeval \<times> nat list \<Rightarrow> bool" where
  "has_local d g \<longleftrightarrow> (\<exists>t\<in>set (snd g). isParticleLocal t d)"

definition holds :: "(nat \<rightharpoonup> typeval \<times> nat list) \<Rightarrow> nat list \<Rightarrow> particle_data \<Rightarrow> bonded_data \<Rightarrow> bool" where
  "holds M rc d b \<longleftrightarrow> bg_ok b \<and> set (m_group_tags b) = dom M \<and> m_group_recycled b = rc \<and>
     (\<forall>t. local_lookup b t = (case M t of None \<Rightarrow> None | Some g \<Rightarrow> if has_local d g then Some g else None))"

lemma holdsD:
  assumes "holds M rc d b"
  shows "bg_ok b" "set (m_group_tags b) = dom M" "m_group_recycled b = rc"
    "local_lookup b t = Some g \<longleftrightarrow> M t = Some g \<and> has_local d g"
  using assms by (auto simp: holds_def split: option.splits)

lemma holdsI:
  assumes "bg_ok b" "set (m_group_tags b) = dom M" "m_group_recycled b = rc"
    "\<And>t g. local_lookup b t = Some g \<longleftrightarrow> M t = Some g \<and> has_local d g"
  shows "holds M rc d b"
proof -
  have "local_lookup b t = (case M t of None \<Rightarrow> None | Some g \<Rightarrow> if has_local d g then Some g else None)" for t
  proof (cases "local_lookup b t")
    case None
    then have "\<not> (M t = Some g \<and> has_local d g)" for g using assms(4) [of t g] by simp
    then show ?thesis using None by (cases "M t") auto
  next
    case (Some g)
    then show ?thesis using assms(4) [of t g] by simp
  qed
  then show ?thesis using assms(1-3) by (simp add: holds_def)
qed

lemma holds_counts:
  assumes "holds M rc d b"
  shows "length (m_group_tags b) = card (dom M)" "m_n_groups b \<le> card (dom M)" "finite (dom M)"
    "m_group_tags b = sorted_list_of_set (dom M)"
proof -
  note H = holdsD [OF assms] and T = bg_okD(3) [OF holdsD(1) [OF assms]]
  show c: "length (m_group_tags b) = card (dom M)" using distinct_card [OF tags_okD(2) [OF T]] H(2) by simp
  show "finite (dom M)" using H(2) by (metis finite_set)
  show "m_group_tags b = sorted_list_of_set (dom M)"
    unfolding H(2) [symmetric] by (rule sorted_distinct_set_unique) (use tags_okD(1,2) [OF T] in auto)
  have "set (map g_tag (locals b)) \<subseteq> set (m_group_tags b)" using tags_ok_set [OF T] by auto
  then have "card (set (map g_tag (locals b))) \<le> card (set (m_group_tags b))" by (intro card_mono) auto
  then show "m_n_groups b \<le> card (dom M)"
    using distinct_card [OF tags_ok_distinct [OF T]] bg_okD(7) [OF H(1)] H(2) by simp
qed

lemma holds_signal [simp]: "holds M rc d (notifyGroupReorder (bg_emit e b)) = holds M rc d b"
  by (simp add: holds_def)

lemma holds_no_ghosts: "holds M rc d b \<Longrightarrow> holds M rc d (removeAllGhostGroups b)"
  using removeAllGhostGroups_ok [of b] by (simp add: holds_def)

section \<open>Adding and removing on a rank\<close>

lemma holds_add:
  assumes h: "holds M rc d b" and chk: "check_group (group_name b) (has_type_mapping b) (m_group_types b) d tv members = Inr ()"
    and mpi: "decomposed mpi" and room: "card (dom M) < NOT_LOCAL" and new: "new_tag (card (dom M)) rc = (t, rc')"
    and step: "addBondedGroup mpi d tv members b = (r, b')"
  shows "r = Inr t \<and> holds (M(t \<mapsto> (tv, members))) rc' d b' \<and> config b' = config b"
proof -
  note H = holdsD [OF h] and C = holds_counts [OF h]
  have new': "new_tag (length (m_group_tags b)) (m_group_recycled b) = (t, rc')" using new H(3) C(1) by simp
  have "m_n_groups b < NOT_LOCAL" using C(2) room by simp
  note R = addBondedGroup_ok [OF H(1) chk new' this step]
  have "t \<notin> set (m_group_tags b)" by (rule new_tag_props(1) [OF bg_okD(3) [OF H(1)] new'])
  then have "M t = None" using H(2) by auto
  moreover have "stores_locally mpi d members \<longleftrightarrow> has_local d (tv, members)" using mpi by (simp add: stores_locally_def has_local_def)
  ultimately have "local_lookup b' s = Some g \<longleftrightarrow> (M(t \<mapsto> (tv, members))) s = Some g \<and> has_local d g" for s g
    using R(7) H(4) [of s g] by auto
  then have "holds (M(t \<mapsto> (tv, members))) rc' d b'"
    by (intro holdsI R(2)) (use R(4,5) H(2) in \<open>auto simp: set_insort_insert\<close>)
  then show ?thesis using R(1,3) by simp
qed

lemma holds_add_refused:
  assumes "holds M rc d b" "check_group (group_name b) (has_type_mapping b) (m_group_types b) d tv members = Inl e"
  shows "addBondedGroup mpi d tv members b = (Inl e, removeAllGhostGroups b)"
  by (rule addBondedGroup_refused [OF assms(2) holdsD(1) [OF assms(1)]])

lemma holds_remove:
  assumes h: "holds M rc d b" and t: "t \<in> dom M" and av: "removable mpi t b" and step: "removeBondedGroup mpi t b = (r, b')"
  shows "r = Inr () \<and> holds (M(t := None)) (t # rc) d b' \<and> config b' = config b"
proof -
  note H = holdsD [OF h]
  have "t \<in> set (m_group_tags b)" using t H(2) by simp
  note R = removeBondedGroup_ok [OF H(1) this av step]
  have "holds (M(t := None)) (t # rc) d b'"
    by (intro holdsI R(2)) (use R(4-6) H tags_okD(2) [OF bg_okD(3) [OF H(1)]] in \<open>auto simp: set_remove1_eq split: if_splits\<close>)
  then show ?thesis using R(1,3) by simp
qed

section \<open>Following a particle\<close>

lemma erase_group_locals:
  assumes "bg_ok b" "m_n_ghost b = 0" "i < m_n_groups b"
  shows "take (m_n_groups b - 1) (m_groups (erase_group i b)) = take i (locals b) @ drop (Suc i) (locals b)"
    "length (m_groups (erase_group i b)) = length (m_groups b)" "m_groups_size (erase_group i b) = m_n_groups b - 1"
proof -
  note D = bg_okD(1,2) [OF assms(1)]
  show "take (m_n_groups b - 1) (m_groups (erase_group i b)) = take i (locals b) @ drop (Suc i) (locals b)"
  proof -
    have "m_n_groups b - Suc i + i = m_n_groups b - 1" "m_n_groups b - 1 - i = m_n_groups b - Suc i" using assms(3) by simp_all
    then show ?thesis using D assms(2,3) by (simp add: erase_group_def locals_def)
  qed
  show "length (m_groups (erase_group i b)) = length (m_groups b)" "m_groups_size (erase_group i b) = m_n_groups b - 1"
    using D assms(2,3) by (simp_all add: erase_group_def)
qed

lemma take_drop_filter:
  assumes "distinct (map f xs)" "i < length xs"
  shows "take i xs @ drop (Suc i) xs = filter (\<lambda>x. f x \<noteq> f (xs ! i)) xs"
proof -
  have d: "distinct (map f (take i xs @ xs ! i # drop (Suc i) xs))" using assms by (simp add: id_take_nth_drop [symmetric])
  have "filter (\<lambda>x. f x \<noteq> f (xs ! i)) (take i xs @ xs ! i # drop (Suc i) xs) = take i xs @ drop (Suc i) xs"
  proof -
    have "filter (\<lambda>x. f x \<noteq> f (xs ! i)) (take i xs) = take i xs"
      "filter (\<lambda>x. f x \<noteq> f (xs ! i)) (drop (Suc i) xs) = drop (Suc i) xs"
      using d by (auto intro!: filter_True dest: sym [of "f _" "f (xs ! i)"])
    then show ?thesis by simp
  qed
  then show ?thesis using assms(2) by (simp add: id_take_nth_drop [symmetric])
qed

lemma drop_group_eq:
  fixes d :: particle_data
  assumes ok: "bg_ok b" and g0: "m_n_ghost b = 0" and t: "t \<in> g_tag ` set (locals b)"
  defines "gone \<equiv> \<not> has_local d (the (local_lookup b t))"
  shows "bg_ok (drop_group d b t) \<and> m_n_ghost (drop_group d b t) = 0 \<and>
    locals (drop_group d b t) = (if gone then filter (\<lambda>g. g_tag g \<noteq> t) (locals b) else locals b) \<and>
    m_group_tags (drop_group d b t) = m_group_tags b \<and> m_group_recycled (drop_group d b t) = m_group_recycled b \<and>
    config (drop_group d b t) = config b"
proof -
  note D = bg_okD [OF ok]
  define i where "i = m_group_rtag b ! t"
  have ta: "t \<in> set (m_group_tags b)" using t tags_ok_set [OF D(3)] by auto
  have i: "i < m_n_groups b" "g_tag (m_groups b ! i) = t" using rtag_local [OF ok ta] t by (auto simp: i_def)
  have l: "local_lookup b t = Some (group_data (m_groups b ! i))" using rtag_local(4) [OF ok ta] i(1) by (simp add: i_def)
  have gone: "gone \<longleftrightarrow> \<not> (\<exists>s\<in>set (g_members (m_groups b ! i)). isParticleLocal s d)"
    by (simp add: gone_def l has_local_def group_data_def)
  show ?thesis
  proof (cases gone)
    case False
    then have "drop_group d b t = b" using gone by (simp add: drop_group_def i_def [symmetric])
    then show ?thesis using False ok g0 by simp
  next
    case True
    define rb where "rb = (m_group_rtag b)[t := NOT_LOCAL]"
    define b1 where "b1 = (erase_group i (b\<lparr>m_group_rtag := rb\<rparr>))\<lparr>m_n_groups := m_n_groups b - 1\<rparr>"
    have dg: "drop_group d b t = b1\<lparr>m_group_rtag := reindex (map g_tag (take (m_n_groups b1) (m_groups b1))) (m_group_rtag b1)\<rparr>"
      using True gone by (simp add: drop_group_def i_def [symmetric] Let_def b1_def rb_def)
    have eg: "m_groups b1 = m_groups (erase_group i b)" "m_groups_size b1 = m_groups_size (erase_group i b)"
      "m_n_groups b1 = m_n_groups b - 1" "m_group_rtag b1 = rb" "m_group_tags b1 = m_group_tags b"
      "m_group_recycled b1 = m_group_recycled b" "m_n_ghost b1 = 0" "m_nglobal_groups b1 = m_nglobal_groups b"
      "m_group_cache_invalid b1 = m_group_cache_invalid b" "m_group_cached b1 = m_group_cached b" "config b1 = config b"
      using g0 by (simp_all add: b1_def erase_group_def config_def)
    note E = erase_group_locals [OF ok g0 i(1)]
    have il: "i < length (locals b)" "locals b ! i = m_groups b ! i" using i(1) D(7) by (simp_all add: locals_nth)
    have loc: "take (m_n_groups b1) (m_groups b1) = filter (\<lambda>g. g_tag g \<noteq> t) (locals b)"
      using E(1) take_drop_filter [OF tags_ok_distinct [OF D(3)] il(1)] eg il i(2) by simp
    have nt: "map g_tag (filter (\<lambda>g. g_tag g \<noteq> t) (locals b)) = filter (\<lambda>s. \<not> s = t) (map g_tag (locals b))"
      by (simp add: filter_map comp_def)
    have lt: "t < length (m_group_rtag b)" using tags_ok_less [OF D(3)] ta by blast
    have "tags_ok (filter (\<lambda>s. \<not> s = t) (map g_tag (locals b))) (reindex (filter (\<lambda>s. \<not> s = t) (map g_tag (locals b))) rb)
        (m_group_tags b) (m_group_recycled b)"
      by (rule reindex_filter_ok [OF D(3)]) (use t lt in \<open>auto simp: rb_def nth_list_update\<close>)
    moreover have "length (reindex ts rb) = length rb" for ts
    proof -
      have "length (foldl (\<lambda>rb i. rb[ts ! i := i]) rb js) = length rb" for js by (induction js rule: rev_induct) auto
      then show ?thesis by (simp add: reindex_def)
    qed
    ultimately show ?thesis
      using True D eg E(2,3) loc nt g0 unfolding dg
      by (simp add: bg_ok_def locals_def config_def rb_def)
  qed
qed

lemma drop_group_locals:
  assumes ok: "bg_ok b" "m_n_ghost b = 0" "t \<in> g_tag ` set (locals b)"
  shows "bg_ok (drop_group d b t)" "m_n_ghost (drop_group d b t) = 0"
    "locals (drop_group d b t) = filter (\<lambda>g. \<not> (g_tag g = t \<and> \<not> has_local d (group_data g))) (locals b)"
    "m_group_tags (drop_group d b t) = m_group_tags b" "m_group_recycled (drop_group d b t) = m_group_recycled b"
    "config (drop_group d b t) = config b"
proof -
  note E = drop_group_eq [OF assms, of d]
  have "local_lookup b t = Some (group_data g)" if "g \<in> set (locals b)" "g_tag g = t" for g
    using that local_lookup_Some [OF ok(1)] by blast
  then have "filter (\<lambda>g. \<not> (g_tag g = t \<and> \<not> has_local d (group_data g))) (locals b)
      = (if \<not> has_local d (the (local_lookup b t)) then filter (\<lambda>g. g_tag g \<noteq> t) (locals b) else locals b)"
    by (auto intro!: filter_cong filter_True)
  then show "locals (drop_group d b t) = filter (\<lambda>g. \<not> (g_tag g = t \<and> \<not> has_local d (group_data g))) (locals b)"
    using E by simp
qed (use drop_group_eq [OF assms, of d] in auto)

lemma drop_groups_locals:
  assumes "bg_ok b" "m_n_ghost b = 0" "distinct ts" "set ts \<subseteq> g_tag ` set (locals b)"
  shows "bg_ok (foldl (drop_group d) b ts) \<and>
    locals (foldl (drop_group d) b ts) = filter (\<lambda>g. \<not> (g_tag g \<in> set ts \<and> \<not> has_local d (group_data g))) (locals b) \<and>
    m_group_tags (foldl (drop_group d) b ts) = m_group_tags b \<and> m_group_recycled (foldl (drop_group d) b ts) = m_group_recycled b \<and>
    config (foldl (drop_group d) b ts) = config b"
  using assms
proof (induction ts arbitrary: b)
  case Nil
  then show ?case by simp
next
  case (Cons t ts)
  have t: "t \<in> g_tag ` set (locals b)" using Cons.prems(4) by simp
  note L = drop_group_locals [OF Cons.prems(1,2) t, of d]
  have sub: "set ts \<subseteq> g_tag ` set (locals (drop_group d b t))"
  proof
    fix u assume "u \<in> set ts"
    then obtain g where "g \<in> set (locals b)" "g_tag g = u" "u \<noteq> t"
      using Cons.prems(3,4) by (metis distinct.simps(2) imageE list.set_intros(2) subsetD)
    then show "u \<in> g_tag ` set (locals (drop_group d b t))" unfolding L(3) by force
  qed
  have "filter (\<lambda>g. \<not> (g_tag g \<in> set ts \<and> \<not> has_local d (group_data g))) (locals (drop_group d b t))
      = filter (\<lambda>g. \<not> (g_tag g \<in> set (t # ts) \<and> \<not> has_local d (group_data g))) (locals b)"
    unfolding L(3) filter_filter by (intro filter_cong) auto
  then show ?case using Cons.IH [OF L(1,2) _ sub] Cons.prems(3) L(4-6) by simp
qed

lemma tags_ok_append:
  assumes ok: "tags_ok ts rb ac rc" and t: "t \<in> set ac" "rb ! t = NOT_LOCAL" and room: "length ts < NOT_LOCAL"
  shows "tags_ok (ts @ [t]) (rb[t := length ts]) ac rc"
proof -
  note d = tags_okD [OF ok]
  have lt: "t < length rb" using tags_ok_less [OF ok] t(1) by blast
  have nt: "ts ! i \<noteq> t" if "i < length ts" for i using d(8,12) that t(2) by force
  have "\<forall>i<length (ts @ [t]). (ts @ [t]) ! i \<in> set ac \<and> rb[t := length ts] ! ((ts @ [t]) ! i) = i"
  proof -
    have "rb[t := length ts] ! (ts ! i) = i" if "i < length ts" for i
      using nt [OF that] d(8) [OF that] by (metis nth_list_update_neq)
    then show ?thesis using d(7) t(1) lt by (auto simp: nth_append less_Suc_eq)
  qed
  moreover have "\<forall>s\<in>set ac. rb[t := length ts] ! s \<noteq> NOT_LOCAL \<longrightarrow>
      rb[t := length ts] ! s < length (ts @ [t]) \<and> (ts @ [t]) ! (rb[t := length ts] ! s) = s"
    using d(9,10) lt by (auto simp: nth_list_update nth_append less_Suc_eq)
  moreover have "\<forall>s\<in>set rc. rb[t := length ts] ! s = NOT_LOCAL" using d(4,11) t(1) by (metis disjoint_iff nth_list_update_neq)
  ultimately show ?thesis unfolding tags_ok_def length_list_update using d(1-6) room by simp
qed

lemma receive_group_ok:
  assumes ok: "bg_ok b" and g0: "m_n_ghost b = 0" and g: "g_tag g \<in> set (m_group_tags b)" and room: "length (m_group_tags b) \<le> NOT_LOCAL"
  shows "bg_ok (receive_group b g) \<and> m_n_ghost (receive_group b g) = 0 \<and> m_group_tags (receive_group b g) = m_group_tags b \<and>
    m_group_recycled (receive_group b g) = m_group_recycled b \<and> config (receive_group b g) = config b \<and>
    local_lookup (receive_group b g) = [g_tag g \<mapsto> group_data g] ++ local_lookup b"
proof (cases "m_group_rtag b ! g_tag g = NOT_LOCAL")
  case False
  then have "g_tag g \<in> dom (local_lookup b)" using rtag_local(1) [OF ok g] dom_local_lookup [OF ok] by simp
  then have "[g_tag g \<mapsto> group_data g] ++ local_lookup b = local_lookup b" by (auto simp: fun_eq_iff map_add_def split: option.splits)
  then show ?thesis using False ok g0 by (simp add: receive_group_def)
next
  case True
  note D = bg_okD [OF ok]
  define g' where "g' = g\<lparr>g_ranks := replicate (group_size b) 0\<rparr>"
  have gd: "group_data g' = group_data g" "g_tag g' = g_tag g" by (simp_all add: g'_def group_data_def)
  obtain gs where p: "push_group g' b = b\<lparr>m_groups := gs, m_groups_size := m_n_groups b + 1\<rparr>"
    "take (m_n_groups b + 1) gs = locals b @ [g']" "m_n_groups b + 1 \<le> length gs"
    using push_group_eq [of b g'] D(1,2) g0 by auto
  define b' where "b' = receive_group b g"
  have b': "b' = b\<lparr>m_groups := gs, m_groups_size := m_n_groups b + 1, m_n_groups := m_n_groups b + 1,
      m_group_rtag := (m_group_rtag b)[g_tag g := m_n_groups b]\<rparr>"
    using True p(1) D(1) g0 by (simp add: b'_def receive_group_def Let_def g'_def [symmetric])
  have loc: "locals b' = locals b @ [g']" using p(2) by (simp add: b' locals_def)
  have nl: "g_tag g \<notin> g_tag ` set (locals b)" using rtag_local(1) [OF ok g] True by simp
  have "set (map g_tag (locals b)) \<subseteq> set (m_group_tags b) - {g_tag g}" using tags_ok_set [OF D(3)] nl by auto
  then have "card (set (map g_tag (locals b))) \<le> card (set (m_group_tags b) - {g_tag g})" by (intro card_mono) auto
  moreover have "card (set (m_group_tags b) - {g_tag g}) < length (m_group_tags b)"
    using g by (metis List.finite_set card_Diff1_less card_length order_less_le_trans)
  ultimately have "length (map g_tag (locals b)) < NOT_LOCAL"
    using distinct_card [OF tags_ok_distinct [OF D(3)]] room by simp
  from tags_ok_append [OF D(3) g True this] have "tags_ok (map g_tag (locals b')) (m_group_rtag b') (m_group_tags b') (m_group_recycled b')"
    using loc D(7) by (simp add: b' gd)
  then have ok': "bg_ok b'" using D(4-6) p(3) g0 by (simp add: bg_ok_def b')
  have "([g_tag g \<mapsto> group_data g] ++ local_lookup b) t = Some v \<longleftrightarrow> (\<exists>h\<in>set (locals b'). g_tag h = t \<and> group_data h = v)" for t v
  proof (cases "t = g_tag g")
    case True
    then have "local_lookup b t = None" using nl dom_local_lookup [OF ok] by blast
    moreover have "g_tag h \<noteq> t" if "h \<in> set (locals b)" for h using nl that True by (metis imageI)
    ultimately show ?thesis using True by (auto simp: loc gd map_add_Some_iff)
  next
    case False
    then show ?thesis by (auto simp: loc gd map_add_Some_iff local_lookup_Some [OF ok])
  qed
  then have "local_lookup b' = [g_tag g \<mapsto> group_data g] ++ local_lookup b" by (rule local_lookup_eqI [OF ok'])
  then show ?thesis using ok' g0 unfolding b'_def [symmetric] by (simp add: b' config_def)
qed

lemma receive_groups_ok:
  assumes "bg_ok b" "m_n_ghost b = 0" "g_tag ` set gs \<subseteq> set (m_group_tags b)" "length (m_group_tags b) \<le> NOT_LOCAL"
  shows "bg_ok (foldl receive_group b gs) \<and> m_group_tags (foldl receive_group b gs) = m_group_tags b \<and>
    m_group_recycled (foldl receive_group b gs) = m_group_recycled b \<and> config (foldl receive_group b gs) = config b \<and>
    local_lookup (foldl receive_group b gs) = map_of (map (\<lambda>g. (g_tag g, group_data g)) gs) ++ local_lookup b"
  using assms
proof (induction gs arbitrary: b)
  case Nil
  then show ?case by simp
next
  case (Cons g gs)
  have "g_tag g \<in> set (m_group_tags b)" using Cons.prems(3) by simp
  note R = receive_group_ok [OF Cons.prems(1,2) this Cons.prems(4)]
  have "map_of (map (\<lambda>g. (g_tag g, group_data g)) gs) ++ ([g_tag g \<mapsto> group_data g] ++ L)
      = map_of (map (\<lambda>g. (g_tag g, group_data g)) (g # gs)) ++ L" for L
    by (simp add: map_add_assoc [symmetric])
  then show ?case using Cons.IH [of "receive_group b g"] R Cons.prems(3,4) by (simp add: fun_upd_def)
qed

text \<open>The three kinds of ranks: the one the particle leaves, the one it comes to, and the others.\<close>

lemma groups_of_iff: "g \<in> set (groups_of p b) \<longleftrightarrow> g \<in> set (locals b) \<and> p \<in> set (g_members g)"
  by (simp add: groups_of_def locals_def)

lemma holds_move_old:
  assumes h: "holds M rc d b" and d': "\<And>q. isParticleLocal q d' \<longleftrightarrow> isParticleLocal q d \<and> q \<noteq> p"
    and step: "moveParticleGroups p old new old received d' b = (sent, b')"
  shows "holds M rc d' b'" "config b' = config b" "sent = groups_of p (removeAllGhostGroups b)"
proof -
  define b0 where "b0 = removeAllGhostGroups b"
  note G = removeAllGhostGroups_ok [OF holdsD(1) [OF h], folded b0_def]
  have h0: "holds M rc d b0" unfolding b0_def by (rule holds_no_ghosts [OF h])
  note H = holdsD [OF h0]
  define c where "c = foldl (drop_group d') b0 (map g_tag (groups_of p b0))"
  have s: "sent = groups_of p b0" "b' = notifyGroupReorder (bg_emit Group_num_change c)"
    using step by (auto simp: moveParticleGroups_def Let_def b0_def [symmetric] c_def)
  show "sent = groups_of p (removeAllGhostGroups b)" using s(1) by (simp add: b0_def)
  have "distinct (map g_tag (locals b0))" by (rule tags_ok_distinct [OF bg_okD(3) [OF H(1)]])
  then have dist: "distinct (map g_tag (groups_of p b0))"
    unfolding groups_of_def locals_def [symmetric] by (rule distinct_map_filter)
  have sub: "set (map g_tag (groups_of p b0)) \<subseteq> g_tag ` set (locals b0)" by (auto simp: groups_of_iff)
  note L = drop_groups_locals [OF H(1) G(11) dist sub, of d', folded c_def]
  have okc: "bg_ok c" using L by blast
  have mem: "g \<in> set (locals c) \<longleftrightarrow> g \<in> set (locals b0) \<and> has_local d' (group_data g)" for g
  proof -
    have "p \<in> set (g_members g)" if "g \<in> set (locals b0)" "\<not> has_local d' (group_data g)"
    proof -
      have "local_lookup b0 (g_tag g) = Some (group_data g)" using that(1) local_lookup_Some [OF H(1)] by blast
      then have "has_local d (group_data g)" using H(4) by simp
      then show ?thesis using that(2) d' by (auto simp: has_local_def group_data_def)
    qed
    moreover have "g_tag g \<in> set (map g_tag (groups_of p b0)) \<longleftrightarrow> g \<in> set (groups_of p b0)" if "g \<in> set (locals b0)"
    proof -
      have "inj_on g_tag (set (locals b0))" using \<open>distinct (map g_tag (locals b0))\<close> by (simp add: distinct_map)
      then show ?thesis using that by (auto simp: groups_of_iff dest: inj_onD)
    qed
    ultimately show ?thesis using L by (auto simp: groups_of_iff)
  qed
  have up: "has_local d' g \<Longrightarrow> has_local d g" for g using d' by (auto simp: has_local_def)
  have "local_lookup c t = Some g \<longleftrightarrow> M t = Some g \<and> has_local d' g" for t g
  proof -
    have "local_lookup c t = Some g \<longleftrightarrow> local_lookup b0 t = Some g \<and> has_local d' g"
      unfolding local_lookup_Some [OF okc] local_lookup_Some [OF H(1)] Bex_def mem by auto
    then show ?thesis using H(4) [of t g] up [of g] by blast
  qed
  then have "holds M rc d' c" by (intro holdsI okc) (use L H in auto)
  then show "holds M rc d' b'" by (simp add: s(2))
  show "config b' = config b" using L G(3) s(2) by simp
qed

lemma holds_move_new:
  assumes h: "holds M rc d b" and d': "\<And>q. isParticleLocal q d' \<longleftrightarrow> isParticleLocal q d \<or> q = p"
    and room: "card (dom M) \<le> NOT_LOCAL" and ne: "new \<noteq> old"
    and sent: "\<And>g. g \<in> set received \<Longrightarrow> M (g_tag g) = Some (group_data g) \<and> p \<in> set (g_members g)"
      "\<And>t g. M t = Some g \<Longrightarrow> p \<in> set (snd g) \<Longrightarrow> \<exists>h\<in>set received. g_tag h = t"
    and step: "moveParticleGroups p old new new received d' b = (out, b')"
  shows "holds M rc d' b'" "config b' = config b"
proof -
  define b0 where "b0 = removeAllGhostGroups b"
  note G = removeAllGhostGroups_ok [OF holdsD(1) [OF h], folded b0_def]
  have h0: "holds M rc d b0" unfolding b0_def by (rule holds_no_ghosts [OF h])
  note H = holdsD [OF h0]
  define c where "c = foldl receive_group b0 received"
  have b': "b' = notifyGroupReorder (bg_emit Group_num_change c)"
    using step ne by (auto simp: moveParticleGroups_def Let_def b0_def [symmetric] c_def)
  define R where "R = map_of (map (\<lambda>g. (g_tag g, group_data g)) received)"
  have sub: "g_tag ` set received \<subseteq> set (m_group_tags b0)" using sent(1) H(2) by auto
  have len: "length (m_group_tags b0) \<le> NOT_LOCAL" using holds_counts(1) [OF h0] room by simp
  note L = receive_groups_ok [OF H(1) G(11) sub len, folded c_def R_def]
  have R: "M t = Some g \<and> p \<in> set (snd g)" if "R t = Some g" for t g
    using sent(1) map_of_SomeD [OF that [unfolded R_def]] by (force simp: group_data_def)
  have R': "R t = Some g" if "M t = Some g" "p \<in> set (snd g)" for t g
  proof -
    have "t \<in> fst ` set (map (\<lambda>g. (g_tag g, group_data g)) received)" using sent(2) [OF that] by force
    then obtain g' where "R t = Some g'" unfolding R_def by (metis domD dom_map_of_conv_image_fst)
    then show ?thesis using R that(1) by fastforce
  qed
  have hl: "has_local d' g \<longleftrightarrow> has_local d g \<or> p \<in> set (snd g)" for g using d' by (auto simp: has_local_def)
  have "(R ++ local_lookup b0) t = Some g \<longleftrightarrow> M t = Some g \<and> has_local d' g" for t g
  proof -
    have "local_lookup b0 t = None \<longleftrightarrow> (\<forall>h. \<not> (M t = Some h \<and> has_local d h))"
      using H(4) [of t] by (metis not_None_eq option.distinct(1))
    then show ?thesis unfolding map_add_Some_iff hl using H(4) R R' by (metis option.inject)
  qed
  then have "holds M rc d' c" by (intro holdsI) (use L H in auto)
  then show "holds M rc d' b'" by (simp add: b')
  show "config b' = config b" using L G(3) b' by simp
qed

lemma holds_move_other:
  assumes "holds M rc d b" "\<And>q. isParticleLocal q d' \<longleftrightarrow> isParticleLocal q d" "r \<noteq> old" "r \<noteq> new"
    "moveParticleGroups p old new r received d' b = (out, b')"
  shows "holds M rc d' b'" "config b' = config b"
proof -
  have b': "b' = notifyGroupReorder (bg_emit Group_num_change (removeAllGhostGroups b))"
    using assms(3-5) by (auto simp: moveParticleGroups_def Let_def)
  have "has_local d' = has_local d" using assms(2) by (auto simp: has_local_def fun_eq_iff)
  then have "holds M rc d' b0 \<longleftrightarrow> holds M rc d b0" for b0 unfolding holds_def by (simp only:)
  then show "holds M rc d' b'" using holds_no_ghosts [OF assms(1)] by (simp add: b')
  show "config b' = config b" using removeAllGhostGroups_ok(3) [OF holdsD(1) [OF assms(1)]] by (simp add: b')
qed

section \<open>All ranks together\<close>

text \<open>A state is the particle data and the bonded groups of every rank.  A step is a call that all ranks make
  together; a particle that changes ranks does so before its groups follow.\<close>

type_synonym group_ranks = "particle_data list \<times> bonded_data list"

definition add_group_all :: "mpi_env list \<Rightarrow> typeval \<Rightarrow> nat list \<Rightarrow> particle_data list \<Rightarrow> bonded_data list \<Rightarrow> (nat, bonded_data) outcome list" where
  "add_group_all es tv members ds bs = map (\<lambda>r. addBondedGroup (es ! r) (ds ! r) tv members (bs ! r)) [0..<length bs]"

definition remove_group_all :: "mpi_env list \<Rightarrow> nat \<Rightarrow> bonded_data list \<Rightarrow> (unit, bonded_data) outcome list" where
  "remove_group_all es t bs = map (\<lambda>r. removeBondedGroup (es ! r) t (bs ! r)) [0..<length bs]"

definition move_groups_all :: "nat \<Rightarrow> nat \<Rightarrow> nat \<Rightarrow> particle_data list \<Rightarrow> bonded_data list \<Rightarrow> bonded_data list" where
  "move_groups_all p old new ds bs = (let sent = fst (moveParticleGroups p old new old [] (ds ! old) (bs ! old))
     in map (\<lambda>r. snd (moveParticleGroups p old new r sent (ds ! r) (bs ! r))) [0..<length bs])"

definition group_flags :: "nat \<Rightarrow> bonded_data list \<Rightarrow> nat list" where
  "group_flags t bs = map (\<lambda>b. if m_group_rtag b ! t < m_n_groups b then 1 else 0) bs"

definition particle_moved :: "nat \<Rightarrow> nat \<Rightarrow> nat \<Rightarrow> particle_data list \<Rightarrow> particle_data list \<Rightarrow> bool" where
  "particle_moved p old new ds ds' \<longleftrightarrow> length ds' = length ds \<and> old < length ds \<and> new < length ds \<and> old \<noteq> new \<and>
     isParticleLocal p (ds ! old) \<and> (\<forall>r<length ds. m_tag_set (ds' ! r) = m_tag_set (ds ! r) \<and>
       (\<forall>q. isParticleLocal q (ds' ! r) \<longleftrightarrow>
         (if r = old then isParticleLocal q (ds ! r) \<and> q \<noteq> p else if r = new then isParticleLocal q (ds ! r) \<or> q = p
          else isParticleLocal q (ds ! r))))"

inductive group_step :: "group_ranks \<Rightarrow> group_ranks \<Rightarrow> bool" where
  Add: "length es = length bs \<Longrightarrow> \<forall>e\<in>set es. decomposed e \<Longrightarrow> m_nglobal_groups (hd bs) < NOT_LOCAL \<Longrightarrow>
    group_step (ds, bs) (ds, map snd (add_group_all es tv members ds bs))"
| Remove: "envs_ok es (group_flags t bs) \<Longrightarrow> group_step (ds, bs) (ds, map snd (remove_group_all es t bs))"
| Move: "particle_moved p old new ds ds' \<Longrightarrow> group_step (ds, bs) (ds', move_groups_all p old new ds' bs)"

text \<open>The ranks agree on the tags, and each holds exactly the groups with a local member.\<close>

definition ranks_hold :: "group_ranks \<Rightarrow> bool" where
  "ranks_hold = (\<lambda>(ds, bs). bs \<noteq> [] \<and> length ds = length bs \<and>
     (\<forall>r<length bs. m_tag_set (ds ! r) = m_tag_set (ds ! 0) \<and> config (bs ! r) = config (bs ! 0)) \<and>
     (\<exists>M rc. card (dom M) \<le> NOT_LOCAL \<and> (\<forall>r<length bs. holds M rc (ds ! r) (bs ! r))))"

lemma ranks_holdI:
  assumes "bs \<noteq> []" "length ds = length bs" "card (dom M) \<le> NOT_LOCAL"
    "\<And>r. r < length bs \<Longrightarrow> m_tag_set (ds ! r) = ts \<and> config (bs ! r) = c \<and> holds M rc (ds ! r) (bs ! r)"
  shows "ranks_hold (ds, bs)"
  unfolding ranks_hold_def using assms by fastforce

lemma ranks_holdE:
  assumes "ranks_hold (ds, bs)"
  obtains M rc where "bs \<noteq> []" "length ds = length bs" "card (dom M) \<le> NOT_LOCAL"
    "\<forall>r<length bs. holds M rc (ds ! r) (bs ! r) \<and> m_tag_set (ds ! r) = m_tag_set (ds ! 0) \<and> config (bs ! r) = config (bs ! 0)"
proof -
  have a: "bs \<noteq> []" "length ds = length bs"
    "\<forall>r<length bs. m_tag_set (ds ! r) = m_tag_set (ds ! 0) \<and> config (bs ! r) = config (bs ! 0)"
    "\<exists>M rc. card (dom M) \<le> NOT_LOCAL \<and> (\<forall>r<length bs. holds M rc (ds ! r) (bs ! r))"
    using assms unfolding ranks_hold_def by blast+
  from a(4) obtain M rc where "card (dom M) \<le> NOT_LOCAL" "\<forall>r<length bs. holds M rc (ds ! r) (bs ! r)" by blast
  then show thesis using that a(1-3) by blast
qed

lemma add_group_all_hold:
  assumes h: "ranks_hold (ds, bs)" and es: "length es = length bs" "\<forall>e\<in>set es. decomposed e" and room: "m_nglobal_groups (hd bs) < NOT_LOCAL"
  shows "ranks_hold (ds, map snd (add_group_all es tv members ds bs))"
proof -
  obtain M rc where H: "bs \<noteq> []" "length ds = length bs" "card (dom M) \<le> NOT_LOCAL" "\<And>r. r < length bs \<Longrightarrow> holds M rc (ds ! r) (bs ! r)"
    "\<And>r. r < length bs \<Longrightarrow> m_tag_set (ds ! r) = m_tag_set (ds ! 0)" "\<And>r. r < length bs \<Longrightarrow> config (bs ! r) = config (bs ! 0)"
    using ranks_holdE [OF h] that by metis
  let ?chk = "\<lambda>r. check_group (group_name (bs ! r)) (has_type_mapping (bs ! r)) (m_group_types (bs ! r)) (ds ! r) tv members"
  have chk: "?chk r = ?chk 0" if "r < length bs" for r
    using H(5,6) [OF that] by (simp add: config_def check_group_def getMaximumTag_def)
  have nth: "map snd (add_group_all es tv members ds bs) ! r = snd (addBondedGroup (es ! r) (ds ! r) tv members (bs ! r))" if "r < length bs" for r
    using that by (simp add: add_group_all_def)
  have len: "length (map snd (add_group_all es tv members ds bs)) = length bs" by (simp add: add_group_all_def)
  have ne: "map snd (add_group_all es tv members ds bs) \<noteq> []" using H(1) by (simp add: add_group_all_def)
  have cnt: "card (dom M) < NOT_LOCAL"
    using room holds_counts(1) [OF H(4) [of 0]] bg_okD(5) [OF holdsD(1) [OF H(4) [of 0]]] H(1) by (simp add: hd_conv_nth)
  show ?thesis
  proof (cases "?chk 0")
    case (Inl e)
    show ?thesis
    proof (rule ranks_holdI [OF ne _ H(3)])
      fix r assume "r < length (map snd (add_group_all es tv members ds bs))"
      then have r: "r < length bs" using len by simp
      have "addBondedGroup (es ! r) (ds ! r) tv members (bs ! r) = (Inl e, removeAllGhostGroups (bs ! r))"
        by (rule holds_add_refused [OF H(4) [OF r]]) (use chk [OF r] Inl in simp)
      then show "m_tag_set (ds ! r) = m_tag_set (ds ! 0) \<and> config (map snd (add_group_all es tv members ds bs) ! r) = config (bs ! 0)
        \<and> holds M rc (ds ! r) (map snd (add_group_all es tv members ds bs) ! r)"
        using nth [OF r] H(5,6) [OF r] holds_no_ghosts [OF H(4) [OF r]] removeAllGhostGroups_ok(3) [OF holdsD(1) [OF H(4) [OF r]]] by simp
    qed (use H(2) len in simp)
  next
    case (Inr u)
    obtain t rc' where new: "new_tag (card (dom M)) rc = (t, rc')" by fastforce
    show ?thesis
    proof (rule ranks_holdI [OF ne])
      show "card (dom (M(t \<mapsto> (tv, members)))) \<le> NOT_LOCAL"
        using cnt holds_counts(3) [OF H(4) [of 0]] H(1) card_insert_le_m1 [of NOT_LOCAL "dom M" t] by (simp add: card_insert_if NOT_LOCAL_def)
      fix r assume "r < length (map snd (add_group_all es tv members ds bs))"
      then have r: "r < length bs" using len by simp
      obtain x b' where step: "addBondedGroup (es ! r) (ds ! r) tv members (bs ! r) = (x, b')" by fastforce
      have "decomposed (es ! r)" using es r by simp
      moreover have "?chk r = Inr ()" using chk [OF r] Inr by simp
      ultimately have "holds (M(t \<mapsto> (tv, members))) rc' (ds ! r) b' \<and> config b' = config (bs ! r)"
        using holds_add [OF H(4) [OF r] _ _ cnt new step] by blast
      then show "m_tag_set (ds ! r) = m_tag_set (ds ! 0) \<and> config (map snd (add_group_all es tv members ds bs) ! r) = config (bs ! 0)
        \<and> holds (M(t \<mapsto> (tv, members))) rc' (ds ! r) (map snd (add_group_all es tv members ds bs) ! r)"
        using nth [OF r] step H(5,6) [OF r] by simp
    qed (use H(2) len in simp)
  qed
qed

lemma remove_group_all_hold:
  assumes h: "ranks_hold (ds, bs)" and env: "envs_ok es (group_flags t bs)"
  shows "ranks_hold (ds, map snd (remove_group_all es t bs))"
proof -
  obtain M rc where H: "bs \<noteq> []" "length ds = length bs" "card (dom M) \<le> NOT_LOCAL" "\<And>r. r < length bs \<Longrightarrow> holds M rc (ds ! r) (bs ! r)"
    "\<And>r. r < length bs \<Longrightarrow> m_tag_set (ds ! r) = m_tag_set (ds ! 0)" "\<And>r. r < length bs \<Longrightarrow> config (bs ! r) = config (bs ! 0)"
    using ranks_holdE [OF h] that by metis
  have nth: "map snd (remove_group_all es t bs) ! r = snd (removeBondedGroup (es ! r) t (bs ! r))" if "r < length bs" for r
    using that by (simp add: remove_group_all_def)
  have len: "length (map snd (remove_group_all es t bs)) = length bs" by (simp add: remove_group_all_def)
  have ne: "map snd (remove_group_all es t bs) \<noteq> []" using H(1) by (simp add: remove_group_all_def)
  have rl: "length (m_group_rtag (bs ! r)) = card (dom M) + length rc" if "r < length bs" for r
    using bg_okD(4) [OF holdsD(1) [OF H(4) [OF that]]] holds_counts(1) [OF H(4) [OF that]] holdsD(3) [OF H(4) [OF that]] by simp
  have av: "removable (es ! r) t (bs ! r) \<longleftrightarrow> sum_list (group_flags t bs) \<noteq> 0" if "r < length bs" for r
  proof -
    have "group_flags t bs ! r = (if m_group_rtag (bs ! r) ! t < m_n_groups (bs ! r) then 1 else 0)" "length (group_flags t bs) = length bs"
      using that by (simp_all add: group_flags_def)
    then have "decomposed (es ! r)"
      "allreduce_sum (es ! r) (if m_group_rtag (bs ! r) ! t < m_n_groups (bs ! r) then 1 else 0) = sum_list (group_flags t bs)"
      using env that unfolding envs_ok_def by metis+
    then show ?thesis unfolding removable_def Let_def by (simp only: if_True)
  qed
  show ?thesis
  proof (cases "t < card (dom M) + length rc \<and> sum_list (group_flags t bs) \<noteq> 0")
    case False
    show ?thesis
    proof (rule ranks_holdI [OF ne _ H(3)])
      fix r assume "r < length (map snd (remove_group_all es t bs))"
      then have r: "r < length bs" using len by simp
      have "snd (removeBondedGroup (es ! r) t (bs ! r)) = removeAllGhostGroups (bs ! r)"
        using removeBondedGroup_refused [OF holdsD(1) [OF H(4) [OF r]], of t "es ! r"] False av [OF r] rl [OF r] by (cases "t < card (dom M) + length rc") auto
      then show "m_tag_set (ds ! r) = m_tag_set (ds ! 0) \<and> config (map snd (remove_group_all es t bs) ! r) = config (bs ! 0)
        \<and> holds M rc (ds ! r) (map snd (remove_group_all es t bs) ! r)"
        using nth [OF r] H(5,6) [OF r] holds_no_ghosts [OF H(4) [OF r]] removeAllGhostGroups_ok(3) [OF holdsD(1) [OF H(4) [OF r]]] by simp
    qed (use H(2) len in simp)
  next
    case True
    then obtain x where "x \<in> set (group_flags t bs)" "x \<noteq> 0" by (meson sum_list_eq_0_iff)
    moreover have "length (group_flags t bs) = length bs" by (simp add: group_flags_def)
    ultimately obtain q where "q < length bs" "group_flags t bs ! q \<noteq> 0" by (metis in_set_conv_nth)
    then have q: "q < length bs" "m_group_rtag (bs ! q) ! t < m_n_groups (bs ! q)" by (auto simp: group_flags_def split: if_splits)
    note Q = bg_okD [OF holdsD(1) [OF H(4) [OF q(1)]]]
    have "t \<in> dom M"
    proof -
      have "t \<in> set (m_group_tags (bs ! q)) \<union> set (m_group_recycled (bs ! q))"
        unfolding tags_okD(5) [OF Q(3)] using True rl [OF q(1)] Q(4) by simp
      moreover have "t \<notin> set (m_group_recycled (bs ! q))" using tags_okD(11,12) [OF Q(3)] q(2) Q(7) by fastforce
      ultimately show ?thesis using holdsD(2) [OF H(4) [OF q(1)]] by blast
    qed
    show ?thesis
    proof (rule ranks_holdI [OF ne])
      have "card (dom (M(t := None))) \<le> card (dom M)" by (simp add: card_Diff1_le)
      then show "card (dom (M(t := None))) \<le> NOT_LOCAL" using H(3) by simp
      fix r assume "r < length (map snd (remove_group_all es t bs))"
      then have r: "r < length bs" using len by simp
      obtain x b' where step: "removeBondedGroup (es ! r) t (bs ! r) = (x, b')" by fastforce
      have "removable (es ! r) t (bs ! r)" using av [OF r] True by simp
      from holds_remove [OF H(4) [OF r] \<open>t \<in> dom M\<close> this step]
      show "m_tag_set (ds ! r) = m_tag_set (ds ! 0) \<and> config (map snd (remove_group_all es t bs) ! r) = config (bs ! 0)
        \<and> holds (M(t := None)) (t # rc) (ds ! r) (map snd (remove_group_all es t bs) ! r)"
        using nth [OF r] step H(5,6) [OF r] by simp
    qed (use H(2) len in simp)
  qed
qed

lemma move_groups_all_hold:
  assumes h: "ranks_hold (ds, bs)" and mv: "particle_moved p old new ds ds'"
  shows "ranks_hold (ds', move_groups_all p old new ds' bs)"
proof -
  obtain M rc where H: "bs \<noteq> []" "length ds = length bs" "card (dom M) \<le> NOT_LOCAL" "\<And>r. r < length bs \<Longrightarrow> holds M rc (ds ! r) (bs ! r)"
    "\<And>r. r < length bs \<Longrightarrow> m_tag_set (ds ! r) = m_tag_set (ds ! 0)" "\<And>r. r < length bs \<Longrightarrow> config (bs ! r) = config (bs ! 0)"
    using ranks_holdE [OF h] that by metis
  have m: "length ds' = length bs" "old < length bs" "new < length bs" "old \<noteq> new" "isParticleLocal p (ds ! old)"
    using mv H(2) by (auto simp: particle_moved_def)
  have tg: "m_tag_set (ds' ! r) = m_tag_set (ds ! 0)" if "r < length bs" for r
    using mv H(2,5) that by (simp add: particle_moved_def)
  have pos: "isParticleLocal q (ds' ! r) \<longleftrightarrow> (if r = old then isParticleLocal q (ds ! r) \<and> q \<noteq> p
      else if r = new then isParticleLocal q (ds ! r) \<or> q = p else isParticleLocal q (ds ! r))" if "r < length bs" for q r
    using mv that H(2) by (simp add: particle_moved_def)
  define sent where "sent = fst (moveParticleGroups p old new old [] (ds' ! old) (bs ! old))"
  define b0 where "b0 = removeAllGhostGroups (bs ! old)"
  have h0: "holds M rc (ds ! old) b0" unfolding b0_def by (rule holds_no_ghosts [OF H(4) [OF m(2)]])
  note H0 = holdsD [OF h0]
  have old: "holds M rc (ds' ! old) b'" "config b' = config (bs ! old)" "out = groups_of p b0"
    if "moveParticleGroups p old new old rcv (ds' ! old) (bs ! old) = (out, b')" for rcv out b'
    using holds_move_old [OF H(4) [OF m(2)] _ that] pos [OF m(2)] by (simp_all add: b0_def)
  have sent: "sent = groups_of p b0" using old(3) [of "[]"] unfolding sent_def by (metis prod.collapse)
  have s1: "M (g_tag g) = Some (group_data g) \<and> p \<in> set (g_members g)" if "g \<in> set sent" for g
    using that H0(4) local_lookup_Some [OF H0(1)] unfolding sent groups_of_iff by metis
  have s2: "\<exists>h\<in>set sent. g_tag h = t" if "M t = Some g" "p \<in> set (snd g)" for t g
  proof -
    have "has_local (ds ! old) g" using that(2) m(5) by (auto simp: has_local_def)
    then have "local_lookup b0 t = Some g" using H0(4) [of t g] that(1) by simp
    then obtain h where h: "h \<in> set (locals b0)" "g_tag h = t" "group_data h = g"
      using local_lookup_Some [OF H0(1), of t g] by blast
    then have "h \<in> set sent" using that(2) unfolding sent groups_of_iff by (auto simp: group_data_def)
    then show ?thesis using h(2) by blast
  qed
  have len: "length (move_groups_all p old new ds' bs) = length bs" by (simp add: move_groups_all_def Let_def)
  have ne: "move_groups_all p old new ds' bs \<noteq> []" using H(1) len by (metis length_0_conv)
  show ?thesis
  proof (rule ranks_holdI [OF ne _ H(3)])
    fix r assume "r < length (move_groups_all p old new ds' bs)"
    then have r: "r < length bs" using len by simp
    obtain out b' where step: "moveParticleGroups p old new r sent (ds' ! r) (bs ! r) = (out, b')" by fastforce
    then have nth: "move_groups_all p old new ds' bs ! r = b'" using r by (simp add: move_groups_all_def Let_def sent_def)
    consider "r = old" | "r = new" | "r \<noteq> old" "r \<noteq> new" by blast
    then have "holds M rc (ds' ! r) b' \<and> config b' = config (bs ! r)"
    proof cases
      case 1
      then show ?thesis using old step by blast
    next
      case 2
      show ?thesis
        using holds_move_new [OF H(4) [OF m(3)] _ H(3) m(4) [symmetric] s1 s2 step [unfolded 2]] pos [OF m(3)] 2 m(4) by auto
    next
      case 3
      show ?thesis using holds_move_other [OF H(4) [OF r] _ 3 step] pos [OF r] 3 by auto
    qed
    then show "m_tag_set (ds' ! r) = m_tag_set (ds ! 0) \<and> config (move_groups_all p old new ds' bs ! r) = config (bs ! 0)
      \<and> holds M rc (ds' ! r) (move_groups_all p old new ds' bs ! r)"
      using nth tg [OF r] H(6) [OF r] by simp
  qed (use m(1) len in simp)
qed

lemma group_step_holds: "group_step s s' \<Longrightarrow> ranks_hold s \<Longrightarrow> ranks_hold s'"
  by (cases rule: group_step.cases) (auto intro: add_group_all_hold remove_group_all_hold move_groups_all_hold)

text \<open>The groups that rank 0 gathers for a snapshot.\<close>

lemma gathered_lookup_Some:
  "gathered_lookup bs t = Some g \<longleftrightarrow> (\<exists>r<length bs. local_lookup (bs ! r) t = Some g \<and> (\<forall>q<r. local_lookup (bs ! q) t = None))"
proof (induction bs)
  case Nil
  then show ?case by (simp add: gathered_lookup_def)
next
  case (Cons b bs)
  have e: "gathered_lookup (b # bs) t = (case local_lookup b t of Some g \<Rightarrow> Some g | None \<Rightarrow> gathered_lookup bs t)"
    by (simp add: gathered_lookup_def split: option.split)
  show ?case
  proof (cases "local_lookup b t")
    case None
    then show ?thesis unfolding e using Cons by (simp add: Ex_less_Suc2 All_less_Suc2)
  next
    case (Some h)
    then show ?thesis unfolding e by (auto simp: Ex_less_Suc2 All_less_Suc2)
  qed
qed

lemma gathered_lookup_hold:
  assumes "\<And>r. r < length bs \<Longrightarrow> holds M rc (ds ! r) (bs ! r)" "M t = Some g" "r < length bs" "has_local (ds ! r) g"
  shows "gathered_lookup bs t = Some g"
proof -
  have "local_lookup (bs ! r) t = Some g" using holdsD(4) [OF assms(1) [OF assms(3)]] assms(2,4) by simp
  then obtain q where q: "q < length bs" "local_lookup (bs ! q) t \<noteq> None" "\<forall>k<q. local_lookup (bs ! k) t = None"
    using exists_least_iff [of "\<lambda>q. local_lookup (bs ! q) t \<noteq> None"] assms(3) by (metis not_less_iff_gr_or_eq order_less_trans option.distinct(1))
  then obtain h where "local_lookup (bs ! q) t = Some h" by blast
  moreover from this have "h = g" using holdsD(4) [OF assms(1) [OF q(1)]] assms(2) by simp
  ultimately show ?thesis using q gathered_lookup_Some by blast
qed

text \<open>A snapshot taken in parallel has the groups of all ranks, each once, in the order of the tags.\<close>

lemma bg_takeSnapshot_mpi_correct:
  assumes h: "\<And>r. r < length bs \<Longrightarrow> holds M rc (ds ! r) (bs ! r)" and ne: "bs \<noteq> []"
    and own: "\<And>t g. M t = Some g \<Longrightarrow> \<exists>r<length bs. has_local (ds ! r) g"
  shows "\<exists>s'. bg_takeSnapshot_mpi bs 0 s = (Inr [sorted_list_of_set (dom M) [\<mapsto>] [0..<card (dom M)]], s') \<and>
    gs_groups s' = map (\<lambda>t. snd (the (M t))) (sorted_list_of_set (dom M)) \<and> gs_size s' = card (dom M)"
proof -
  have 0: "holds M rc (ds ! 0) (bs ! 0)" using h ne by simp
  note C = holds_counts [OF 0]
  let ?b = "bs ! 0" and ?tags = "sorted_list_of_set (dom M)" and ?row = "\<lambda>t. the (M t)"
  have "\<forall>t\<in>set ?tags. gathered_lookup bs t = Some (?row t)"
  proof
    fix t assume "t \<in> set ?tags"
    then obtain g where "M t = Some g" using C(3) by auto
    moreover from this obtain r where "r < length bs" "has_local (ds ! r) g" using own by blast
    ultimately show "gathered_lookup bs t = Some (?row t)" using gathered_lookup_hold [of bs M rc ds t g r] h by simp
  qed
  moreover have n: "m_nglobal_groups ?b = card (dom M)" "length ?tags = card (dom M)"
    using bg_okD(5) [OF holdsD(1) [OF 0]] C(1,4) by simp_all
  ultimately show ?thesis
    using store_groups_rows [of ?tags "gathered_lookup bs" ?row "card (dom M)"] C(4)
      snapshot_rows_all(1,4) [of "map ?row ?tags" "card (dom M)" "has_type_mapping ?b" "group_size ?b" s]
    by (simp add: bg_takeSnapshot_mpi_def Let_def comp_def)
qed

section \<open>Properties\<close>

text \<open>C30: Whatever sequence of groups added and removed by all ranks together and of particles moved to other ranks is
  executed, every rank keeps exactly the groups that have one of its local particles among their members, with consistent
  vectors and reverse table, and all ranks agree on the active and the recycled tags.\<close>

theorem bonded_ranks_invariant:
  assumes "group_step\<^sup>*\<^sup>* s s'" "ranks_hold s"
  shows "ranks_hold s'"
  using assms by (induction rule: rtranclp_induct) (auto intro: group_step_holds)

definition two_ranks :: group_ranks where
  "two_ranks = ([chain_particles, allocated_empty\<lparr>m_tag_set := [0, 1, 2], m_rtag := \<lparr>hv_buf = replicate 3 NOT_LOCAL, hv_size = 3\<rparr>\<rparr>],
     replicate 2 (BondedGroupData 2 ''bond'' True [''A'']))"

theorem bonded_ranks_invariant_witness:
  "ranks_hold (fst two_ranks, map snd (add_group_all (replicate 2 (serial_env\<lparr>decomposed := True\<rparr>)) (Type 0) [0, 1] (fst two_ranks) (snd two_ranks)))"
proof -
  let ?b = "BondedGroupData 2 ''bond'' True [''A'']"
  have ok: "bg_ok ?b" "m_group_tags ?b = []" "m_group_recycled ?b = []" "local_lookup ?b = Map.empty" "m_nglobal_groups ?b = 0"
    using BondedGroupData_inv(1) [of 2 "''bond''" True "[''A'']"]
    by (simp_all add: bg_inv_def) (simp_all add: BondedGroupData_def bg_initialize_def local_lookup_def)
  have "holds Map.empty [] d ?b" for d using ok by (simp add: holds_def)
  then have h: "ranks_hold (fst two_ranks, snd two_ranks)"
    by (intro ranks_holdI [of _ _ Map.empty "[0, 1, 2]" "config ?b" "[]"])
      (auto simp: two_ranks_def less_2_cases_iff chain_particles_def three_particles_def)
  have "group_step (fst two_ranks, snd two_ranks) (fst two_ranks, map snd (add_group_all (replicate 2 (serial_env\<lparr>decomposed := True\<rparr>))
      (Type 0) [0, 1] (fst two_ranks) (snd two_ranks)))"
    by (rule group_step.Add) (simp_all add: two_ranks_def ok NOT_LOCAL_def)
  then show ?thesis by (intro bonded_ranks_invariant [OF _ h] r_into_rtranclp)
qed

end
