(* ===== verification/AABBTree.thy ===== *)
theory AABBTree
  imports BoxDim
begin

text \<open>
  Model of \<open>hoomd/AABB.h\<close> and \<open>hoomd/AABBTree.h\<close>: axis-aligned bounding boxes and a binary tree of them in a flat array, built by
  recursive splitting, queried without a stack and updated in place.  Coordinates are exact reals and the variants of the
  code with vector instructions are not distinguished.  The proofs are in \<open>AABBQueries\<close>.
\<close>

section \<open>Boxes\<close>

record aabb =
  lower :: scalar3
  upper :: scalar3
  ab_tag :: nat

definition AABB_default :: aabb where
  "AABB_default = \<lparr>lower = 0, upper = 0, ab_tag = 0\<rparr>"

definition AABB_corners :: "scalar3 \<Rightarrow> scalar3 \<Rightarrow> aabb" where
  "AABB_corners lo up = \<lparr>lower = lo, upper = up, ab_tag = 0\<rparr>"

definition AABB_sphere :: "scalar3 \<Rightarrow> real \<Rightarrow> aabb" where
  "AABB_sphere p r = \<lparr>lower = Vec3 (vx p - r) (vy p - r) (vz p - r), upper = Vec3 (vx p + r) (vy p + r) (vz p + r), ab_tag = 0\<rparr>"

definition AABB_point :: "scalar3 \<Rightarrow> nat \<Rightarrow> aabb" where
  "AABB_point p t = \<lparr>lower = p, upper = p, ab_tag = t\<rparr>"

definition overlaps :: "aabb \<Rightarrow> aabb \<Rightarrow> bool" where
  "overlaps a b \<longleftrightarrow> \<not> (vx (upper b) < vx (lower a) \<or> vx (lower b) > vx (upper a) \<or> vy (upper b) < vy (lower a)
     \<or> vy (lower b) > vy (upper a) \<or> vz (upper b) < vz (lower a) \<or> vz (lower b) > vz (upper a))"

definition ab_getPosition :: "aabb \<Rightarrow> scalar3" where
  "ab_getPosition a = (let s = lower a + upper a in Vec3 (vx s / 2) (vy s / 2) (vz s / 2))"

definition translate :: "scalar3 \<Rightarrow> aabb \<Rightarrow> aabb" where
  "translate v a = a\<lparr>upper := upper a + v, lower := lower a + v\<rparr>"

definition box_contains :: "aabb \<Rightarrow> aabb \<Rightarrow> bool" where
  "box_contains a b \<longleftrightarrow> vx (lower b) \<ge> vx (lower a) \<and> vx (upper b) \<le> vx (upper a) \<and> vy (lower b) \<ge> vy (lower a)
     \<and> vy (upper b) \<le> vy (upper a) \<and> vz (lower b) \<ge> vz (lower a) \<and> vz (upper b) \<le> vz (upper a)"

text \<open>The merged box has the tag of a new object.\<close>

definition merge_boxes :: "aabb \<Rightarrow> aabb \<Rightarrow> aabb" where
  "merge_boxes a b = AABB_default\<lparr>
     lower := Vec3 (min (vx (lower a)) (vx (lower b))) (min (vy (lower a)) (vy (lower b))) (min (vz (lower a)) (vz (lower b))),
     upper := Vec3 (max (vx (upper a)) (vx (upper b))) (max (vy (upper a)) (vy (upper b))) (max (vz (upper a)) (vz (upper b)))\<rparr>"

section \<open>The tree\<close>

definition NODE_CAPACITY :: nat where
  "NODE_CAPACITY = 16"

definition INVALID_NODE :: nat where
  "INVALID_NODE = 4294967295"

text \<open>The first \<open>num_particles\<close> elements of the arrays of a node are lists here.\<close>

record aabb_node =
  n_aabb :: aabb
  n_left :: nat
  n_right :: nat
  n_parent :: nat
  n_skip :: nat
  n_particles :: "nat list"
  n_tags :: "nat list"

definition AABBNode :: aabb_node where
  "AABBNode = \<lparr>n_aabb = AABB_default, n_left = INVALID_NODE, n_right = INVALID_NODE, n_parent = INVALID_NODE, n_skip = 0,
     n_particles = [], n_tags = []\<rparr>"

text \<open>The nodes in use; their number is the length of the list.\<close>

record aabb_tree =
  t_nodes :: "aabb_node list"
  t_node_capacity :: nat
  t_root :: nat
  t_mapping :: "nat list"

definition AABBTree :: aabb_tree where
  "AABBTree = \<lparr>t_nodes = [], t_node_capacity = 0, t_root = 0, t_mapping = []\<rparr>"

definition tree_init :: "nat \<Rightarrow> aabb_tree \<Rightarrow> aabb_tree" where
  "tree_init N t = t\<lparr>t_nodes := [], t_root := INVALID_NODE, t_mapping := replicate N INVALID_NODE\<rparr>"

text \<open>\<open>alloc n\<close> says whether \<open>posix_memalign\<close> provides room for \<open>n\<close> nodes.\<close>

definition allocateNode :: "(nat \<Rightarrow> bool) \<Rightarrow> aabb_tree \<Rightarrow> (nat, aabb_tree) outcome" where
  "allocateNode alloc t = (let
     new_cap = (if t_node_capacity t * 2 = 0 then 16 else t_node_capacity t * 2);
     grow = (length (t_nodes t) \<ge> t_node_capacity t) in
     if grow \<and> \<not> alloc new_cap then (Inl (Runtime_error ''Error allocating AABBTree memory''), t)
     else let t = (if grow then t\<lparr>t_node_capacity := new_cap\<rparr> else t)
          in (Inr (length (t_nodes t)), t\<lparr>t_nodes := t_nodes t @ [AABBNode]\<rparr>))"

text \<open>Copy construction; the memory of a tree that was never built is not allocated.\<close>

definition AABBTree_copy :: "(nat \<Rightarrow> bool) \<Rightarrow> aabb_tree \<Rightarrow> exn + aabb_tree" where
  "AABBTree_copy alloc from = (if t_node_capacity from \<noteq> 0 \<and> \<not> alloc (t_node_capacity from)
     then Inl (Runtime_error ''Error allocating AABBTree memory'') else Inr from)"

definition set_node :: "nat \<Rightarrow> (aabb_node \<Rightarrow> aabb_node) \<Rightarrow> aabb_tree \<Rightarrow> aabb_tree" where
  "set_node i f t = t\<lparr>t_nodes := (t_nodes t)[i := f (t_nodes t ! i)]\<rparr>"

definition isNodeLeaf :: "nat \<Rightarrow> aabb_node list \<Rightarrow> bool" where
  "isNodeLeaf i nodes \<longleftrightarrow> n_left (nodes ! i) = INVALID_NODE"

subsection \<open>Building\<close>

text \<open>What \<open>buildNode\<close> changes: the boxes and the indices, which are partitioned in place, and the tree.\<close>

record build_state =
  b_aabbs :: "aabb list"
  b_idx :: "nat list"
  b_tree :: aabb_tree

definition merge_range :: "nat \<Rightarrow> nat \<Rightarrow> aabb list \<Rightarrow> aabb" where
  "merge_range start len aabbs = foldl (\<lambda>a i. merge_boxes a (aabbs ! (start + i))) (aabbs ! start) [1..<len]"

definition on_left :: "aabb \<Rightarrow> aabb \<Rightarrow> bool" where
  "on_left my_aabb a = (let r = upper my_aabb - lower my_aabb in
     if vx r > vy r \<and> vx r > vz r then vx (ab_getPosition a) < vx (ab_getPosition my_aabb)
     else if vy r > vz r then vy (ab_getPosition a) < vy (ab_getPosition my_aabb)
     else vz (ab_getPosition a) < vz (ab_getPosition my_aabb))"

text \<open>The partition loop: the left boxes move down to the insertion point, the right ones are collected.\<close>

definition partition_step :: "aabb \<Rightarrow> nat \<Rightarrow> (aabb list \<times> nat list) \<times> nat \<times> (aabb list \<times> nat list) \<Rightarrow> nat \<Rightarrow>
    (aabb list \<times> nat list) \<times> nat \<times> (aabb list \<times> nat list)" where
  "partition_step my_aabb start = (\<lambda>((aabbs, idx), left_insert, (aabb_right, idx_right)) i.
     if on_left my_aabb (aabbs ! (start + i)) then
       ((if left_insert \<noteq> i then (aabbs[start + left_insert := aabbs ! (start + i)], idx[start + left_insert := idx ! (start + i)])
         else (aabbs, idx)), left_insert + 1, (aabb_right, idx_right))
     else ((aabbs, idx), left_insert, (aabb_right @ [aabbs ! (start + i)], idx_right @ [idx ! (start + i)])))"

definition copy_to :: "nat \<Rightarrow> 'a list \<Rightarrow> 'a list \<Rightarrow> 'a list" where
  "copy_to pos src dst = take pos dst @ src @ drop (pos + length src) dst"

definition partition_range :: "aabb \<Rightarrow> nat \<Rightarrow> nat \<Rightarrow> aabb list \<times> nat list \<Rightarrow> nat \<times> (aabb list \<times> nat list)" where
  "partition_range my_aabb start len st = (case foldl (partition_step my_aabb start) (st, 0, ([], [])) [0..<len] of
     ((aabbs, idx), left_insert, (aabb_right, idx_right)) \<Rightarrow>
       (left_insert, (copy_to (start + left_insert) aabb_right aabbs, copy_to (start + left_insert) idx_right idx)))"

definition start_of_right :: "nat \<Rightarrow> nat \<Rightarrow> nat" where
  "start_of_right len left_insert = (let r = (if left_insert = len then len - 1 else left_insert) in if r = 0 then 1 else r)"

definition fill_leaf :: "nat \<Rightarrow> nat \<Rightarrow> aabb \<Rightarrow> nat \<Rightarrow> nat \<Rightarrow> build_state \<Rightarrow> build_state" where
  "fill_leaf start len my_aabb parent new_node s = (let
     t = set_node new_node (\<lambda>n. n\<lparr>n_aabb := my_aabb, n_parent := parent,
           n_particles := map (\<lambda>i. b_idx s ! (start + i)) [0..<len],
           n_tags := map (\<lambda>i. ab_tag (b_aabbs s ! (start + i))) [0..<len]\<rparr>) (b_tree s);
     t = t\<lparr>t_mapping := foldl (\<lambda>m i. m[b_idx s ! (start + i) := new_node]) (t_mapping t) [0..<len]\<rparr>
     in s\<lparr>b_tree := t\<rparr>)"

definition on_tree :: "(aabb_tree \<Rightarrow> ('a, aabb_tree) outcome) \<Rightarrow> build_state \<Rightarrow> ('a, build_state) outcome" where
  "on_tree f s = (case f (b_tree s) of (r, t) \<Rightarrow> (r, s\<lparr>b_tree := t\<rparr>))"

lemma start_of_right_bounds:
  assumes "2 \<le> len" "left_insert \<le> len"
  shows "0 < start_of_right len left_insert" "start_of_right len left_insert < len"
  using assms by (auto simp: start_of_right_def Let_def)

lemma partition_left_bound: "fst (snd (foldl (partition_step a start) (st, k, rt) is)) \<le> k + length is"
proof (induction "is" arbitrary: st k rt)
  case (Cons i "is")
  obtain x y u v where e: "st = (x, y)" "rt = (u, v)" by (metis surj_pair)
  show ?case
  proof (cases "on_left a (x ! (start + i))")
    case True
    then show ?thesis using Cons [of _ "k + 1" "(u, v)"] e by (simp add: partition_step_def)
  next
    case False
    then show ?thesis using Cons [of _ k _] e by (auto simp: partition_step_def intro: le_SucI)
  qed
qed simp

lemma partition_range_bound: "fst (partition_range a start len st) \<le> len"
  using partition_left_bound [of a start st 0 "([], [])" "[0..<len]"]
  by (auto simp: partition_range_def split: prod.splits)

text \<open>A recursive call for an empty range would be a call without end; the bounds of the split exclude it.\<close>

function buildNode :: "(nat \<Rightarrow> bool) \<Rightarrow> nat \<Rightarrow> nat \<Rightarrow> nat \<Rightarrow> build_state \<Rightarrow> (nat, build_state) outcome" where
  "buildNode alloc start len parent s = (let my_aabb = merge_range start len (b_aabbs s) in
     if len \<le> NODE_CAPACITY then
       obind (on_tree (allocateNode alloc) s) (\<lambda>new_node s. (Inr new_node, fill_leaf start len my_aabb parent new_node s))
     else let part = (if len = 2 then (0, (b_aabbs s, b_idx s)) else partition_range my_aabb start len (b_aabbs s, b_idx s));
              start_right = start_of_right len (fst part) in
       obind (on_tree (allocateNode alloc) s) (\<lambda>my_idx s.
         let s = s\<lparr>b_aabbs := fst (snd part), b_idx := snd (snd part)\<rparr> in
         obind (buildNode alloc start start_right my_idx s) (\<lambda>new_left s.
           obind (buildNode alloc (start + start_right) (len - start_right) my_idx s) (\<lambda>new_right s.
             (Inr my_idx, s\<lparr>b_tree := set_node my_idx (\<lambda>n. n\<lparr>n_aabb := my_aabb, n_parent := parent, n_left := new_left,
                n_right := new_right\<rparr>) (b_tree s)\<rparr>)))))"
  by pat_completeness auto
termination
proof (relation "measure (\<lambda>(alloc, start, len, parent, s). len)", goal_cases)
  case 1
  show ?case by simp
next
  case (2 alloc start len parent s my_aabb part start_right my_idx s1 s2)
  have "fst part \<le> len" using 2 partition_range_bound by (auto split: if_splits)
  then have "start_right < len" using 2 start_of_right_bounds(2) [of len "fst part"] by (simp add: NODE_CAPACITY_def)
  then show ?case by simp
next
  case (3 alloc start len parent s my_aabb part start_right my_idx s1 s2 new_left s3)
  have "fst part \<le> len" using 3 partition_range_bound by (auto split: if_splits)
  then have "0 < start_right" using 3 start_of_right_bounds(1) [of len "fst part"] by (simp add: NODE_CAPACITY_def)
  then show ?case using 3 by (simp add: NODE_CAPACITY_def)
qed

declare buildNode.simps [simp del]

text \<open>The recursion of \<open>updateSkip\<close> follows the links of the nodes.\<close>

partial_function (option) updateSkip :: "nat \<Rightarrow> aabb_node list \<Rightarrow> (nat \<times> aabb_node list) option" where
  "updateSkip idx nodes = (if isNodeLeaf idx nodes then Some (1, nodes)
     else Option.bind (updateSkip (n_left (nodes ! idx)) nodes) (\<lambda>(l, nodes').
       Option.bind (updateSkip (n_right (nodes ! idx)) nodes') (\<lambda>(r, nodes').
         Some (l + r + 1, nodes'[idx := (nodes' ! idx)\<lparr>n_skip := l + r\<rparr>]))))"

definition buildTree :: "(nat \<Rightarrow> bool) \<Rightarrow> aabb list \<Rightarrow> aabb_tree \<Rightarrow> (unit, aabb_tree) outcome option" where
  "buildTree alloc aabbs t = (let N = length aabbs; t = tree_init N t in
     case buildNode alloc 0 N INVALID_NODE \<lparr>b_aabbs = aabbs, b_idx = [0..<N], b_tree = t\<rparr> of
       (Inl e, s) \<Rightarrow> Some (Inl e, b_tree s)
     | (Inr rt, s) \<Rightarrow> (let t = (b_tree s)\<lparr>t_root := rt\<rparr> in
         map_option (\<lambda>(_, nodes). (Inr (), t\<lparr>t_nodes := nodes\<rparr>)) (updateSkip rt (t_nodes t))))"

subsection \<open>Queries and updates\<close>

text \<open>The result is the list of hits and the number of tests.\<close>

function query_loop :: "aabb_node list \<Rightarrow> aabb \<Rightarrow> nat \<Rightarrow> nat list \<Rightarrow> nat \<Rightarrow> nat list \<times> nat" where
  "query_loop nodes q cur hits tests = (if cur < length nodes then
     let node = nodes ! cur in
     if overlaps q (n_aabb node) then
       query_loop nodes q (cur + 1) (if n_left node = INVALID_NODE then hits @ n_particles node else hits) (tests + 1)
     else query_loop nodes q (cur + n_skip node + 1) hits (tests + 1)
   else (hits, tests))"
  by pat_completeness auto
termination
  by (relation "measure (\<lambda>(nodes, q, cur, hits, tests). length nodes - cur)") auto

declare query_loop.simps [simp del]

definition query :: "aabb_tree \<Rightarrow> nat list \<Rightarrow> aabb \<Rightarrow> nat list \<times> nat" where
  "query t hits q = query_loop (t_nodes t) q 0 hits 0"

partial_function (option) update_parents :: "nat \<Rightarrow> aabb_node list \<Rightarrow> aabb_node list option" where
  "update_parents cur nodes = (if cur = INVALID_NODE then Some nodes
     else let n = nodes ! cur;
              nodes = nodes[cur := n\<lparr>n_aabb := merge_boxes (n_aabb (nodes ! n_left n)) (n_aabb (nodes ! n_right n))\<rparr>]
          in update_parents (n_parent n) nodes)"

definition tree_update :: "nat \<Rightarrow> aabb \<Rightarrow> aabb_tree \<Rightarrow> aabb_tree option" where
  "tree_update i a t = (let node_idx = t_mapping t ! i; n = t_nodes t ! node_idx in
     if box_contains (n_aabb n) a then Some t
     else map_option (\<lambda>nodes. t\<lparr>t_nodes := nodes\<rparr>)
       (update_parents (n_parent n) ((t_nodes t)[node_idx := n\<lparr>n_aabb := merge_boxes (n_aabb n) a\<rparr>])))"

partial_function (option) count_parents :: "nat \<Rightarrow> aabb_node list \<Rightarrow> nat \<Rightarrow> nat option" where
  "count_parents cur nodes h = (if cur = INVALID_NODE then Some h else count_parents (n_parent (nodes ! cur)) nodes (h + 1))"

definition tree_height :: "nat \<Rightarrow> aabb_tree \<Rightarrow> nat option" where
  "tree_height i t = (let node_idx = t_mapping t ! i in
     if node_idx = INVALID_NODE then Some 0 else count_parents (n_parent (t_nodes t ! node_idx)) (t_nodes t) 1)"

end
