(* ===== verification/AABBQueries.thy ===== *)
theory AABBQueries
  imports AABBTree "HOL-Library.Multiset"
begin

text \<open>
  Correctness of the tree of bounding boxes.  The array is shown to encode an abstract binary tree in preorder; building,
  the skip fields, queries and updates are each related to a recursive function on that tree.
\<close>

section \<open>Boxes\<close>

lemma overlaps_symmetric: "overlaps a b \<longleftrightarrow> overlaps b a"
  by (auto simp: overlaps_def)

lemma box_contains_refl [simp]: "box_contains a a"
  by (simp add: box_contains_def)

lemma box_contains_trans: "box_contains a b \<Longrightarrow> box_contains b c \<Longrightarrow> box_contains a c"
  by (auto simp: box_contains_def)

lemma merge_contains [simp]: "box_contains (merge_boxes a b) a" "box_contains (merge_boxes a b) b"
  by (auto simp: box_contains_def merge_boxes_def AABB_default_def)

lemma overlaps_mono: "box_contains a b \<Longrightarrow> overlaps q b \<Longrightarrow> overlaps q a"
  by (auto simp: box_contains_def overlaps_def)

definition merge_all :: "aabb list \<Rightarrow> aabb" where
  "merge_all as = foldl merge_boxes (hd as) (tl as)"

lemma foldl_merge_contains:
  "box_contains (foldl merge_boxes a as) a \<and> (\<forall>b\<in>set as. box_contains (foldl merge_boxes a as) b)"
proof (induction as arbitrary: a)
  case (Cons c as)
  then show ?case using box_contains_trans merge_contains by (metis foldl_Cons set_ConsD)
qed simp

lemma merge_all_contains: "b \<in> set as \<Longrightarrow> box_contains (merge_all as) b"
  using foldl_merge_contains [of "hd as" "tl as"] unfolding merge_all_def by (cases as) auto

lemma merge_range_all:
  assumes "0 < len" "start + len \<le> length as"
  shows "merge_range start len as = merge_all (take len (drop start as))"
proof -
  have "foldl (\<lambda>a i. merge_boxes a (as ! (start + i))) c [1..<n] = foldl merge_boxes c (map (\<lambda>i. as ! (start + i)) [1..<n])" for c n
    by (simp add: foldl_map)
  moreover have "take len (drop start as) = map (\<lambda>i. as ! (start + i)) [0..<len]"
    using assms(2) by (auto simp: list_eq_iff_nth_eq)
  moreover have "[0..<len] = 0 # [1..<len]" using assms(1) by (simp add: upt_rec)
  ultimately show ?thesis by (simp add: merge_range_def merge_all_def)
qed

section \<open>Abstract trees and their encoding\<close>

datatype btree = Lf (lf_box: aabb) "nat list" "nat list" | Nd aabb btree btree

fun tsize :: "btree \<Rightarrow> nat" where
  "tsize (Lf b ps ts) = 1"
| "tsize (Nd b l r) = tsize l + tsize r + 1"

fun tbox :: "btree \<Rightarrow> aabb" where
  "tbox (Lf b ps ts) = b"
| "tbox (Nd b l r) = b"

fun tparticles :: "btree \<Rightarrow> nat list" where
  "tparticles (Lf b ps ts) = ps"
| "tparticles (Nd b l r) = tparticles l @ tparticles r"

text \<open>Nodes are stored in preorder; a node is followed by its left and then its right subtree.\<close>

fun encode :: "bool \<Rightarrow> nat \<Rightarrow> nat \<Rightarrow> btree \<Rightarrow> aabb_node list" where
  "encode sk base p (Lf b ps ts) = [\<lparr>n_aabb = b, n_left = INVALID_NODE, n_right = INVALID_NODE, n_parent = p, n_skip = 0,
     n_particles = ps, n_tags = ts\<rparr>]"
| "encode sk base p (Nd b l r) = \<lparr>n_aabb = b, n_left = base + 1, n_right = base + 1 + tsize l, n_parent = p,
     n_skip = (if sk then tsize l + tsize r else 0), n_particles = [], n_tags = []\<rparr>
     # encode sk (base + 1) base l @ encode sk (base + 1 + tsize l) base r"

lemma length_encode [simp]: "length (encode sk base p t) = tsize t"
  by (induction t arbitrary: base p) auto

lemma tsize_pos [simp]: "0 < tsize t"
  by (cases t) auto

lemma encode_root:
  "n_aabb (hd (encode sk base p t)) = tbox t" "n_parent (hd (encode sk base p t)) = p" "encode sk base p t \<noteq> []"
  by (cases t; simp)+

lemma nth_root:
  assumes "nodes = pre @ encode sk (length pre) p t @ post"
  shows "n_aabb (nodes ! length pre) = tbox t" "n_parent (nodes ! length pre) = p"
  using assms encode_root [of sk "length pre" p t] by (auto simp: nth_append hd_conv_nth)

section \<open>Queries\<close>

fun tquery :: "aabb \<Rightarrow> btree \<Rightarrow> nat list" where
  "tquery q (Lf b ps ts) = (if overlaps q b then ps else [])"
| "tquery q (Nd b l r) = (if overlaps q b then tquery q l @ tquery q r else [])"

fun tvisits :: "aabb \<Rightarrow> btree \<Rightarrow> nat" where
  "tvisits q (Lf b ps ts) = 1"
| "tvisits q (Nd b l r) = (if overlaps q b then tvisits q l + tvisits q r + 1 else 1)"

lemma tvisits_bound: "tvisits q t \<le> tsize t"
  by (induction t) auto

lemma query_loop_tree:
  assumes "nodes = pre @ encode True (length pre) p t @ post" "length nodes \<le> INVALID_NODE"
  shows "query_loop nodes q (length pre) hits n = query_loop nodes q (length pre + tsize t) (hits @ tquery q t) (n + tvisits q t)"
  using assms
proof (induction t arbitrary: pre p post hits n)
  case (Lf b ps ts)
  then show ?case by (subst query_loop.simps) (simp add: nth_append)
next
  case (Nd b l r)
  define base where "base = length pre"
  define node where "node = \<lparr>n_aabb = b, n_left = base + 1, n_right = base + 1 + tsize l, n_parent = p,
     n_skip = tsize l + tsize r, n_particles = [], n_tags = []\<rparr>"
  have nodes: "nodes = pre @ node # encode True (base + 1) base l @ encode True (base + 1 + tsize l) base r @ post"
    using Nd.prems(1) by (simp add: node_def base_def)
  have at: "nodes ! base = node" "base < length nodes" by (simp_all add: nodes base_def)
  have inner: "n_left node \<noteq> INVALID_NODE" using Nd.prems(2) tsize_pos [of l] unfolding nodes by (simp add: node_def base_def del: tsize_pos)
  show ?case
  proof (cases "overlaps q b")
    case False
    then show ?thesis
      unfolding base_def [symmetric]
      by (subst query_loop.simps) (simp add: at, simp add: node_def algebra_simps)
  next
    case True
    have "query_loop nodes q base hits n = query_loop nodes q (base + 1) hits (n + 1)"
      using True inner by (subst query_loop.simps) (simp add: at, simp add: node_def)
    also have "\<dots> = query_loop nodes q (base + 1 + tsize l) (hits @ tquery q l) (n + 1 + tvisits q l)"
      using Nd.IH(1) [of "pre @ [node]" base "encode True (base + 1 + tsize l) base r @ post"] Nd.prems(2) nodes
      by (simp add: base_def)
    also have "\<dots> = query_loop nodes q (base + 1 + tsize l + tsize r) (hits @ tquery q l @ tquery q r) (n + 1 + tvisits q l + tvisits q r)"
      using Nd.IH(2) [of "pre @ node # encode True (base + 1) base l" base post] Nd.prems(2) nodes by (simp add: base_def)
    finally show ?thesis using True by (simp add: base_def algebra_simps)
  qed
qed

lemma query_tree:
  assumes "t_nodes tr = encode True 0 p t" "tsize t \<le> INVALID_NODE"
  shows "query tr hits q = (hits @ tquery q t, tvisits q t)"
proof -
  have "query tr hits q = query_loop (t_nodes tr) q (tsize t) (hits @ tquery q t) (tvisits q t)"
    using query_loop_tree [of "t_nodes tr" "[]" p t "[]" q hits 0] assms by (simp add: query_def)
  also have "\<dots> = (hits @ tquery q t, tvisits q t)" using assms by (subst query_loop.simps) simp
  finally show ?thesis .
qed

text \<open>Every box is inside the box of its leaf, and the boxes of the children inside that of their parent.\<close>

fun covers :: "(nat \<Rightarrow> aabb) \<Rightarrow> btree \<Rightarrow> bool" where
  "covers boxes (Lf b ps ts) \<longleftrightarrow> (\<forall>i\<in>set ps. box_contains b (boxes i))"
| "covers boxes (Nd b l r) \<longleftrightarrow> box_contains b (tbox l) \<and> box_contains b (tbox r) \<and> covers boxes l \<and> covers boxes r"

lemma covers_root: "covers boxes t \<Longrightarrow> i \<in> set (tparticles t) \<Longrightarrow> box_contains (tbox t) (boxes i)"
  by (induction t) (auto intro: box_contains_trans)

lemma tquery_finds: "covers boxes t \<Longrightarrow> i \<in> set (tparticles t) \<Longrightarrow> overlaps q (boxes i) \<Longrightarrow> i \<in> set (tquery q t)"
proof (induction t)
  case (Nd b l r)
  then have "overlaps q b" using overlaps_mono covers_root [OF Nd.prems(1,2)] by simp
  then show ?case using Nd by auto
qed (auto intro: overlaps_mono)

lemma tquery_sub: "set (tquery q t) \<subseteq> set (tparticles t)"
  by (induction t) auto

lemma tquery_distinct: "distinct (tparticles t) \<Longrightarrow> distinct (tquery q t)"
proof (induction t)
  case (Nd b l r)
  then show ?case using tquery_sub [of q l] tquery_sub [of q r] by auto
qed simp

lemma covers_cong: "(\<And>i. i \<in> set (tparticles t) \<Longrightarrow> boxes i = boxes' i) \<Longrightarrow> covers boxes t = covers boxes' t"
  by (induction t) auto

section \<open>Updates\<close>

fun leafpos :: "nat \<Rightarrow> nat \<Rightarrow> btree \<Rightarrow> nat" where
  "leafpos base i (Lf b ps ts) = base"
| "leafpos base i (Nd b l r) = (if i \<in> set (tparticles l) then leafpos (base + 1) i l else leafpos (base + 1 + tsize l) i r)"

fun tupdate :: "nat \<Rightarrow> aabb \<Rightarrow> btree \<Rightarrow> btree" where
  "tupdate i a (Lf b ps ts) = Lf (merge_boxes b a) ps ts"
| "tupdate i a (Nd b l r) = (if i \<in> set (tparticles l)
     then Nd (merge_boxes (tbox (tupdate i a l)) (tbox r)) (tupdate i a l) r
     else Nd (merge_boxes (tbox l) (tbox (tupdate i a r))) l (tupdate i a r))"

lemma tupdate_shape [simp]: "tsize (tupdate i a t) = tsize t" "tparticles (tupdate i a t) = tparticles t"
  "leafpos base j (tupdate i a t) = leafpos base j t"
  by (induction t arbitrary: base) auto

lemma leafpos_bounds: "base \<le> leafpos base i t \<and> leafpos base i t < base + tsize t"
proof (induction t arbitrary: base)
  case (Nd b l r)
  show ?case using Nd(1) [of "base + 1"] Nd(2) [of "base + 1 + tsize l"] by auto
qed simp

lemma tupdate_covers:
  assumes "covers boxes t" "distinct (tparticles t)" "i \<in> set (tparticles t)"
  shows "covers (boxes(i := a)) (tupdate i a t) \<and> box_contains (tbox (tupdate i a t)) a"
  using assms
proof (induction t)
  case (Lf b ps ts)
  then show ?case by (auto intro: box_contains_trans [OF merge_contains(1)])
next
  case (Nd b l r)
  have c: "covers (boxes(i := a)) l = covers boxes l" if "i \<notin> set (tparticles l)" for l
    using that by (intro covers_cong) auto
  show ?case
  proof (cases "i \<in> set (tparticles l)")
    case True
    then have "i \<notin> set (tparticles r)" using Nd.prems(2) by auto
    then have "covers (boxes(i := a)) r" using Nd.prems(1) c by simp
    moreover have "covers (boxes(i := a)) (tupdate i a l)" "box_contains (tbox (tupdate i a l)) a"
      using Nd.IH(1) Nd.prems True unfolding covers.simps tparticles.simps by (metis distinct_append)+
    ultimately show ?thesis using True box_contains_trans [OF merge_contains(1)] by (simp del: fun_upd_apply)
  next
    case False
    then have "covers (boxes(i := a)) l" using Nd.prems(1) c by simp
    moreover have "covers (boxes(i := a)) (tupdate i a r)" "box_contains (tbox (tupdate i a r)) a"
      using Nd.IH(2) Nd.prems False unfolding covers.simps tparticles.simps by (metis Un_iff distinct_append set_append)+
    ultimately show ?thesis using False box_contains_trans [OF merge_contains(2)] by (simp del: fun_upd_apply)
  qed
qed

text \<open>The loop climbs from the leaf to the parent of the tree and recomputes the boxes on the way.\<close>

lemma update_climb:
  assumes "nodes = pre @ encode True (length pre) p t @ post" "length nodes \<le> INVALID_NODE" "i \<in> set (tparticles t)"
  defines "j \<equiv> leafpos (length pre) i t"
  shows "update_parents (n_parent (nodes ! j)) (nodes[j := (nodes ! j)\<lparr>n_aabb := merge_boxes (n_aabb (nodes ! j)) a\<rparr>])
    = update_parents p (pre @ encode True (length pre) p (tupdate i a t) @ post)"
  using assms(1-3) unfolding j_def
proof (induction t arbitrary: pre p post)
  case (Lf b ps ts)
  then show ?case by (simp add: nth_append)
next
  case (Nd b l r)
  define base where "base = length pre"
  define node where "node = (\<lambda>b. \<lparr>n_aabb = b, n_left = base + 1, n_right = base + 1 + tsize l, n_parent = p,
     n_skip = tsize l + tsize r, n_particles = [], n_tags = []\<rparr>)"
  have nodes: "nodes = pre @ node b # encode True (base + 1) base l @ encode True (base + 1 + tsize l) base r @ post"
    using Nd.prems(1) by (simp add: node_def base_def)
  have ne: "base \<noteq> INVALID_NODE" using Nd.prems(2) unfolding nodes by (simp add: base_def)
  have climb: "update_parents base (pre @ node b # encode True (base + 1) base l' @ encode True (base + 1 + tsize l) base r' @ post)
      = update_parents p (pre @ node (merge_boxes (tbox l') (tbox r')) # encode True (base + 1) base l' @
          encode True (base + 1 + tsize l) base r' @ post)" if l': "tsize l' = tsize l" for l' r'
  proof -
    let ?n = "pre @ node b # encode True (base + 1) base l' @ encode True (base + 1 + tsize l) base r' @ post"
    have "n_aabb (?n ! (base + 1)) = tbox l'"
      using nth_root(1) [of ?n "pre @ [node b]" True base l' "encode True (base + 1 + tsize l) base r' @ post"] by (simp add: base_def)
    moreover have "n_aabb (?n ! (base + 1 + tsize l)) = tbox r'"
      using nth_root(1) [of ?n "pre @ node b # encode True (base + 1) base l'" True base r' post] l' by (simp add: base_def)
    ultimately show ?thesis
      using ne by (subst update_parents.simps) (simp add: node_def base_def)
  qed
  show ?case
  proof (cases "i \<in> set (tparticles l)")
    case True
    let ?pre = "pre @ [node b]" and ?post = "encode True (base + 1 + tsize l) base r @ post"
    have "nodes = ?pre @ encode True (length ?pre) base l @ ?post" by (simp add: nodes base_def)
    from Nd.IH(1) [OF this Nd.prems(2) True] show ?thesis
      using True climb [of "tupdate i a l" r] by (simp add: base_def node_def)
  next
    case False
    let ?pre = "pre @ node b # encode True (base + 1) base l"
    have i: "i \<in> set (tparticles r)" using False Nd.prems(3) by simp
    have "nodes = ?pre @ encode True (length ?pre) base r @ post" by (simp add: nodes base_def)
    from Nd.IH(2) [OF this Nd.prems(2) i] show ?thesis
      using False climb [of l "tupdate i a r"] by (simp add: base_def node_def)
  qed
qed

text \<open>When the box of the leaf already contains the new box, nothing has to change.\<close>

lemma covers_contained:
  assumes "covers boxes t" "nodes = pre @ encode True (length pre) p t @ post" "distinct (tparticles t)"
    "i \<in> set (tparticles t) \<longrightarrow> box_contains (n_aabb (nodes ! leafpos (length pre) i t)) a"
  shows "covers (boxes(i := a)) t"
  using assms
proof (induction t arbitrary: pre p post)
  case (Lf b ps ts)
  then show ?case by (auto simp: nth_append)
next
  case (Nd b l r)
  obtain node where nodes: "nodes = pre @ node # encode True (length pre + 1) (length pre) l @
      encode True (length pre + 1 + tsize l) (length pre) r @ post" using Nd.prems(2) by simp
  have "covers (boxes(i := a)) l"
    by (rule Nd.IH(1) [of "pre @ [node]" "length pre" "encode True (length pre + 1 + tsize l) (length pre) r @ post"])
      (use Nd.prems(1,3,4) nodes in auto)
  moreover have "i \<notin> set (tparticles l)" if "i \<in> set (tparticles r)" using Nd.prems(3) that by auto
  then have "covers (boxes(i := a)) r"
    by (intro Nd.IH(2) [of "pre @ node # encode True (length pre + 1) (length pre) l" "length pre" post])
      (use Nd.prems(1,3,4) nodes in auto)
  ultimately show ?case using Nd.prems(1) by (simp del: fun_upd_apply)
qed

section \<open>Building\<close>

text \<open>The tree that is built, on the list of boxes with their indices.\<close>

definition on_left_in :: "(aabb \<times> nat) list \<Rightarrow> aabb \<times> nat \<Rightarrow> bool" where
  "on_left_in xs x = on_left (merge_all (map fst xs)) (fst x)"

definition partitioned :: "(aabb \<times> nat) list \<Rightarrow> (aabb \<times> nat) list" where
  "partitioned xs = filter (on_left_in xs) xs @ filter (\<lambda>x. \<not> on_left_in xs x) xs"

definition split_point :: "(aabb \<times> nat) list \<Rightarrow> nat" where
  "split_point xs = start_of_right (length xs) (length (filter (on_left_in xs) xs))"

lemma partitioned_props: "mset (partitioned xs) = mset xs" "length (partitioned xs) = length xs" "set (partitioned xs) = set xs"
  by (auto simp: partitioned_def sum_length_filter_compl)

lemma split_point_bounds:
  assumes "NODE_CAPACITY < length xs"
  shows "0 < split_point xs" "split_point xs < length xs"
  using assms start_of_right_bounds [of "length xs" "length (filter (on_left_in xs) xs)"]
  by (simp_all add: split_point_def NODE_CAPACITY_def)

function build_ref :: "(aabb \<times> nat) list \<Rightarrow> btree" where
  "build_ref xs = (let b = merge_all (map fst xs) in
     if length xs \<le> NODE_CAPACITY then Lf b (map snd xs) (map (\<lambda>x. ab_tag (fst x)) xs)
     else Nd b (build_ref (take (split_point xs) (partitioned xs))) (build_ref (drop (split_point xs) (partitioned xs))))"
  by pat_completeness auto
termination
proof (relation "measure length", goal_cases)
  case (3 xs b)
  then show ?case using split_point_bounds [of xs] by (simp add: partitioned_props)
qed (use split_point_bounds in \<open>auto simp: partitioned_props not_le\<close>)

declare build_ref.simps [simp del]

lemma build_ref_leaf:
  "length xs \<le> NODE_CAPACITY \<Longrightarrow> build_ref xs = Lf (merge_all (map fst xs)) (map snd xs) (map (\<lambda>x. ab_tag (fst x)) xs)"
  by (subst build_ref.simps) (simp add: Let_def)

lemma build_ref_node:
  "\<not> length xs \<le> NODE_CAPACITY \<Longrightarrow> build_ref xs = Nd (merge_all (map fst xs))
     (build_ref (take (split_point xs) (partitioned xs))) (build_ref (drop (split_point xs) (partitioned xs)))"
  by (subst build_ref.simps) (simp add: Let_def)

text \<open>Induction over the splitting: a list that fits in a leaf, or the two parts of a longer one.\<close>

lemma build_induct [consumes 1, case_names leaf node]:
  assumes "xs \<noteq> []"
    and "\<And>xs. xs \<noteq> [] \<Longrightarrow> length xs \<le> NODE_CAPACITY \<Longrightarrow> P xs"
    and "\<And>xs ls rs. build_ref xs = Nd (merge_all (map fst xs)) (build_ref ls) (build_ref rs) \<Longrightarrow> ls \<noteq> [] \<Longrightarrow> rs \<noteq> [] \<Longrightarrow> set ls \<union> set rs = set xs \<Longrightarrow>
      mset ls + mset rs = mset xs \<Longrightarrow> length ls + length rs = length xs \<Longrightarrow> P ls \<Longrightarrow> P rs \<Longrightarrow> P xs"
  shows "P xs"
  using assms(1)
proof (induction xs rule: length_induct)
  case (1 xs)
  show ?case
  proof (cases "length xs \<le> NODE_CAPACITY")
    case False
    then have n: "NODE_CAPACITY < length xs" by simp
    define ls where "ls = take (split_point xs) (partitioned xs)"
    define rs where "rs = drop (split_point xs) (partitioned xs)"
    have lr: "ls @ rs = partitioned xs" by (simp add: ls_def rs_def)
    have len: "length ls = split_point xs" "length rs = length xs - split_point xs"
      using split_point_bounds [OF n] by (simp_all add: ls_def rs_def partitioned_props)
    then have "ls \<noteq> []" "rs \<noteq> []" using split_point_bounds [OF n] by auto
    moreover have "set ls \<union> set rs = set xs" using arg_cong [OF lr, of set] by (simp add: partitioned_props)
    moreover have "mset ls + mset rs = mset xs" using arg_cong [OF lr, of mset] by (simp add: partitioned_props)
    moreover have "length ls + length rs = length xs" "length ls < length xs" "length rs < length xs"
      using len split_point_bounds [OF n] by simp_all
    ultimately show ?thesis 
      using assms(3) [of xs ls rs] 1(1) build_ref_node [OF False, folded ls_def rs_def] by blast
  qed (use assms(2) 1(2) in blast)
qed

lemma build_ref_root: "tbox (build_ref xs) = merge_all (map fst xs)"
  by (subst build_ref.simps) (simp add: Let_def)

lemma build_ref_particles: "xs \<noteq> [] \<Longrightarrow> mset (tparticles (build_ref xs)) = mset (map snd xs)"
proof (induction xs rule: build_induct)
  case (node xs ls rs)
  have "mset (tparticles (build_ref xs)) = image_mset snd (mset ls + mset rs)" using node(1,7,8) by simp
  then show ?case using node(5) by simp
qed (simp add: build_ref_leaf)

lemma build_ref_size: "xs \<noteq> [] \<Longrightarrow> tsize (build_ref xs) \<le> 2 * length xs - 1"
proof (induction xs rule: build_induct)
  case (leaf xs)
  then show ?case by (cases xs) (simp_all add: build_ref_leaf)
next
  case (node xs ls rs)
  have "0 < length ls" "0 < length rs" using node(2,3) by auto
  moreover have "tsize (build_ref xs) = tsize (build_ref ls) + tsize (build_ref rs) + 1" using node(1) by simp
  ultimately show ?case using node(6-8) by linarith
qed

lemma merge_all_mono: "set as \<subseteq> set bs \<Longrightarrow> as \<noteq> [] \<Longrightarrow> box_contains (merge_all bs) (merge_all as)"
proof -
  assume sub: "set as \<subseteq> set bs" "as \<noteq> []"
  have "box_contains c (foldl merge_boxes a as)" if "box_contains c a" "\<forall>x\<in>set as. box_contains c x" for a c as
    using that by (induction as arbitrary: a) (auto simp: box_contains_def merge_boxes_def AABB_default_def)
  moreover have "\<forall>x\<in>set as. box_contains (merge_all bs) x" using sub merge_all_contains by blast
  ultimately show ?thesis using sub(2) unfolding merge_all_def [of as] by (cases as) auto
qed

lemma build_ref_covers: "xs \<noteq> [] \<Longrightarrow> (\<forall>x\<in>set xs. boxes (snd x) = fst x) \<longrightarrow> covers boxes (build_ref xs)"
proof (induction xs rule: build_induct)
  case (leaf xs)
  have "box_contains (merge_all (map fst xs)) (fst x)" if "x \<in> set xs" for x using that by (intro merge_all_contains) simp
  then show ?case using leaf by (auto simp: build_ref_leaf)
next
  case (node xs ls rs)
  have "box_contains (merge_all (map fst xs)) (merge_all (map fst ls))" "box_contains (merge_all (map fst xs)) (merge_all (map fst rs))"
    by (rule merge_all_mono; use node(2-4) in auto)+
  then show ?case using node(1,4,7,8) by (auto simp: build_ref_root)
qed

section \<open>The code builds that tree\<close>

definition range_of :: "nat \<Rightarrow> nat \<Rightarrow> 'a list \<Rightarrow> 'a list" where
  "range_of start len xs = take len (drop start xs)"

lemma range_of_props:
  assumes "start + len \<le> length xs"
  shows "length (range_of start len xs) = len" "i < len \<Longrightarrow> range_of start len xs ! i = xs ! (start + i)"
  using assms by (simp_all add: range_of_def)

definition replaced :: "nat \<Rightarrow> nat \<Rightarrow> 'a list \<Rightarrow> 'a list \<Rightarrow> 'a list" where
  "replaced start len ys xs = take start xs @ ys @ drop (start + len) xs"

text \<open>One list of the partition loop: the left elements are at the front, everything behind position \<open>n\<close> is untouched.\<close>

lemma move_left:
  assumes "take (start + k) A' = take start A @ ls" "length ls = k" "drop (start + n) A' = drop (start + n) A" "length A' = length A"
    "k \<le> n" "start + n < length A"
  shows "take (start + Suc k) (A'[start + k := A' ! (start + n)]) = take start A @ ls @ [A ! (start + n)]"
    "drop (start + Suc n) (A'[start + k := A' ! (start + n)]) = drop (start + Suc n) A"
    "A' ! (start + n) = A ! (start + n)" "drop (start + Suc n) A' = drop (start + Suc n) A"
proof -
  show n: "A' ! (start + n) = A ! (start + n)"
    using arg_cong [OF assms(3), of hd] assms(4,6) by (simp add: hd_drop_conv_nth)
  show d: "drop (start + Suc n) A' = drop (start + Suc n) A"
    using arg_cong [OF assms(3), of "drop 1"] by (simp add: drop_drop)
  show "take (start + Suc k) (A'[start + k := A' ! (start + n)]) = take start A @ ls @ [A ! (start + n)]"
    using assms n by (simp add: take_Suc_conv_app_nth)
  show "drop (start + Suc n) (A'[start + k := A' ! (start + n)]) = drop (start + Suc n) A"
    using d assms(5) by simp
qed

lemma partition_fold:
  fixes b :: aabb
  assumes "length I = length A" "start + len \<le> length A" "n \<le> len"
  defines "xs \<equiv> range_of start n (zip A I)"
  defines "ls \<equiv> filter (\<lambda>x. on_left b (fst x)) xs" and "rs \<equiv> filter (\<lambda>x. \<not> on_left b (fst x)) xs"
  shows "\<exists>A' I'. foldl (partition_step b start) ((A, I), 0, ([], [])) [0..<n] = ((A', I'), length ls, (map fst rs, map snd rs)) \<and>
    length A' = length A \<and> length I' = length I \<and> take (start + length ls) A' = take start A @ map fst ls \<and>
    take (start + length ls) I' = take start I @ map snd ls \<and> drop (start + n) A' = drop (start + n) A \<and> drop (start + n) I' = drop (start + n) I"
  using assms(3) unfolding ls_def rs_def xs_def
proof (induction n)
  case 0
  show ?case by (simp add: range_of_def)
next
  case (Suc n)
  let ?xs = "range_of start n (zip A I)"
  let ?ls = "filter (\<lambda>x. on_left b (fst x)) ?xs" and ?rs = "filter (\<lambda>x. \<not> on_left b (fst x)) ?xs"
  obtain A' I' where IH: "foldl (partition_step b start) ((A, I), 0, ([], [])) [0..<n] = ((A', I'), length ?ls, (map fst ?rs, map snd ?rs))"
    "length A' = length A" "length I' = length I" "take (start + length ?ls) A' = take start A @ map fst ?ls"
    "take (start + length ?ls) I' = take start I @ map snd ?ls" "drop (start + n) A' = drop (start + n) A"
    "drop (start + n) I' = drop (start + n) I"
    using Suc by (metis Suc_leD)
  have nlt: "start + n < length A" "start + n < length I" using Suc.prems assms(1,2) by simp_all
  have xs: "range_of start (Suc n) (zip A I) = ?xs @ [(A ! (start + n), I ! (start + n))]"
    using nlt by (simp add: range_of_def take_Suc_conv_app_nth)
  have k: "length ?ls \<le> n"
  proof -
    have "length ?xs = n" using nlt assms(1) by (simp add: range_of_def)
    then show ?thesis using length_filter_le [of "\<lambda>x. on_left b (fst x)" ?xs] by simp
  qed
  note MA = move_left [OF IH(4) _ IH(6,2) k nlt(1), simplified] and MI = move_left [OF IH(5) _ IH(7,3) k nlt(2), simplified]
  show ?case
  proof (cases "on_left b (A ! (start + n))")
    case True
    have "(if length ?ls \<noteq> n then (A'[start + length ?ls := A' ! (start + n)], I'[start + length ?ls := I' ! (start + n)]) else (A', I'))
        = (A'[start + length ?ls := A' ! (start + n)], I'[start + length ?ls := I' ! (start + n)])" by simp
    then show ?thesis
      using True IH(1-3) MA MI unfolding xs by (simp add: partition_step_def)
  next
    case False
    then show ?thesis using IH MA(3,4) MI(3,4) unfolding xs by (simp add: partition_step_def)
  qed
qed

lemma partition_range_eq:
  fixes b :: aabb
  assumes "length I = length A" "start + len \<le> length A"
  defines "xs \<equiv> range_of start len (zip A I)"
  defines "ys \<equiv> filter (\<lambda>x. on_left b (fst x)) xs @ filter (\<lambda>x. \<not> on_left b (fst x)) xs"
  shows "partition_range b start len (A, I) = (length (filter (\<lambda>x. on_left b (fst x)) xs),
    (replaced start len (map fst ys) A, replaced start len (map snd ys) I))"
proof -
  let ?ls = "filter (\<lambda>x. on_left b (fst x)) xs" and ?rs = "filter (\<lambda>x. \<not> on_left b (fst x)) xs"
  obtain A' I' where F: "foldl (partition_step b start) ((A, I), 0, ([], [])) [0..<len] = ((A', I'), length ?ls, (map fst ?rs, map snd ?rs))"
    "length A' = length A" "length I' = length I" "take (start + length ?ls) A' = take start A @ map fst ?ls"
    "take (start + length ?ls) I' = take start I @ map snd ?ls" "drop (start + len) A' = drop (start + len) A"
    "drop (start + len) I' = drop (start + len) I"
    using partition_fold [OF assms(1,2) order_refl] unfolding xs_def by blast
  have "length xs = len" using assms(1,2) by (simp add: xs_def range_of_def)
  then have "length ?ls + length ?rs = len" by (simp add: sum_length_filter_compl)
  then have e: "start + length ?ls + length ?rs = start + len" by simp
  show ?thesis using F by (simp add: partition_range_def copy_to_def replaced_def ys_def e)
qed

fun tmap :: "nat \<Rightarrow> btree \<Rightarrow> nat list \<Rightarrow> nat list" where
  "tmap base (Lf b ps ts) m = foldl (\<lambda>m i. m[i := base]) m ps"
| "tmap base (Nd b l r) m = tmap (base + 1 + tsize l) r (tmap (base + 1) l m)"

lemma allocateNode_ok:
  assumes "on_tree (allocateNode alloc) s = (Inr i, s')"
  shows "i = length (t_nodes (b_tree s))" "t_nodes (b_tree s') = t_nodes (b_tree s) @ [AABBNode]"
    "t_mapping (b_tree s') = t_mapping (b_tree s)" "b_aabbs s' = b_aabbs s" "b_idx s' = b_idx s"
  using assms by (auto simp: on_tree_def allocateNode_def Let_def split: if_splits)

lemma obind_Inr_cases:
  assumes "obind m f = (Inr x, s')"
  obtains y s1 where "m = (Inr y, s1)" "f y s1 = (Inr x, s')"
  using assms by (cases m; cases "fst m") auto

definition built :: "nat \<Rightarrow> nat \<Rightarrow> nat \<Rightarrow> build_state \<Rightarrow> nat \<Rightarrow> build_state \<Rightarrow> bool" where
  "built start len parent s r s' \<longleftrightarrow> (let n = length (t_nodes (b_tree s)); t = build_ref (range_of start len (zip (b_aabbs s) (b_idx s))) in
     r = n \<and> t_nodes (b_tree s') = t_nodes (b_tree s) @ encode False n parent t \<and>
     t_mapping (b_tree s') = tmap n t (t_mapping (b_tree s)) \<and>
     length (b_aabbs s') = length (b_aabbs s) \<and> length (b_idx s') = length (b_idx s) \<and>
     take start (b_aabbs s') = take start (b_aabbs s) \<and> take start (b_idx s') = take start (b_idx s) \<and>
     drop (start + len) (b_aabbs s') = drop (start + len) (b_aabbs s) \<and> drop (start + len) (b_idx s') = drop (start + len) (b_idx s))"

lemma zip_range: "range_of start len (zip A I) = zip (range_of start len A) (range_of start len I)"
  by (simp add: range_of_def take_zip drop_zip)

lemma fill_leaf_built:
  assumes "on_tree (allocateNode alloc) s = (Inr i, s1)" "length (b_idx s) = length (b_aabbs s)" "start + len \<le> length (b_aabbs s)"
    "0 < len" "len \<le> NODE_CAPACITY"
  shows "built start len parent s i (fill_leaf start len (merge_range start len (b_aabbs s)) parent i s1)"
proof -
  note A = allocateNode_ok [OF assms(1)]
  let ?A = "range_of start len (b_aabbs s)" and ?I = "range_of start len (b_idx s)"
  have len: "length ?A = len" "length ?I = len" using assms(2,3) by (simp_all add: range_of_def)
  have ref: "build_ref (zip ?A ?I) = Lf (merge_all ?A) ?I (map ab_tag ?A)"
  proof -
    have "map (\<lambda>x. ab_tag (fst x)) zs = map ab_tag (map fst zs)" for zs :: "(aabb \<times> nat) list" by simp
    then show ?thesis using build_ref_leaf [of "zip ?A ?I"] len assms(5) by (simp del: map_map)
  qed
  have mp: "map (\<lambda>i. b_idx s ! (start + i)) [0..<len] = ?I" "map (\<lambda>i. ab_tag (b_aabbs s ! (start + i))) [0..<len] = map ab_tag ?A"
    using assms(2,3) by (auto simp: list_eq_iff_nth_eq range_of_props)
  have fo: "foldl (\<lambda>m j. m[b_idx s ! (start + j) := c]) m [0..<len] = foldl (\<lambda>m j. m[j := c]) m ?I" for m c
    unfolding mp(1) [symmetric] by (simp add: foldl_map)
  have "merge_range start len (b_aabbs s) = merge_all ?A" unfolding range_of_def by (rule merge_range_all [OF assms(4,3)])
  then show ?thesis
    using A unfolding built_def Let_def zip_range ref by (simp add: fill_leaf_def set_node_def mp fo AABBNode_def)
qed

lemma built_split:
  assumes n: "NODE_CAPACITY < len" and idx: "length (b_idx s) = length (b_aabbs s)" and le: "start + len \<le> length (b_aabbs s)"
    and al: "on_tree (allocateNode alloc) s = (Inr my, s1)"
    and b: "b = merge_range start len (b_aabbs s)" and part: "part = partition_range b start len (b_aabbs s, b_idx s)"
    and k: "k = start_of_right len (fst part)" and s2: "s2 = s1\<lparr>b_aabbs := fst (snd part), b_idx := snd (snd part)\<rparr>"
    and L: "built start k my s2 lft s3" and R: "built (start + k) (len - k) my s3 rgt s4"
  shows "built start len parent s my (s4\<lparr>b_tree := set_node my (\<lambda>n. n\<lparr>n_aabb := b, n_parent := parent, n_left := lft,
    n_right := rgt\<rparr>) (b_tree s4)\<rparr>)"
proof -
  define xs where "xs = range_of start len (zip (b_aabbs s) (b_idx s))"
  have lx: "length xs = len" using idx le by (simp add: xs_def range_of_def)
  have n': "\<not> length xs \<le> NODE_CAPACITY" "NODE_CAPACITY < length xs" using n lx by simp_all
  have fx: "map fst xs = range_of start len (b_aabbs s)" unfolding xs_def zip_range using idx le by (simp add: range_of_def)
  have b': "b = merge_all (map fst xs)" unfolding b fx range_of_def
    by (rule merge_range_all) (use n le in \<open>simp_all add: NODE_CAPACITY_def\<close>)
  have ol: "(\<lambda>x. on_left b (fst x)) = on_left_in xs" by (simp add: on_left_in_def b' fun_eq_iff)
  have ys: "part = (length (filter (on_left_in xs) xs), (replaced start len (map fst (partitioned xs)) (b_aabbs s),
      replaced start len (map snd (partitioned xs)) (b_idx s)))"
    unfolding part using partition_range_eq [OF idx le, of b] unfolding xs_def [symmetric] ol partitioned_def
    by (simp add: on_left_in_def [symmetric] b')
  have kk: "k = split_point xs" using k ys lx by (simp add: split_point_def)
  have kb: "0 < k" "k < len" using split_point_bounds [OF n'(2)] lx kk by simp_all
  note A = allocateNode_ok [OF al]
  have s2': "b_aabbs s2 = replaced start len (map fst (partitioned xs)) (b_aabbs s)" "b_idx s2 = replaced start len (map snd (partitioned xs)) (b_idx s)"
    "b_tree s2 = b_tree s1" using s2 ys by simp_all
  have lp: "length (partitioned xs) = len" using lx by (simp add: partitioned_props)
  have l2: "length (b_aabbs s2) = length (b_aabbs s)" "length (b_idx s2) = length (b_aabbs s)"
    using s2' lp le idx by (simp_all add: replaced_def)
  have z2: "zip (b_aabbs s2) (b_idx s2) = replaced start len (partitioned xs) (zip (b_aabbs s) (b_idx s))"
    using s2' idx le lp by (simp add: replaced_def zip_append take_zip drop_zip zip_map_fst_snd)
  have r1: "range_of start k (zip (b_aabbs s2) (b_idx s2)) = take k (partitioned xs)"
    unfolding z2 using le idx lp kb by (simp add: replaced_def range_of_def)
  define t1 where "t1 = build_ref (take k (partitioned xs))"
  have L': "lft = length (t_nodes (b_tree s)) + 1" "t_nodes (b_tree s3) = t_nodes (b_tree s) @ [AABBNode] @ encode False (length (t_nodes (b_tree s)) + 1) my t1"
    "t_mapping (b_tree s3) = tmap (length (t_nodes (b_tree s)) + 1) t1 (t_mapping (b_tree s))"
    "length (b_aabbs s3) = length (b_aabbs s)" "length (b_idx s3) = length (b_aabbs s)" "take start (b_aabbs s3) = take start (b_aabbs s)"
    "take start (b_idx s3) = take start (b_idx s)" "drop (start + k) (b_aabbs s3) = drop (start + k) (b_aabbs s2)"
    "drop (start + k) (b_idx s3) = drop (start + k) (b_idx s2)"
    using L A l2 s2' le idx unfolding built_def Let_def r1 t1_def [symmetric] by (simp_all add: replaced_def)
  have "range_of (start + k) (len - k) (zip (b_aabbs s3) (b_idx s3)) = range_of (start + k) (len - k) (zip (b_aabbs s2) (b_idx s2))"
    unfolding zip_range using L'(8,9) by (simp add: range_of_def)
  also have "\<dots> = drop k (partitioned xs)"
    unfolding z2 using le idx lp kb by (simp add: replaced_def range_of_def)
  finally have r2: "range_of (start + k) (len - k) (zip (b_aabbs s3) (b_idx s3)) = drop k (partitioned xs)" .
  define t2 where "t2 = build_ref (drop k (partitioned xs))"
  have t: "build_ref xs = Nd b t1 t2" using build_ref_node [OF n'(1)] by (simp add: t1_def t2_def kk b')
  have kl: "start + k + (len - k) = start + len" using kb by simp
  have R': "rgt = length (t_nodes (b_tree s)) + 1 + tsize t1"
    "t_nodes (b_tree s4) = t_nodes (b_tree s) @ [AABBNode] @ encode False (length (t_nodes (b_tree s)) + 1) my t1 @
      encode False (length (t_nodes (b_tree s)) + 1 + tsize t1) my t2"
    "t_mapping (b_tree s4) = tmap (length (t_nodes (b_tree s)) + 1 + tsize t1) t2 (tmap (length (t_nodes (b_tree s)) + 1) t1 (t_mapping (b_tree s)))"
    "length (b_aabbs s4) = length (b_aabbs s)" "length (b_idx s4) = length (b_aabbs s)"
    "take (start + k) (b_aabbs s4) = take (start + k) (b_aabbs s3)" "take (start + k) (b_idx s4) = take (start + k) (b_idx s3)"
    "drop (start + len) (b_aabbs s4) = drop (start + len) (b_aabbs s3)" "drop (start + len) (b_idx s4) = drop (start + len) (b_idx s3)"
    using R L' unfolding built_def Let_def r2 t2_def [symmetric] kl by simp_all
  have tk: "take start ys = take start zs" if "take (start + k) ys = take (start + k) zs" for ys zs :: "'z list"
    using arg_cong [OF that, of "take start"] by simp
  have dk: "drop (start + len) ys = drop (start + len) zs" if "drop (start + k) ys = drop (start + k) zs" for ys zs :: "'z list"
    using arg_cong [OF that, of "drop (len - k)"] kb by (simp add: add.commute)
  have ends: "take start (b_aabbs s4) = take start (b_aabbs s)" "take start (b_idx s4) = take start (b_idx s)"
    "drop (start + len) (b_aabbs s4) = drop (start + len) (b_aabbs s)" "drop (start + len) (b_idx s4) = drop (start + len) (b_idx s)"
    using tk [OF R'(6)] tk [OF R'(7)] L'(6,7) R'(8,9) dk [OF L'(8)] dk [OF L'(9)] s2' le idx lp by (simp_all add: replaced_def)
  show ?thesis
    unfolding built_def Let_def xs_def [symmetric] t
    using A(1) R' L'(1) ends idx by (simp add: set_node_def AABBNode_def)
qed

lemma buildNode_leaf:
  "len \<le> NODE_CAPACITY \<Longrightarrow> buildNode alloc start len parent s = obind (on_tree (allocateNode alloc) s)
    (\<lambda>new_node s1. (Inr new_node, fill_leaf start len (merge_range start len (b_aabbs s)) parent new_node s1))"
  by (subst buildNode.simps) (simp add: Let_def)

lemma buildNode_node:
  assumes "\<not> len \<le> NODE_CAPACITY" "b = merge_range start len (b_aabbs s)" "part = partition_range b start len (b_aabbs s, b_idx s)"
    "k = start_of_right len (fst part)"
  shows "buildNode alloc start len parent s = obind (on_tree (allocateNode alloc) s) (\<lambda>my_idx s.
    obind (buildNode alloc start k my_idx (s\<lparr>b_aabbs := fst (snd part), b_idx := snd (snd part)\<rparr>)) (\<lambda>new_left s.
      obind (buildNode alloc (start + k) (len - k) my_idx s) (\<lambda>new_right s.
        (Inr my_idx, s\<lparr>b_tree := set_node my_idx (\<lambda>n. n\<lparr>n_aabb := b, n_parent := parent, n_left := new_left,
          n_right := new_right\<rparr>) (b_tree s)\<rparr>))))"
proof -
  have "len \<noteq> 2" using assms(1) by (simp add: NODE_CAPACITY_def)
  then show ?thesis unfolding assms(2-4) using assms(1) by (subst buildNode.simps) (simp add: Let_def)
qed

lemma buildNode_built:
  assumes "buildNode alloc start len parent s = (Inr r, s')" "0 < len" "length (b_idx s) = length (b_aabbs s)"
    "start + len \<le> length (b_aabbs s)"
  shows "built start len parent s r s'"
  using assms
proof (induction len arbitrary: start parent s r s' rule: less_induct)
  case (less len)
  define b where "b = merge_range start len (b_aabbs s)"
  show ?case
  proof (cases "len \<le> NODE_CAPACITY")
    case True
    then have "obind (on_tree (allocateNode alloc) s) (\<lambda>new_node s1. (Inr new_node, fill_leaf start len b parent new_node s1)) = (Inr r, s')"
      using less.prems(1) by (simp add: buildNode_leaf b_def)
    then obtain s1 where "on_tree (allocateNode alloc) s = (Inr r, s1)" "s' = fill_leaf start len b parent r s1"
      by (elim obind_Inr_cases) simp
    then show ?thesis using fill_leaf_built less.prems(2-4) True unfolding b_def by blast
  next
    case False
    define part where "part = partition_range b start len (b_aabbs s, b_idx s)"
    define k where "k = start_of_right len (fst part)"
    have "fst part \<le> len" by (simp add: part_def partition_range_bound)
    then have kb: "0 < k" "k < len" using start_of_right_bounds [of len "fst part"] False by (simp_all add: k_def NODE_CAPACITY_def)
    obtain s1 where al: "on_tree (allocateNode alloc) s = (Inr r, s1)"
      and st: "obind (buildNode alloc start k r (s1\<lparr>b_aabbs := fst (snd part), b_idx := snd (snd part)\<rparr>)) (\<lambda>new_left s.
           obind (buildNode alloc (start + k) (len - k) r s) (\<lambda>new_right s.
             (Inr r, s\<lparr>b_tree := set_node r (\<lambda>n. n\<lparr>n_aabb := b, n_parent := parent, n_left := new_left,
                n_right := new_right\<rparr>) (b_tree s)\<rparr>))) = (Inr r, s')"
    proof (rule obind_Inr_cases [OF less.prems(1) [unfolded buildNode_node [OF False b_def part_def k_def]]])
      fix y s1
      assume al: "on_tree (allocateNode alloc) s = (Inr y, s1)"
        and st: "obind (buildNode alloc start k y (s1\<lparr>b_aabbs := fst (snd part), b_idx := snd (snd part)\<rparr>)) (\<lambda>new_left s.
           obind (buildNode alloc (start + k) (len - k) y s) (\<lambda>new_right s.
             (Inr y, s\<lparr>b_tree := set_node y (\<lambda>n. n\<lparr>n_aabb := b, n_parent := parent, n_left := new_left,
                n_right := new_right\<rparr>) (b_tree s)\<rparr>))) = (Inr r, s')"
      have "y = r" using st by (elim obind_Inr_cases) simp
      then show thesis using that al st by simp
    qed
    define s2 where "s2 = s1\<lparr>b_aabbs := fst (snd part), b_idx := snd (snd part)\<rparr>"
    obtain lft s3 rgt s4 where B: "buildNode alloc start k r s2 = (Inr lft, s3)"
      "buildNode alloc (start + k) (len - k) r s3 = (Inr rgt, s4)"
      "s' = s4\<lparr>b_tree := set_node r (\<lambda>n. n\<lparr>n_aabb := b, n_parent := parent, n_left := lft, n_right := rgt\<rparr>) (b_tree s4)\<rparr>"
      using st [folded s2_def] by (elim obind_Inr_cases) simp
    have pr: "partition_range b start len (b_aabbs s, b_idx s) = part" by (simp add: part_def)
    have len2: "length (b_aabbs s2) = length (b_aabbs s)" "length (b_idx s2) = length (b_aabbs s)"
    proof -
      note P = partition_range_eq [OF less.prems(3,4), of b, unfolded pr]
      have "length (range_of start len (zip (b_aabbs s) (b_idx s))) = len" using less.prems(3,4) by (simp add: range_of_def)
      then have "length (filter (\<lambda>x. on_left b (fst x)) (range_of start len (zip (b_aabbs s) (b_idx s)))) +
          length (filter (\<lambda>x. \<not> on_left b (fst x)) (range_of start len (zip (b_aabbs s) (b_idx s)))) = len"
        by (simp add: sum_length_filter_compl)
      then show "length (b_aabbs s2) = length (b_aabbs s)" "length (b_idx s2) = length (b_aabbs s)"
        using less.prems(3,4) by (simp_all add: s2_def P replaced_def add.assoc [symmetric])
    qed
    have L: "built start k r s2 lft s3" using less.IH [OF kb(2) B(1) kb(1)] len2 less.prems(4) kb by simp
    then have "length (b_aabbs s3) = length (b_aabbs s)" "length (b_idx s3) = length (b_aabbs s)" using len2 by (simp_all add: built_def Let_def)
    then have R: "built (start + k) (len - k) r s3 rgt s4" using less.IH [OF _ B(2)] less.prems(4) kb by simp
    show ?thesis
      unfolding B(3) by (rule built_split [OF _ less.prems(3,4) al b_def part_def k_def s2_def L R]) (use False in simp)
  qed
qed

section \<open>The skip fields\<close>

lemma updateSkip_tree:
  assumes "length pre + tsize t \<le> INVALID_NODE"
  shows "updateSkip (length pre) (pre @ encode False (length pre) p t @ post)
    = Some (tsize t, pre @ encode True (length pre) p t @ post)"
  using assms
proof (induction t arbitrary: pre p post)
  case (Lf b ps ts)
  then show ?case by (subst updateSkip.simps) (simp add: isNodeLeaf_def nth_append)
next
  case (Nd b l r)
  define base where "base = length pre"
  define node where "node = (\<lambda>k. \<lparr>n_aabb = b, n_left = base + 1, n_right = base + 1 + tsize l, n_parent = p,
     n_skip = k, n_particles = [], n_tags = []\<rparr>)"
  define nodes where "nodes = (\<lambda>x y k. pre @ node k # encode x (base + 1) base l @ encode y (base + 1 + tsize l) base r @ post)"
  have start: "pre @ encode False base p (Nd b l r) @ post = nodes False False 0" by (simp add: nodes_def node_def)
  have at: "nodes x y k ! base = node k" for x y k by (simp add: nodes_def base_def)
  have inner: "n_left (node 0) \<noteq> INVALID_NODE" using Nd.prems tsize_pos [of l] by (simp add: node_def base_def del: tsize_pos)
  have l: "updateSkip (base + 1) (nodes False False 0) = Some (tsize l, nodes True False 0)"
    using Nd.IH(1) [of "pre @ [node 0]" base "encode False (base + 1 + tsize l) base r @ post"] Nd.prems by (simp add: nodes_def base_def)
  have r: "updateSkip (base + 1 + tsize l) (nodes True False 0) = Some (tsize r, nodes True True 0)"
    using Nd.IH(2) [of "pre @ node 0 # encode True (base + 1) base l" base post] Nd.prems by (simp add: nodes_def base_def)
  have "updateSkip base (nodes False False 0) = Some (tsize l + tsize r + 1, nodes True True (tsize l + tsize r))"
    using inner l r by (subst updateSkip.simps) (simp add: isNodeLeaf_def at, simp add: node_def nodes_def base_def)
  then show ?case unfolding base_def [symmetric] start by (simp add: nodes_def node_def base_def)
qed

lemma length_tmap [simp]: "length (tmap base t m) = length m"
proof -
  have "length (foldl (\<lambda>m i. m[i := c]) m ps) = length m" for m ps and c :: nat by (induction ps arbitrary: m) auto
  then show ?thesis by (induction t arbitrary: base m) auto
qed

lemma tmap_other: "i \<notin> set (tparticles t) \<Longrightarrow> tmap base t m ! i = m ! i"
proof (induction t arbitrary: base m)
  case (Lf b ps ts)
  have "i \<notin> set ps \<Longrightarrow> foldl (\<lambda>m i. m[i := base]) m ps ! i = m ! i" by (induction ps arbitrary: m) auto
  then show ?case using Lf by simp
qed auto

lemma tmap_leafpos:
  assumes "distinct (tparticles t)" "i \<in> set (tparticles t)" "\<forall>i\<in>set (tparticles t). i < length m"
  shows "tmap base t m ! i = leafpos base i t"
  using assms
proof (induction t arbitrary: base m)
  case (Lf b ps ts)
  have "i \<in> set ps \<Longrightarrow> \<forall>i\<in>set ps. i < length m \<Longrightarrow> foldl (\<lambda>m i. m[i := base]) m ps ! i = base" for m
  proof (induction ps rule: rev_induct)
    case (snoc p ps)
    have "length (foldl (\<lambda>m i. m[i := base]) m ps) = length m" by (induction ps arbitrary: m) auto
    then show ?case using snoc by (auto simp: nth_list_update)
  qed simp
  then show ?case using Lf by simp
next
  case (Nd b l r)
  show ?case
  proof (cases "i \<in> set (tparticles l)")
    case True
    then have "i \<notin> set (tparticles r)" using Nd.prems(1) by auto
    then show ?thesis using Nd.IH(1) [of m "base + 1"] Nd.prems True by (simp add: tmap_other)
  next
    case False
    then show ?thesis using Nd.IH(2) [of "tmap (base + 1) l m"] Nd.prems by simp
  qed
qed

section \<open>Invariant\<close>

text \<open>The array of a tree that covers the boxes of the particles \<open>0, \<dots>, N - 1\<close>, each in one leaf, which the mapping finds.\<close>

definition tree_inv :: "nat \<Rightarrow> (nat \<Rightarrow> aabb) \<Rightarrow> aabb_tree \<Rightarrow> bool" where
  "tree_inv N boxes tr \<longleftrightarrow> (\<exists>t. t_nodes tr = encode True 0 INVALID_NODE t \<and> tsize t \<le> INVALID_NODE \<and>
     distinct (tparticles t) \<and> set (tparticles t) = {..<N} \<and> covers boxes t \<and>
     (\<forall>i<N. t_mapping tr ! i = leafpos 0 i t))"

lemma tree_inv_cong:
  assumes "tree_inv N b1 tr" "\<And>k. k < N \<Longrightarrow> b1 k = b2 k"
  shows "tree_inv N b2 tr"
proof -
  have "covers b2 t" if "covers b1 t" "set (tparticles t) = {..<N}" for t
    using that covers_cong [of t b1 b2] assms(2) by auto
  then show ?thesis using assms(1) unfolding tree_inv_def by blast
qed

lemma buildTree_inv:
  assumes "aabbs \<noteq> []" "2 * length aabbs \<le> INVALID_NODE" "buildTree alloc aabbs tr = Some (Inr (), tr')"
  shows "tree_inv (length aabbs) (\<lambda>i. aabbs ! i) tr'" "length (t_nodes tr') \<le> 2 * length aabbs - 1"
proof -
  let ?N = "length aabbs"
  let ?s = "\<lparr>b_aabbs = aabbs, b_idx = [0..<?N], b_tree = tree_init ?N tr\<rparr>"
  obtain r s where s: "buildNode alloc 0 ?N INVALID_NODE ?s = (Inr r, s)"
    using assms(3) by (cases "buildNode alloc 0 ?N INVALID_NODE ?s"; cases "fst (buildNode alloc 0 ?N INVALID_NODE ?s)")
      (auto simp: buildTree_def Let_def)
  have "built 0 ?N INVALID_NODE ?s r s" by (rule buildNode_built [OF s]) (use assms(1) in auto)
  moreover define xs where "xs = zip aabbs [0..<?N]"
  moreover define t where "t = build_ref xs"
  ultimately have B: "r = 0" "t_nodes (b_tree s) = encode False 0 INVALID_NODE t" "t_mapping (b_tree s) = tmap 0 t (replicate ?N INVALID_NODE)"
    by (simp_all add: built_def Let_def range_of_def tree_init_def)
  have xs: "xs \<noteq> []" "length xs = ?N" "map snd xs = [0..<?N]" using assms(1) by (simp_all add: xs_def)
  have size: "tsize t \<le> 2 * ?N - 1" using build_ref_size [OF xs(1)] xs(2) by (simp add: t_def)
  have sk: "updateSkip 0 (encode False 0 INVALID_NODE t) = Some (tsize t, encode True 0 INVALID_NODE t)"
    using updateSkip_tree [of "[]" t INVALID_NODE "[]"] size assms(2) by simp
  have tr': "t_nodes tr' = encode True 0 INVALID_NODE t" "t_mapping tr' = tmap 0 t (replicate ?N INVALID_NODE)"
    using assms(3) B sk by (auto simp: buildTree_def Let_def s)
  have ms: "mset (tparticles t) = mset [0..<?N]" using build_ref_particles [OF xs(1)] xs(3) by (simp add: t_def)
  then have p: "distinct (tparticles t)" "set (tparticles t) = {..<?N}"
    by (metis distinct_upt mset_eq_imp_distinct_iff, metis atLeast_upt set_mset_mset)
  have "\<forall>x\<in>set xs. aabbs ! snd x = fst x" by (auto simp: xs_def in_set_zip)
  then have c: "covers (\<lambda>i. aabbs ! i) t" using build_ref_covers [OF xs(1)] by (simp add: t_def)
  have "\<forall>i<?N. tmap 0 t (replicate ?N INVALID_NODE) ! i = leafpos 0 i t" using tmap_leafpos p by simp
  then show "tree_inv ?N (\<lambda>i. aabbs ! i) tr'" unfolding tree_inv_def using tr' p c size assms(2) by (intro exI [of _ t]) simp
  show "length (t_nodes tr') \<le> 2 * ?N - 1" using tr' size by simp
qed

lemma tree_update_inv:
  assumes "tree_inv N boxes tr" "i < N"
  shows "\<exists>tr'. tree_update i a tr = Some tr' \<and> tree_inv N (boxes(i := a)) tr' \<and> length (t_nodes tr') = length (t_nodes tr)"
proof -
  obtain t where t: "t_nodes tr = encode True 0 INVALID_NODE t" "tsize t \<le> INVALID_NODE" "distinct (tparticles t)"
    "set (tparticles t) = {..<N}" "covers boxes t" "\<forall>i<N. t_mapping tr ! i = leafpos 0 i t"
    using assms(1) by (auto simp: tree_inv_def)
  define j where "j = leafpos 0 i t"
  have j: "t_mapping tr ! i = j" using t(6) assms(2) by (simp add: j_def)
  have i: "i \<in> set (tparticles t)" using t(4) assms(2) by simp
  show ?thesis
  proof (cases "box_contains (n_aabb (t_nodes tr ! j)) a")
    case True
    have "covers (boxes(i := a)) t"
      by (rule covers_contained [of boxes t "t_nodes tr" "[]" INVALID_NODE "[]"]) (use t True in \<open>simp_all add: j_def\<close>)
    then have "tree_inv N (boxes(i := a)) tr" unfolding tree_inv_def using t by (intro exI [of _ t]) (simp del: fun_upd_apply)
    then show ?thesis using True j by (simp add: tree_update_def Let_def)
  next
    case False
    have "update_parents (n_parent (t_nodes tr ! j)) ((t_nodes tr)[j := (t_nodes tr ! j)\<lparr>n_aabb := merge_boxes (n_aabb (t_nodes tr ! j)) a\<rparr>])
        = update_parents INVALID_NODE (encode True 0 INVALID_NODE (tupdate i a t))"
      using update_climb [of "t_nodes tr" "[]" INVALID_NODE t "[]" i a] t(1,2) i by (simp add: j_def)
    also have "\<dots> = Some (encode True 0 INVALID_NODE (tupdate i a t))" by (subst update_parents.simps) simp
    finally have "tree_update i a tr = Some (tr\<lparr>t_nodes := encode True 0 INVALID_NODE (tupdate i a t)\<rparr>)"
      using False j by (simp add: tree_update_def Let_def)
    moreover have "tree_inv N (boxes(i := a)) (tr\<lparr>t_nodes := encode True 0 INVALID_NODE (tupdate i a t)\<rparr>)"
      unfolding tree_inv_def using t tupdate_covers [OF t(5,3) i]
      by (intro exI [of _ "tupdate i a t"]) (simp del: fun_upd_apply)
    ultimately show ?thesis using t(1) by simp
  qed
qed

lemma query_inv:
  assumes "tree_inv N boxes tr"
  shows "distinct (fst (query tr [] q))" "set (fst (query tr [] q)) \<subseteq> {..<N}" "snd (query tr [] q) \<le> length (t_nodes tr)"
    "i < N \<Longrightarrow> overlaps q (boxes i) \<Longrightarrow> i \<in> set (fst (query tr [] q))"
proof -
  obtain t where t: "t_nodes tr = encode True 0 INVALID_NODE t" "tsize t \<le> INVALID_NODE" "distinct (tparticles t)"
    "set (tparticles t) = {..<N}" "covers boxes t"
    using assms by (auto simp: tree_inv_def)
  have q: "query tr [] q = (tquery q t, tvisits q t)" using query_tree [OF t(1,2), of "[]" q] by simp
  show "distinct (fst (query tr [] q))" using q tquery_distinct [OF t(3)] by simp
  show "set (fst (query tr [] q)) \<subseteq> {..<N}" using q tquery_sub [of q t] t(4) by simp
  show "snd (query tr [] q) \<le> length (t_nodes tr)" using q tvisits_bound t(1) by simp
  show "i < N \<Longrightarrow> overlaps q (boxes i) \<Longrightarrow> i \<in> set (fst (query tr [] q))" using q tquery_finds [OF t(5)] t(4) by simp
qed

section \<open>Properties\<close>

fun tree_updates :: "(nat \<times> aabb) list \<Rightarrow> aabb_tree \<Rightarrow> aabb_tree option" where
  "tree_updates [] tr = Some tr"
| "tree_updates ((i, a) # us) tr = Option.bind (tree_update i a tr) (tree_updates us)"

text \<open>The boxes after the updates.\<close>

definition moved_boxes :: "aabb list \<Rightarrow> (nat \<times> aabb) list \<Rightarrow> aabb list" where
  "moved_boxes aabbs us = foldl (\<lambda>bs (i, a). bs[i := a]) aabbs us"

lemma tree_updates_inv:
  assumes "tree_inv (length bs) (\<lambda>i. bs ! i) tr" "\<forall>(i, a)\<in>set us. i < length bs"
  shows "\<exists>tr'. tree_updates us tr = Some tr' \<and> tree_inv (length bs) (\<lambda>i. moved_boxes bs us ! i) tr' \<and> length (t_nodes tr') = length (t_nodes tr)"
  using assms
proof (induction us arbitrary: bs tr)
  case Nil
  then show ?case by (simp add: moved_boxes_def)
next
  case (Cons u us)
  obtain i a where u: "u = (i, a)" by fastforce
  then have i: "i < length bs" using Cons.prems(2) by simp
  obtain tr1 where tr1: "tree_update i a tr = Some tr1" "tree_inv (length bs) ((\<lambda>i. bs ! i)(i := a)) tr1" "length (t_nodes tr1) = length (t_nodes tr)"
    using tree_update_inv [OF Cons.prems(1) i] by blast
  have "tree_inv (length (bs[i := a])) (\<lambda>k. bs[i := a] ! k) tr1"
    using tree_inv_cong [OF tr1(2), of "\<lambda>k. bs[i := a] ! k"] i by (simp add: nth_list_update)
  from Cons.IH [OF this] Cons.prems(2) tr1 show ?case by (simp add: u moved_boxes_def)
qed

text \<open>C32: A tree built from the boxes of \<open>N\<close> particles has at most \<open>2 N - 1\<close> nodes.  After any sequence of updates, none of
  which fails to return, a query reports every particle whose current box overlaps the query box, no particle twice, and
  tests every node at most once.\<close>

theorem query_finds_overlaps:
  assumes "buildTree alloc aabbs tr0 = Some (Inr (), tr)" "aabbs \<noteq> []" "2 * length aabbs \<le> INVALID_NODE"
    "\<forall>(i, a)\<in>set us. i < length aabbs"
  shows "length (t_nodes tr) \<le> 2 * length aabbs - 1 \<and> (\<exists>tr'. tree_updates us tr = Some tr' \<and>
    distinct (fst (query tr' [] q)) \<and> snd (query tr' [] q) \<le> length (t_nodes tr) \<and>
    {i. i < length aabbs \<and> overlaps q (moved_boxes aabbs us ! i)} \<subseteq> set (fst (query tr' [] q)) \<and>
    set (fst (query tr' [] q)) \<subseteq> {..<length aabbs})"
proof -
  note B = buildTree_inv [OF assms(2,3,1)]
  obtain tr' where tr': "tree_updates us tr = Some tr'" "tree_inv (length aabbs) (\<lambda>i. moved_boxes aabbs us ! i) tr'"
    "length (t_nodes tr') = length (t_nodes tr)"
    using tree_updates_inv [OF B(1) assms(4)] by blast
  note Q = query_inv [OF tr'(2), where q = q]
  show ?thesis
  proof (intro conjI exI [of _ tr'])
    show "{i. i < length aabbs \<and> overlaps q (moved_boxes aabbs us ! i)} \<subseteq> set (fst (query tr' [] q))" using Q(4) by blast
  qed (use B(2) tr'(1,3) Q(1-3) in simp_all)
qed

definition two_boxes :: "aabb list" where
  "two_boxes = [AABB_sphere (Vec3 0 0 0) 1, AABB_sphere (Vec3 5 0 0) 1]"

lemma two_boxes_built: "\<exists>tr. buildTree (\<lambda>_. True) two_boxes AABBTree = Some (Inr (), tr)"
proof -
  let ?s = "\<lparr>b_aabbs = two_boxes, b_idx = [0..<2], b_tree = tree_init 2 AABBTree\<rparr>"
  obtain s where s: "buildNode (\<lambda>_. True) 0 2 INVALID_NODE ?s = (Inr 0, s)"
    by (simp add: buildNode_leaf NODE_CAPACITY_def on_tree_def allocateNode_def tree_init_def AABBTree_def Let_def)
  have "isNodeLeaf 0 (t_nodes (b_tree s))"
    using buildNode_built [OF s] by (simp add: built_def Let_def two_boxes_def tree_init_def range_of_def build_ref_leaf
        NODE_CAPACITY_def isNodeLeaf_def)
  then show ?thesis
    using s by (subst buildTree_def) (simp add: two_boxes_def Let_def numeral_2_eq_2 [symmetric] updateSkip.simps [of 0])
qed

theorem query_finds_overlaps_witness:
  "\<exists>tr tr'. buildTree (\<lambda>_. True) two_boxes AABBTree = Some (Inr (), tr) \<and>
    tree_updates [(1, AABB_sphere (Vec3 6 0 0) 1)] tr = Some tr' \<and>
    1 \<in> set (fst (query tr' [] (AABB_point (Vec3 (13 / 2) 0 0) 0)))"
proof -
  obtain tr where tr: "buildTree (\<lambda>_. True) two_boxes AABBTree = Some (Inr (), tr)" using two_boxes_built by blast
  let ?us = "[(1 :: nat, AABB_sphere (Vec3 6 0 0) 1)]" and ?q = "AABB_point (Vec3 (13 / 2) 0 0) 0"
  have h: "two_boxes \<noteq> []" "2 * length two_boxes \<le> INVALID_NODE" "\<forall>(i, a)\<in>set ?us. i < length two_boxes"
    by (simp_all add: two_boxes_def INVALID_NODE_def)
  obtain tr' where "tree_updates ?us tr = Some tr'"
    "{i. i < length two_boxes \<and> overlaps ?q (moved_boxes two_boxes ?us ! i)} \<subseteq> set (fst (query tr' [] ?q))"
    using query_finds_overlaps [OF tr h, of ?q] by blast
  moreover have "1 \<in> {i. i < length two_boxes \<and> overlaps ?q (moved_boxes two_boxes ?us ! i)}"
    by (simp add: two_boxes_def moved_boxes_def overlaps_def AABB_point_def AABB_sphere_def)
  ultimately show ?thesis using tr by blast
qed

end
