(* ===== verification/Variant.thy ===== *)
theory Variant
  imports Complex_Main HOOMD_Prelude Trigger "HOL-Library.Word"
begin

text \<open>
  Model of \<open>hoomd/Variant.h\<close>: quantities that depend on the time step.  Time steps are 64-bit words, values are exact
  reals; \<open>pow\<close> is real exponentiation of a base that is not negative.
\<close>

section \<open>Model\<close>

record variant_ramp =
  vr_A :: real
  vr_B :: real
  vr_t_start :: timestep
  vr_t_ramp :: timestep

record variant_cycle =
  vc_A :: real
  vc_B :: real
  vc_t_start :: timestep
  vc_t_A :: timestep
  vc_t_AB :: timestep
  vc_t_B :: timestep
  vc_t_BA :: timestep

record variant_power =
  vp_A :: real
  vp_B :: real
  vp_power :: real
  vp_t_start :: timestep
  vp_t_ramp :: timestep
  vp_offset :: real
  vp_inv_start :: real
  vp_inv_end :: real

text \<open>The check that a length is represented exactly by a double.\<close>

definition exact_length :: "string \<Rightarrow> timestep \<Rightarrow> exn + timestep" where
  "exact_length name t = (if t \<ge> 9007199254740992 then Inl (Invalid_argument (name @ '' must be less than 2**53'')) else Inr t)"

definition lerp :: "real \<Rightarrow> real \<Rightarrow> timestep \<Rightarrow> timestep \<Rightarrow> real" where
  "lerp a b v len = (let s = real (unat v) / real (unat len) in b * s + a * (1 - s))"

subsection \<open>Ramps\<close>

definition ramp_setA :: "real \<Rightarrow> variant_ramp \<Rightarrow> variant_ramp" where
  "ramp_setA A v = v\<lparr>vr_A := A\<rparr>"

definition ramp_setB :: "real \<Rightarrow> variant_ramp \<Rightarrow> variant_ramp" where
  "ramp_setB B v = v\<lparr>vr_B := B\<rparr>"

definition ramp_setTStart :: "timestep \<Rightarrow> variant_ramp \<Rightarrow> variant_ramp" where
  "ramp_setTStart t v = v\<lparr>vr_t_start := t\<rparr>"

definition ramp_setTRamp :: "timestep \<Rightarrow> variant_ramp \<Rightarrow> (unit, variant_ramp) outcome" where
  "ramp_setTRamp t v = (case exact_length ''t_ramp'' t of Inl e \<Rightarrow> (Inl e, v) | Inr t \<Rightarrow> (Inr (), v\<lparr>vr_t_ramp := t\<rparr>))"

definition VariantRamp :: "real \<Rightarrow> real \<Rightarrow> timestep \<Rightarrow> timestep \<Rightarrow> exn + variant_ramp" where
  "VariantRamp A B t_start t_ramp = (case ramp_setTRamp t_ramp \<lparr>vr_A = A, vr_B = B, vr_t_start = t_start, vr_t_ramp = 0\<rparr> of
     (Inl e, _) \<Rightarrow> Inl e | (Inr _, v) \<Rightarrow> Inr v)"

definition ramp_call :: "variant_ramp \<Rightarrow> timestep \<Rightarrow> real" where
  "ramp_call v t = (if t < vr_t_start v then vr_A v
     else if t < vr_t_start v + vr_t_ramp v then lerp (vr_A v) (vr_B v) (t - vr_t_start v) (vr_t_ramp v)
     else vr_B v)"

subsection \<open>Cycles\<close>

definition cycle_setA :: "real \<Rightarrow> variant_cycle \<Rightarrow> variant_cycle" where
  "cycle_setA A v = v\<lparr>vc_A := A\<rparr>"

definition cycle_setB :: "real \<Rightarrow> variant_cycle \<Rightarrow> variant_cycle" where
  "cycle_setB B v = v\<lparr>vc_B := B\<rparr>"

definition cycle_setTStart :: "timestep \<Rightarrow> variant_cycle \<Rightarrow> variant_cycle" where
  "cycle_setTStart t v = v\<lparr>vc_t_start := t\<rparr>"

definition cycle_setTA :: "timestep \<Rightarrow> variant_cycle \<Rightarrow> variant_cycle" where
  "cycle_setTA t v = v\<lparr>vc_t_A := t\<rparr>"

definition cycle_setTB :: "timestep \<Rightarrow> variant_cycle \<Rightarrow> variant_cycle" where
  "cycle_setTB t v = v\<lparr>vc_t_B := t\<rparr>"

definition cycle_setTAB :: "timestep \<Rightarrow> variant_cycle \<Rightarrow> (unit, variant_cycle) outcome" where
  "cycle_setTAB t v = (case exact_length ''t_AB'' t of Inl e \<Rightarrow> (Inl e, v) | Inr t \<Rightarrow> (Inr (), v\<lparr>vc_t_AB := t\<rparr>))"

definition cycle_setTBA :: "timestep \<Rightarrow> variant_cycle \<Rightarrow> (unit, variant_cycle) outcome" where
  "cycle_setTBA t v = (case exact_length ''t_BA'' t of Inl e \<Rightarrow> (Inl e, v) | Inr t \<Rightarrow> (Inr (), v\<lparr>vc_t_BA := t\<rparr>))"

definition VariantCycle :: "real \<Rightarrow> real \<Rightarrow> timestep \<Rightarrow> timestep \<Rightarrow> timestep \<Rightarrow> timestep \<Rightarrow> timestep \<Rightarrow> exn + variant_cycle" where
  "VariantCycle A B t_start t_A t_AB t_B t_BA = (case obind (cycle_setTAB t_AB
       \<lparr>vc_A = A, vc_B = B, vc_t_start = t_start, vc_t_A = t_A, vc_t_AB = 0, vc_t_B = t_B, vc_t_BA = 0\<rparr>)
       (\<lambda>_. cycle_setTBA t_BA) of
     (Inl e, _) \<Rightarrow> Inl e | (Inr _, v) \<Rightarrow> Inr v)"

definition cycle_period :: "variant_cycle \<Rightarrow> timestep" where
  "cycle_period v = vc_t_A v + vc_t_AB v + vc_t_B v + vc_t_BA v"

definition cycle_value :: "variant_cycle \<Rightarrow> timestep \<Rightarrow> real" where
  "cycle_value v delta = (if delta < vc_t_A v then vc_A v
     else if delta < vc_t_A v + vc_t_AB v then lerp (vc_A v) (vc_B v) (delta - vc_t_A v) (vc_t_AB v)
     else if delta < vc_t_A v + vc_t_AB v + vc_t_B v then vc_B v
     else lerp (vc_B v) (vc_A v) (delta - (vc_t_A v + vc_t_AB v + vc_t_B v)) (vc_t_BA v))"

text \<open>The result is \<open>None\<close> where the code divides by a period of zero.\<close>

definition cycle_call :: "variant_cycle \<Rightarrow> timestep \<Rightarrow> real option" where
  "cycle_call v t = (if t < vc_t_start v then Some (vc_A v)
     else let delta = t - vc_t_start v; period = cycle_period v in
       if period = 0 then None else Some (cycle_value v (delta - delta div period * period)))"

subsection \<open>Powers\<close>

definition computeOffset :: "real \<Rightarrow> real \<Rightarrow> real" where
  "computeOffset a b = (if a > 0 \<and> b > 0 then 0 else if a > b then - b else - a)"

definition setStartEnd :: "variant_power \<Rightarrow> variant_power" where
  "setStartEnd v = v\<lparr>vp_inv_start := (vp_A v + vp_offset v) powr (1 / vp_power v),
     vp_inv_end := (vp_B v + vp_offset v) powr (1 / vp_power v)\<rparr>"

definition setInternals :: "variant_power \<Rightarrow> variant_power" where
  "setInternals v = (let new_offset = computeOffset (vp_A v) (vp_B v) in
     if new_offset \<noteq> vp_offset v then setStartEnd (v\<lparr>vp_offset := new_offset\<rparr>) else v)"

definition VariantPower :: "real \<Rightarrow> real \<Rightarrow> real \<Rightarrow> timestep \<Rightarrow> timestep \<Rightarrow> variant_power" where
  "VariantPower A B p t_start t_ramp = setStartEnd \<lparr>vp_A = A, vp_B = B, vp_power = p, vp_t_start = t_start,
     vp_t_ramp = t_ramp, vp_offset = computeOffset A B, vp_inv_start = 0, vp_inv_end = 0\<rparr>"

definition power_setA :: "real \<Rightarrow> variant_power \<Rightarrow> variant_power" where
  "power_setA A v = setInternals (v\<lparr>vp_A := A\<rparr>)"

definition power_setB :: "real \<Rightarrow> variant_power \<Rightarrow> variant_power" where
  "power_setB B v = setInternals (v\<lparr>vp_B := B\<rparr>)"

definition setPower :: "real \<Rightarrow> variant_power \<Rightarrow> variant_power" where
  "setPower p v = setStartEnd (v\<lparr>vp_power := p\<rparr>)"

definition power_setTStart :: "timestep \<Rightarrow> variant_power \<Rightarrow> variant_power" where
  "power_setTStart t v = v\<lparr>vp_t_start := t\<rparr>"

definition power_setTRamp :: "timestep \<Rightarrow> variant_power \<Rightarrow> (unit, variant_power) outcome" where
  "power_setTRamp t v = (case exact_length ''t_ramp'' t of Inl e \<Rightarrow> (Inl e, v) | Inr t \<Rightarrow> (Inr (), v\<lparr>vp_t_ramp := t\<rparr>))"

definition power_call :: "variant_power \<Rightarrow> timestep \<Rightarrow> real" where
  "power_call v t = (if t \<le> vp_t_start v then vp_A v
     else if t < vp_t_start v + vp_t_ramp v
       then lerp (vp_inv_start v) (vp_inv_end v) (t - vp_t_start v) (vp_t_ramp v) powr vp_power v - vp_offset v
     else vp_B v)"

subsection \<open>The classes together\<close>

datatype variant = Constant real | Ramp variant_ramp | Cycle variant_cycle | Power variant_power

fun variant_call :: "variant \<Rightarrow> timestep \<Rightarrow> real option" where
  "variant_call (Constant c) t = Some c"
| "variant_call (Ramp v) t = Some (ramp_call v t)"
| "variant_call (Cycle v) t = cycle_call v t"
| "variant_call (Power v) t = Some (power_call v t)"

fun variant_min :: "variant \<Rightarrow> real" where
  "variant_min (Constant c) = c"
| "variant_min (Ramp v) = (if vr_A v > vr_B v then vr_B v else vr_A v)"
| "variant_min (Cycle v) = (if vc_A v > vc_B v then vc_B v else vc_A v)"
| "variant_min (Power v) = (if vp_A v > vp_B v then vp_B v else vp_A v)"

fun variant_max :: "variant \<Rightarrow> real" where
  "variant_max (Constant c) = c"
| "variant_max (Ramp v) = (if vr_A v > vr_B v then vr_A v else vr_B v)"
| "variant_max (Cycle v) = (if vc_A v > vc_B v then vc_A v else vc_B v)"
| "variant_max (Power v) = (if vp_A v > vp_B v then vp_A v else vp_B v)"

definition variant_range :: "variant \<Rightarrow> real \<times> real" where
  "variant_range v = (variant_min v, variant_max v)"

section \<open>Values stay in the range\<close>

text \<open>A power variant with a positive exponent whose cached end points belong to its current values.  For other exponents the
  code computes with infinite powers, which are outside the model.\<close>

definition power_current :: "variant_power \<Rightarrow> bool" where
  "power_current v \<longleftrightarrow> 0 < vp_power v \<and> vp_inv_start v = (vp_A v + vp_offset v) powr (1 / vp_power v) \<and>
     vp_inv_end v = (vp_B v + vp_offset v) powr (1 / vp_power v)"

fun variant_current :: "variant \<Rightarrow> bool" where
  "variant_current (Power v) = power_current v"
| "variant_current _ = True"

text \<open>The variants obtained from the constructors by setters that return.\<close>

inductive variant_reach :: "variant \<Rightarrow> bool" where
  const: "variant_reach (Constant c)"
| ramp: "VariantRamp A B t0 tr = Inr v \<Longrightarrow> variant_reach (Ramp v)"
| ramp_values: "variant_reach (Ramp v) \<Longrightarrow> f \<in> {ramp_setA A, ramp_setB B, ramp_setTStart t0} \<Longrightarrow> variant_reach (Ramp (f v))"
| ramp_length: "variant_reach (Ramp v) \<Longrightarrow> ramp_setTRamp t v = (r, v') \<Longrightarrow> variant_reach (Ramp v')"
| cycle: "VariantCycle A B t0 ta tab tb tba = Inr v \<Longrightarrow> variant_reach (Cycle v)"
| cycle_values: "variant_reach (Cycle v) \<Longrightarrow> f \<in> {cycle_setA A, cycle_setB B, cycle_setTStart t0, cycle_setTA ta, cycle_setTB tb} \<Longrightarrow>
    variant_reach (Cycle (f v))"
| cycle_AB: "variant_reach (Cycle v) \<Longrightarrow> cycle_setTAB t v = (r, v') \<Longrightarrow> variant_reach (Cycle v')"
| cycle_BA: "variant_reach (Cycle v) \<Longrightarrow> cycle_setTBA t v = (r, v') \<Longrightarrow> variant_reach (Cycle v')"
| power: "variant_reach (Power (VariantPower A B p t0 tr))"
| power_A: "variant_reach (Power v) \<Longrightarrow> variant_reach (Power (power_setA A v))"
| power_B: "variant_reach (Power v) \<Longrightarrow> variant_reach (Power (power_setB B v))"
| power_power: "variant_reach (Power v) \<Longrightarrow> variant_reach (Power (setPower p v))"
| power_start: "variant_reach (Power v) \<Longrightarrow> variant_reach (Power (power_setTStart t0 v))"
| power_length: "variant_reach (Power v) \<Longrightarrow> power_setTRamp t v = (r, v') \<Longrightarrow> variant_reach (Power v')"

lemma power_reach_offset: "variant_reach w \<Longrightarrow> w = Power v \<Longrightarrow> vp_offset v = computeOffset (vp_A v) (vp_B v)"
proof (induction arbitrary: v rule: variant_reach.induct)
  case (power_length v t r v')
  then show ?case by (auto simp: power_setTRamp_def exact_length_def split: if_splits)
qed (auto simp: VariantPower_def setStartEnd_def power_setA_def power_setB_def setInternals_def setPower_def power_setTStart_def Let_def)

text \<open>The constructor and \<open>setPower\<close> fill the cache; a new value keeps it current if it changes the offset.\<close>

lemma power_current_intros:
  "0 < p \<Longrightarrow> power_current (VariantPower A B p t0 tr)" "0 < p \<Longrightarrow> power_current (setPower p v)"
  "power_current v \<Longrightarrow> power_current (power_setTStart t0 v)" "power_current v \<Longrightarrow> power_setTRamp t v = (r, v') \<Longrightarrow> power_current v'"
  "0 < vp_power v \<Longrightarrow> computeOffset A (vp_B v) \<noteq> vp_offset v \<Longrightarrow> power_current (power_setA A v)"
  "0 < vp_power v \<Longrightarrow> computeOffset (vp_A v) B \<noteq> vp_offset v \<Longrightarrow> power_current (power_setB B v)"
  by (auto simp: power_current_def VariantPower_def setStartEnd_def power_setA_def power_setB_def setInternals_def setPower_def
      power_setTStart_def power_setTRamp_def exact_length_def Let_def split: if_splits)

lemma lerp_bounds:
  assumes "unat v \<le> unat len" "0 < len"
  shows "min a b \<le> lerp a b v len" "lerp a b v len \<le> max a b"
proof -
  define n m where "n = unat v" "m = unat len"
  define s where "s = real n / real m"
  have "0 < m" "n \<le> m" using assms by (simp_all add: n_m_def unat_gt_0 word_gt_0)
  then have s: "0 \<le> s" "0 \<le> 1 - s" by (simp_all add: s_def)
  have "lerp a b v len = b * s + a * (1 - s)" by (simp only: lerp_def s_def n_m_def Let_def)
  moreover have "min a b * s + min a b * (1 - s) \<le> b * s + a * (1 - s)" "b * s + a * (1 - s) \<le> max a b * s + max a b * (1 - s)"
    by (intro add_mono mult_right_mono s; simp)+
  ultimately show "min a b \<le> lerp a b v len" "lerp a b v len \<le> max a b" by (simp_all add: algebra_simps)
qed

lemma window:
  fixes t t0 len :: timestep
  assumes "t0 \<le> t" "t < t0 + len"
  shows "unat (t - t0) < unat len" "0 < len"
proof -
  have d: "unat (t - t0) = unat t - unat t0" using assms(1) by (simp add: unat_sub word_le_nat_alt)
  have "unat (t0 + len) \<le> unat t0 + unat len" by (simp add: unat_word_ariths)
  then show "unat (t - t0) < unat len" using assms d by (simp add: word_le_nat_alt word_less_nat_alt)
  then show "0 < len" by (simp add: word_less_nat_alt)
qed

lemma lerp_window:
  assumes "t0 \<le> t" "t < t0 + len"
  shows "min a b \<le> lerp a b (t - t0) len \<and> lerp a b (t - t0) len \<le> max a b"
  using lerp_bounds [of "t - t0" len a b] window [OF assms] by simp

lemma ramp_bounds: "min (vr_A v) (vr_B v) \<le> ramp_call v t \<and> ramp_call v t \<le> max (vr_A v) (vr_B v)"
proof (cases "vr_t_start v \<le> t \<and> t < vr_t_start v + vr_t_ramp v")
  case True
  then show ?thesis using lerp_window [of "vr_t_start v" t "vr_t_ramp v" "vr_A v" "vr_B v"] by (auto simp: ramp_call_def)
qed (auto simp: ramp_call_def not_le not_less)

lemma delta_mod:
  fixes d p :: timestep
  shows "d - d div p * p = d mod p"
  by (simp add: minus_div_mult_eq_mod)

lemma cycle_value_bounds:
  assumes "d < cycle_period v"
  shows "min (vc_A v) (vc_B v) \<le> cycle_value v d \<and> cycle_value v d \<le> max (vc_A v) (vc_B v)"
proof -
  let ?s = "vc_t_A v + vc_t_AB v + vc_t_B v"
  consider "d < vc_t_A v" | "vc_t_A v \<le> d" "d < vc_t_A v + vc_t_AB v" | "vc_t_A v + vc_t_AB v \<le> d" "\<not> d < vc_t_A v" "d < ?s"
    | "?s \<le> d" "\<not> d < vc_t_A v" "\<not> d < vc_t_A v + vc_t_AB v" by fastforce
  then show ?thesis
  proof cases
    case 2
    then show ?thesis using lerp_window [of "vc_t_A v" d "vc_t_AB v" "vc_A v" "vc_B v"] by (auto simp: cycle_value_def)
  next
    case 4
    then have "d < ?s + vc_t_BA v" using assms by (simp add: cycle_period_def)
    then show ?thesis using 4 lerp_window [of ?s d "vc_t_BA v" "vc_B v" "vc_A v"]
      by (auto simp: cycle_value_def min.commute max.commute)
  qed (auto simp: cycle_value_def)
qed

lemma powr_root:
  assumes "0 \<le> x" "0 < (p :: real)"
  shows "(x powr (1 / p)) powr p = x"
  using assms by (simp add: powr_powr)

lemma offset_nonneg: "0 \<le> a + computeOffset a b" "0 \<le> b + computeOffset a b"
  by (auto simp: computeOffset_def)

lemma power_bounds:
  assumes "power_current v" "vp_offset v = computeOffset (vp_A v) (vp_B v)"
  shows "min (vp_A v) (vp_B v) \<le> power_call v t \<and> power_call v t \<le> max (vp_A v) (vp_B v)"
proof (cases "vp_t_start v \<le> t \<and> t < vp_t_start v + vp_t_ramp v")
  case True
  let ?o = "vp_offset v" and ?p = "vp_power v"
  let ?x = "lerp (vp_inv_start v) (vp_inv_end v) (t - vp_t_start v) (vp_t_ramp v)"
  have p: "0 < ?p" and o: "0 \<le> vp_A v + ?o" "0 \<le> vp_B v + ?o" using assms offset_nonneg by (auto simp: power_current_def)
  have r: "vp_inv_start v powr ?p = vp_A v + ?o" "vp_inv_end v powr ?p = vp_B v + ?o"
    using assms powr_root [OF o(1) p] powr_root [OF o(2) p] by (simp_all add: power_current_def)
  have nn: "0 \<le> vp_inv_start v" "0 \<le> vp_inv_end v" using assms by (simp_all add: power_current_def)
  have b: "min (vp_inv_start v) (vp_inv_end v) \<le> ?x" "?x \<le> max (vp_inv_start v) (vp_inv_end v)"
    using True lerp_window by blast+
  have "min (vp_inv_start v) (vp_inv_end v) powr ?p \<le> ?x powr ?p" using b(1) nn p by (intro powr_mono2) auto
  moreover have "?x powr ?p \<le> max (vp_inv_start v) (vp_inv_end v) powr ?p" using b nn p by (intro powr_mono2) auto
  ultimately have "min (vp_A v + ?o) (vp_B v + ?o) \<le> ?x powr ?p" "?x powr ?p \<le> max (vp_A v + ?o) (vp_B v + ?o)"
    using r by (auto simp: min_def max_def split: if_splits)
  then show ?thesis using True by (auto simp: power_call_def min_def max_def split: if_splits)
qed (auto simp: power_call_def)

section \<open>Properties\<close>

text \<open>C33: The value of every variant that the constructors and setters produce lies at every time step between the
  minimum and the maximum that it reports, also where sums of time steps overflow.  For a power variant this needs a positive
  exponent and cached end points that belong to its current values, which the constructor, \<open>setPower\<close> and every change of a value
  that changes the offset establish; a value set without a change of the offset, or another exponent, can break it.\<close>

theorem variant_in_range:
  assumes "variant_reach v" "variant_current v" "variant_call v t = Some x"
  shows "fst (variant_range v) \<le> x \<and> x \<le> snd (variant_range v)"
proof (cases v)
  case (Ramp r)
  then show ?thesis using assms(3) ramp_bounds [of r t] by (auto simp: variant_range_def min_def max_def split: if_splits)
next
  case (Cycle c)
  have "d mod cycle_period c < cycle_period c" if "cycle_period c \<noteq> 0" for d
    using that by (simp add: word_mod_less_divisor word_gt_0)
  then show ?thesis using assms(3) Cycle cycle_value_bounds [of _ c]
    by (fastforce simp: cycle_call_def Let_def delta_mod variant_range_def min_def max_def split: if_splits)
next
  case (Power p)
  then show ?thesis using assms power_bounds [of p t] power_reach_offset [OF assms(1)]
    by (auto simp: variant_range_def min_def max_def split: if_splits)
qed (use assms in \<open>auto simp: variant_range_def\<close>)

theorem variant_in_range_witness:
  "power_call (VariantPower 4 36 2 0 4) 2 = 16 \<and> (4 :: real) \<le> 16 \<and> (16 :: real) \<le> 36"
proof -
  let ?v = "VariantPower 4 36 2 0 4"
  have r: "variant_reach (Power ?v)" by (rule variant_reach.power)
  have k: "variant_current (Power ?v)" using power_current_intros(1) by simp
  have "(36 :: real) powr (1 / 2) = 6" "(4 :: real) powr (1 / 2) = 2" by (simp_all add: powr_half_sqrt)
  then have c: "power_call ?v 2 = 16"
    by (simp add: power_call_def lerp_def VariantPower_def setStartEnd_def computeOffset_def Let_def)
  then show ?thesis using variant_in_range [OF r k, of 2 16] by (simp add: variant_range_def VariantPower_def setStartEnd_def)
qed

text \<open>From its start on a cycle repeats with its period, as long as the time step does not overflow.\<close>

theorem cycle_periodic:
  assumes "vc_t_start v \<le> t" "unat t + unat (cycle_period v) < 2 ^ 64"
  shows "cycle_call v (t + cycle_period v) = cycle_call v t"
proof -
  let ?p = "cycle_period v" and ?d = "t - vc_t_start v"
  have u: "unat (t + ?p) = unat t + unat ?p" using assms(2) by (simp add: unat_word_ariths)
  have "vc_t_start v \<le> t + ?p" using assms(1) u by (simp add: word_le_nat_alt)
  moreover have "(t + ?p - vc_t_start v) mod ?p = ?d mod ?p"
  proof -
    have "unat ?d \<le> unat t" using assms(1) by (simp add: unat_sub word_le_nat_alt)
    then have "unat (?d + ?p) = unat ?d + unat ?p" using assms(2) by (simp add: unat_word_ariths)
    then have "(?d + ?p) mod ?p = ?d mod ?p" by (simp add: word_unat_eq_iff unat_mod_distrib)
    moreover have "t + ?p - vc_t_start v = ?d + ?p" by simp
    ultimately show ?thesis by (simp only:)
  qed
  ultimately show ?thesis using assms(1) by (simp add: cycle_call_def Let_def delta_mod not_less [symmetric])
qed

theorem cycle_periodic_witness:
  "cycle_call \<lparr>vc_A = 1, vc_B = 5, vc_t_start = 3, vc_t_A = 2, vc_t_AB = 4, vc_t_B = 1, vc_t_BA = 3\<rparr> (6 + 10) = Some 2"
proof -
  let ?v = "\<lparr>vc_A = 1, vc_B = 5, vc_t_start = 3, vc_t_A = 2, vc_t_AB = 4, vc_t_B = 1, vc_t_BA = 3\<rparr>"
  have p: "cycle_period ?v = 10" by (simp add: cycle_period_def)
  have "cycle_call ?v 6 = Some 2" by (simp add: cycle_call_def cycle_value_def cycle_period_def lerp_def Let_def)
  then show ?thesis using cycle_periodic [of ?v 6] p by simp
qed

text \<open>Setting an end value of a power variant does not update the cached end points when the offset stays the same:
  the variant that went from 1 to 10 and is set to start from 5 still follows the old ramp, below its own minimum.\<close>

theorem power_setA_stale:
  "let v = power_setA 5 (VariantPower 1 10 1 0 9) in
     power_call v 1 = 2 \<and> variant_min (Power v) = 5 \<and> power_call (VariantPower 5 10 1 0 9) 1 = 50 / 9"
  by (simp add: power_setA_def VariantPower_def setInternals_def setStartEnd_def computeOffset_def power_call_def lerp_def Let_def)

end
