(* ===== verification/PairPotentials.thy ===== *)
theory PairPotentials
  imports Complex_Main HOOMD_Prelude
begin

text \<open>
  Model of the isotropic pair potentials in \<open>hoomd/md/EvaluatorPair*.h\<close>: every evaluator computes, from the squared
  distance of two particles and the squared cutoff, the energy and the force divided by the distance.  Numbers are exact reals;
  \<open>fast::pow\<close> is exponentiation of a positive base.  The proofs are in \<open>PairForces\<close>.
\<close>

text \<open>\<open>Skipped\<close> is the result \<open>false\<close> of \<open>evalForceAndEnergy\<close>; \<open>Infinite\<close> stands for the value \<open>INFINITY\<close> of both
  outputs, otherwise these are the force divided by the distance and the energy.\<close>

datatype pair_result = Skipped | Infinite | Evaluated (force_divr: real) (pair_eng: real)

definition rsqrt :: "real \<Rightarrow> real" where
  "rsqrt x = 1 / sqrt x"

definition eval_LJ :: "real \<Rightarrow> real \<Rightarrow> real \<Rightarrow> real \<Rightarrow> bool \<Rightarrow> pair_result" where
  "eval_LJ sigma epsilon rsq rcutsq energy_shift = (let
     sigma_6 = sigma * sigma * sigma * sigma * sigma * sigma; epsilon_x_4 = 4 * epsilon;
     lj1 = epsilon_x_4 * sigma_6 * sigma_6; lj2 = epsilon_x_4 * sigma_6 in
     if rsq < rcutsq \<and> lj1 \<noteq> 0 then let
       r2inv = 1 / rsq; r6inv = r2inv * r2inv * r2inv;
       force = r2inv * r6inv * 6 * (2 * lj1 * r6inv - lj2);
       eng = r6inv * (lj1 * r6inv - lj2);
       rcut2inv = 1 / rcutsq; rcut6inv = rcut2inv * rcut2inv * rcut2inv
       in Evaluated force (if energy_shift then eng - rcut6inv * (lj1 * rcut6inv - lj2) else eng)
     else Skipped)"

definition eval_ForceShiftedLJ :: "real \<Rightarrow> real \<Rightarrow> real \<Rightarrow> real \<Rightarrow> bool \<Rightarrow> pair_result" where
  "eval_ForceShiftedLJ sigma epsilon rsq rcutsq energy_shift = (let
     sigma_6 = sigma * sigma * sigma * sigma * sigma * sigma; epsilon_x_4 = 4 * epsilon;
     lj1 = epsilon_x_4 * sigma_6 * sigma_6; lj2 = epsilon_x_4 * sigma_6 in
     if rsq < rcutsq \<and> lj1 \<noteq> 0 then let
       r2inv = 1 / rsq; r6inv = r2inv * r2inv * r2inv;
       force = r2inv * r6inv * (12 * lj1 * r6inv - 6 * lj2);
       eng = r6inv * (lj1 * r6inv - lj2);
       rcut2inv = 1 / rcutsq; rcut6inv = rcut2inv * rcut2inv * rcut2inv;
       eng = (if energy_shift then eng - rcut6inv * (lj1 * rcut6inv - lj2) else eng);
       rcut_r_inv = rsqrt (rsq * rcutsq);
       force_rcut_at_rcut = rcut6inv * (12 * lj1 * rcut6inv - 6 * lj2)
       in Evaluated (force - rcut_r_inv * force_rcut_at_rcut) (eng + (rsq * rcut_r_inv - 1) * force_rcut_at_rcut)
     else Skipped)"

definition eval_LJ1208 :: "real \<Rightarrow> real \<Rightarrow> real \<Rightarrow> real \<Rightarrow> bool \<Rightarrow> pair_result" where
  "eval_LJ1208 sigma epsilon rsq rcutsq energy_shift = (let
     sigma_4 = sigma * sigma * sigma * sigma; epsilon_x_4 = 4 * epsilon;
     lj1 = epsilon_x_4 * sigma_4 * sigma_4 * sigma_4; lj2 = epsilon_x_4 * sigma_4 * sigma_4 in
     if rsq < rcutsq \<and> lj1 \<noteq> 0 then let
       r2inv = 1 / rsq; r4inv = r2inv * r2inv; r8inv = r4inv * r4inv;
       force = r2inv * r8inv * (12 * lj1 * r4inv - 8 * lj2);
       eng = r8inv * (lj1 * r4inv - lj2);
       rcut2inv = 1 / rcutsq; rcut4inv = rcut2inv * rcut2inv; rcut8inv = rcut4inv * rcut4inv
       in Evaluated force (if energy_shift then eng - rcut8inv * (lj1 * rcut4inv - lj2) else eng)
     else Skipped)"

definition eval_LJ0804 :: "real \<Rightarrow> real \<Rightarrow> real \<Rightarrow> real \<Rightarrow> bool \<Rightarrow> pair_result" where
  "eval_LJ0804 sigma epsilon rsq rcutsq energy_shift = (let
     sigma_4 = sigma * sigma * sigma * sigma; epsilon_x_4 = 4 * epsilon;
     lj1 = epsilon_x_4 * sigma_4 * sigma_4; lj2 = epsilon_x_4 * sigma_4 in
     if rsq < rcutsq \<and> lj1 \<noteq> 0 then let
       r2inv = 1 / rsq; r4inv = r2inv * r2inv;
       force = r2inv * r4inv * (8 * lj1 * r4inv - 4 * lj2);
       eng = r4inv * (lj1 * r4inv - lj2);
       rcut2inv = 1 / rcutsq; rcut4inv = rcut2inv * rcut2inv
       in Evaluated force (if energy_shift then eng - rcut4inv * (lj1 * rcut4inv - lj2) else eng)
     else Skipped)"

definition eval_ExpandedLJ :: "real \<Rightarrow> real \<Rightarrow> real \<Rightarrow> real \<Rightarrow> real \<Rightarrow> bool \<Rightarrow> pair_result" where
  "eval_ExpandedLJ sigma epsilon delta rsq rcutsq energy_shift = (let
     sigma_3 = sigma * sigma * sigma; sigma_6 = sigma_3 * sigma_3; epsilon_x_4 = 4 * epsilon;
     lj1 = epsilon_x_4 * sigma_6 * sigma_6; lj2 = epsilon_x_4 * sigma_6;
     rinv = rsqrt rsq; r = 1 / rinv in
     if rsq < rcutsq \<and> lj1 \<noteq> 0 then let
       rmd = r - delta; rmdinv = 1 / rmd; rmd2inv = rmdinv * rmdinv; rmd6inv = rmd2inv * rmd2inv * rmd2inv;
       force = rinv * rmdinv * rmd6inv * (12 * lj1 * rmd6inv - 6 * lj2);
       eng = rmd6inv * (lj1 * rmd6inv - lj2);
       r_cut = sqrt rcutsq; r_cut_shifted = r_cut - delta; r_cut_shifted_inv = 1 / r_cut_shifted;
       r_cut2_inv = r_cut_shifted_inv * r_cut_shifted_inv; r_cut6_inv = r_cut2_inv * r_cut2_inv * r_cut2_inv
       in Evaluated force (if energy_shift then eng - r_cut6_inv * (lj1 * r_cut6_inv - lj2) else eng)
     else Skipped)"

definition eval_Gauss :: "real \<Rightarrow> real \<Rightarrow> real \<Rightarrow> real \<Rightarrow> bool \<Rightarrow> pair_result" where
  "eval_Gauss epsilon sigma rsq rcutsq energy_shift = (
     if rsq < rcutsq then let
       sigma_sq = sigma * sigma; r_over_sigma_sq = rsq / sigma_sq; exp_val = exp (- 1 / 2 * r_over_sigma_sq);
       force = epsilon / sigma_sq * exp_val;
       eng = epsilon * exp_val
       in Evaluated force (if energy_shift then eng - epsilon * exp (- 1 / 2 * rcutsq / sigma_sq) else eng)
     else Skipped)"

definition eval_ExpandedGaussian :: "real \<Rightarrow> real \<Rightarrow> real \<Rightarrow> real \<Rightarrow> real \<Rightarrow> bool \<Rightarrow> pair_result" where
  "eval_ExpandedGaussian epsilon sigma delta rsq rcutsq energy_shift = (let
     r = sqrt rsq; rcut = sqrt rcutsq; rinv = 1 / r in
     if rsq < rcutsq then let
       rmd = r - delta; rmd_sq = (r - delta) * (r - delta); sigma_sq = sigma * sigma; rmd_over_sigma_sq = rmd_sq / sigma_sq;
       exp_val = exp (- 1 / 2 * rmd_over_sigma_sq);
       force = epsilon / sigma_sq * exp_val * rmd * rinv;
       eng = epsilon * exp_val;
       rcutmd_sq = (rcut - delta) * (rcut - delta); rcutmd_over_sigma_sq = rcutmd_sq / sigma_sq
       in Evaluated force (if energy_shift then eng - epsilon * exp (- 1 / 2 * rcutmd_over_sigma_sq) else eng)
     else Skipped)"

definition eval_Yukawa :: "real \<Rightarrow> real \<Rightarrow> real \<Rightarrow> real \<Rightarrow> bool \<Rightarrow> pair_result" where
  "eval_Yukawa epsilon kappa rsq rcutsq energy_shift = (
     if rsq < rcutsq \<and> epsilon \<noteq> 0 then let
       rinv = rsqrt rsq; r = 1 / rinv; r2inv = 1 / rsq; exp_val = exp (- kappa * r);
       force = epsilon * exp_val * r2inv * (rinv + kappa);
       eng = epsilon * exp_val * rinv;
       rcutinv = rsqrt rcutsq; rcut = 1 / rcutinv
       in Evaluated force (if energy_shift then eng - epsilon * exp (- kappa * rcut) * rcutinv else eng)
     else Skipped)"

definition eval_Morse :: "real \<Rightarrow> real \<Rightarrow> real \<Rightarrow> real \<Rightarrow> real \<Rightarrow> bool \<Rightarrow> pair_result" where
  "eval_Morse D0 alpha r0 rsq rcutsq energy_shift = (
     if rsq < rcutsq then let
       r = sqrt rsq; Exp_factor = exp (- alpha * (r - r0));
       eng = D0 * Exp_factor * (Exp_factor - 2);
       force = 2 * D0 * alpha * Exp_factor * (Exp_factor - 1) / r;
       rcut = sqrt rcutsq; Exp_factor_cut = exp (- alpha * (rcut - r0))
       in Evaluated force (if energy_shift then eng - D0 * Exp_factor_cut * (Exp_factor_cut - 2) else eng)
     else Skipped)"

definition eval_Buckingham :: "real \<Rightarrow> real \<Rightarrow> real \<Rightarrow> real \<Rightarrow> real \<Rightarrow> bool \<Rightarrow> pair_result" where
  "eval_Buckingham A rho C rsq rcutsq energy_shift = (
     if rsq < rcutsq \<and> rho > 0 then let
       r = sqrt rsq; Exp_factor = A * exp (- r / rho); r2inv = 1 / rsq; r6inv = r2inv * r2inv * r2inv;
       force = Exp_factor / (rho * r) - r2inv * r6inv * 6 * C;
       eng = Exp_factor - r6inv * C;
       rcut = sqrt rcutsq; Exp_factor_cut = A * exp (- rcut / rho);
       rcut2inv = 1 / rcutsq; rcut6inv = rcut2inv * rcut2inv * rcut2inv
       in Evaluated force (if energy_shift then eng - (Exp_factor_cut - rcut6inv * C) else eng)
     else Skipped)"

definition mie_prefactor :: "real \<Rightarrow> real \<Rightarrow> real" where
  "mie_prefactor n m = n / (n - m) * (n / m) powr (m / (n - m))"

definition eval_Mie :: "real \<Rightarrow> real \<Rightarrow> real \<Rightarrow> real \<Rightarrow> real \<Rightarrow> real \<Rightarrow> bool \<Rightarrow> pair_result" where
  "eval_Mie epsilon sigma n m rsq rcutsq energy_shift = (let
     mie1 = mie_prefactor n m * epsilon * sigma powr n; mie2 = mie_prefactor n m * epsilon * sigma powr m in
     if rsq < rcutsq \<and> mie1 \<noteq> 0 then let
       r2inv = 1 / rsq; rninv = r2inv powr (n / 2); rminv = r2inv powr (m / 2);
       force = r2inv * (n * mie1 * rninv - m * mie2 * rminv);
       eng = mie1 * rninv - mie2 * rminv;
       rcutninv = rcutsq powr (- n / 2); rcutminv = rcutsq powr (- m / 2)
       in Evaluated force (if energy_shift then eng - (mie1 * rcutninv - mie2 * rcutminv) else eng)
     else Skipped)"

definition eval_ExpandedMie :: "real \<Rightarrow> real \<Rightarrow> real \<Rightarrow> real \<Rightarrow> real \<Rightarrow> real \<Rightarrow> real \<Rightarrow> bool \<Rightarrow> pair_result" where
  "eval_ExpandedMie epsilon sigma n m delta rsq rcutsq energy_shift = (let
     repulsive = mie_prefactor n m * epsilon * sigma powr n; attractive = mie_prefactor n m * epsilon * sigma powr m;
     rinv = rsqrt rsq; r = 1 / rinv in
     if rsq < rcutsq \<and> repulsive \<noteq> 0 then let
       rmd = r - delta; rmdinv = 1 / rmd; rmd2inv = rmdinv * rmdinv;
       rmdninv = rmd2inv powr (n / 2); rmdminv = rmd2inv powr (m / 2);
       force = rinv * rmdinv * (n * repulsive * rmdninv - m * attractive * rmdminv);
       eng = repulsive * rmdninv - attractive * rmdminv;
       r_cut = sqrt rcutsq; r_cut_shifted = r_cut - delta;
       r_cut_n_inv = r_cut_shifted powr (- n); r_cut_m_inv = r_cut_shifted powr (- m)
       in Evaluated force (if energy_shift then eng - (repulsive * r_cut_n_inv - attractive * r_cut_m_inv) else eng)
     else Skipped)"

text \<open>The product of the charges is one unless charges are used.\<close>

definition charge_product :: "bool \<Rightarrow> real \<Rightarrow> real \<Rightarrow> real" where
  "charge_product use_charge qi qj = (if use_charge then qi * qj else 1)"

definition eval_ReactionField :: "real \<Rightarrow> real \<Rightarrow> real \<Rightarrow> real \<Rightarrow> real \<Rightarrow> bool \<Rightarrow> pair_result" where
  "eval_ReactionField epsilon epsrf qiqj rsq rcutsq energy_shift = (
     if rsq < rcutsq \<and> epsilon \<noteq> 0 \<and> qiqj \<noteq> 0 then let
       rcut3inv = rsqrt rcutsq / rcutsq; rinv = rsqrt rsq; r = 1 / rinv; r2inv = 1 / rsq;
       eps_fac = (if epsrf = 0 then 1 / 2 * rcut3inv else (epsrf - 1) / (2 * epsrf + 1) * rcut3inv);
       force = qiqj * epsilon * (r2inv * rinv - 2 * eps_fac);
       eng = qiqj * epsilon * (rinv + eps_fac * r * r);
       rcutinv = rsqrt rcutsq; rcut = 1 / rcutinv
       in Evaluated force (if energy_shift then eng - qiqj * epsilon * (rcutinv + eps_fac * rcut * rcut) else eng)
     else Skipped)"

definition eval_DLVO :: "real \<Rightarrow> real \<Rightarrow> real \<Rightarrow> real \<Rightarrow> real \<Rightarrow> real \<Rightarrow> real \<Rightarrow> bool \<Rightarrow> pair_result" where
  "eval_DLVO kappa Z A a1 a2 rsq rcutsq energy_shift = (let
     radsum = a1 + a2; radsub = a1 - a2; radprod = a1 * a2; radsumsq = a1 * a1 + a2 * a2; radsubsq = a1 * a1 - a2 * a2;
     rinv = rsqrt rsq; r = 1 / rinv; rcutinv = rsqrt rcutsq; rcut = 1 / rcutinv in
     if r < rcut \<and> kappa \<noteq> 0 then let
       rmds = r - radsum; rmdsqs = r * r - radsum * radsum; rmdsqm = r * r - radsub * radsub;
       radsuminv = 1 / radsum; rmdsqsinv = 1 / rmdsqs; rmdsqminv = 1 / rmdsqm;
       exp_val = exp (- kappa * rmds);
       forcerep_divr = kappa * radprod * radsuminv * Z * exp_val / r;
       fatrterm1 = r * r * r * r + radsubsq * radsubsq - 2 * r * r * radsumsq;
       fatrterm1inv = 1 / fatrterm1 * 1 / fatrterm1;
       forceatr_divr = - 32 * A / 3 * radprod * radprod * radprod * fatrterm1inv;
       engt1 = radprod * rmdsqsinv * A / 3; engt2 = radprod * rmdsqminv * A / 3; engt3 = ln (rmdsqs * rmdsqminv) * A / 6;
       eng = r * forcerep_divr / kappa - engt1 - engt2 - engt3;
       rmdscut = rcut - radsum; rmdsqscut = rcut * rcut - radsum * radsum; rmdsqmcut = rcut * rcut - radsub * radsub;
       rmdsqsinvcut = 1 / rmdsqscut; rmdsqminvcut = 1 / rmdsqmcut;
       engt1cut = radprod * rmdsqsinvcut * A / 3; engt2cut = radprod * rmdsqminvcut * A / 3;
       engt3cut = ln (rmdsqscut * rmdsqminvcut) * A / 6;
       exp_valcut = exp (- kappa * rmdscut);
       forcerepcut_divr = kappa * radprod * radsuminv * Z * exp_valcut / rcut
       in Evaluated (forcerep_divr + forceatr_divr)
            (if energy_shift then eng - (rcut * forcerepcut_divr / kappa - engt1cut - engt2cut - engt3cut) else eng)
     else Skipped)"

definition eval_Moliere :: "real \<Rightarrow> real \<Rightarrow> real \<Rightarrow> real \<Rightarrow> real \<Rightarrow> bool \<Rightarrow> pair_result" where
  "eval_Moliere qi qj aF rsq rcutsq energy_shift = (let Zsq = qi * qj in
     if rsq < rcutsq \<and> Zsq \<noteq> 0 \<and> aF \<noteq> 0 then let
       r2inv = 1 / rsq; rinv = rsqrt rsq;
       exp1 = 35 / 100 * exp (- 3 / 10 / aF / rinv);
       exp2 = 55 / 100 * exp (- 12 / 10 / aF / rinv);
       exp3 = 1 / 10 * exp (- 6 / aF / rinv);
       force = rinv * (exp1 + exp2 + exp3);
       force = force + 1 / aF * (3 / 10 * exp1 + 12 / 10 * exp2 + 6 * exp3);
       force = force * (Zsq * r2inv);
       eng = Zsq * rinv * (exp1 + exp2 + exp3);
       rcutinv = rsqrt rcutsq;
       expcut1 = 35 / 100 * exp (- 3 / 10 / aF / rcutinv);
       expcut2 = 55 / 100 * exp (- 12 / 10 / aF / rcutinv);
       expcut3 = 1 / 10 * exp (- 6 / aF / rcutinv)
       in Evaluated force (if energy_shift then eng - Zsq * rcutinv * (expcut1 + expcut2 + expcut3) else eng)
     else Skipped)"

definition eval_ZBL :: "real \<Rightarrow> real \<Rightarrow> real \<Rightarrow> real \<Rightarrow> real \<Rightarrow> bool \<Rightarrow> pair_result" where
  "eval_ZBL qi qj aF rsq rcutsq energy_shift = (let Zsq = qi * qj in
     if rsq < rcutsq \<and> Zsq \<noteq> 0 \<and> aF \<noteq> 0 then let
       r2inv = 1 / rsq; rinv = rsqrt rsq;
       exp1 = 1818 / 10000 * exp (- 32 / 10 / aF / rinv);
       exp2 = 5099 / 10000 * exp (- 9423 / 10000 / aF / rinv);
       exp3 = 2802 / 10000 * exp (- 4029 / 10000 / aF / rinv);
       exp4 = 2817 / 100000 * exp (- 2016 / 10000 / aF / rinv);
       force = rinv * (exp1 + exp2 + exp3 + exp4);
       force = force + 1 / aF * (32 / 10 * exp1 + 9423 / 10000 * exp2 + 4029 / 10000 * exp3 + 2016 / 10000 * exp4);
       force = force * (Zsq * r2inv)
       in Evaluated force (Zsq * rinv * (exp1 + exp2 + exp3 + exp4))
     else Skipped)"

definition eval_LJGauss :: "real \<Rightarrow> real \<Rightarrow> real \<Rightarrow> real \<Rightarrow> real \<Rightarrow> bool \<Rightarrow> pair_result" where
  "eval_LJGauss epsilon sigma r0 rsq rcutsq energy_shift = (
     if rsq \<ge> rcutsq then Skipped
     else let
       r = sqrt rsq; sigma2 = sigma * sigma; rdiff = r - r0; rdiff_sigma2 = rdiff / sigma2;
       exp_val = exp (- (1 / 2) * rdiff_sigma2 * rdiff);
       r2inv = 1 / rsq; r6inv = r2inv * r2inv * r2inv;
       force = r2inv * r6inv * 12 * (r6inv - 1) - exp_val * epsilon * rdiff_sigma2 / r;
       eng = r6inv * (r6inv - 2) - exp_val * epsilon;
       rcut2inv = 1 / rcutsq; rcut6inv = rcut2inv * rcut2inv * rcut2inv; r_cut_minus_r0 = sqrt rcutsq - r0
       in Evaluated force (if energy_shift
            then eng - (rcut6inv * (rcut6inv - 2) - epsilon * exp (- (1 / 2) * r_cut_minus_r0 * r_cut_minus_r0 / sigma2))
            else eng))"

definition eval_OPP :: "real \<Rightarrow> real \<Rightarrow> real \<Rightarrow> real \<Rightarrow> real \<Rightarrow> real \<Rightarrow> real \<Rightarrow> real \<Rightarrow> bool \<Rightarrow> pair_result" where
  "eval_OPP C1 C2 eta1 eta2 k phi rsq rcutsq energy_shift = (
     if rsq < rcutsq then let
       r = sqrt rsq; eval_sin = sin (k * r - phi); eval_cos = cos (k * r - phi);
       r_eta1_arg = C1 * r powr (- eta1); r_to_eta2 = r powr (- eta2); r_eta2_arg = C2 * r_to_eta2 * eval_cos;
       eng = r_eta1_arg + r_eta2_arg;
       force = ((r_eta1_arg * eta1 + r_eta2_arg * eta2) / r + C2 * k * r_to_eta2 * eval_sin) / r;
       r_cut = sqrt rcutsq; r_cut_eta1_arg = C1 * r_cut powr (- eta1);
       r_cut_eta2_arg = C2 * r_cut powr (- eta2) * cos (k * r_cut - phi)
       in Evaluated force (if energy_shift then eng - (r_cut_eta1_arg + r_cut_eta2_arg) else eng)
     else Skipped)"

definition eval_TWF :: "real \<Rightarrow> real \<Rightarrow> real \<Rightarrow> real \<Rightarrow> real \<Rightarrow> bool \<Rightarrow> pair_result" where
  "eval_TWF sigma epsilon alpha rsq rcutsq energy_shift = (let prefactor = 4 * epsilon / (alpha * alpha) in
     if rsq < rcutsq then let sigma2 = sigma * sigma in
       if rsq \<le> sigma2 then Infinite
       else let
         common_term = 1 / (rsq / sigma2 - 1); common_term3 = common_term * common_term * common_term;
         common_term6 = common_term3 * common_term3;
         eng = prefactor * (common_term6 - alpha * common_term3);
         force_term = 6 * common_term / sigma2;
         force = prefactor * force_term * (2 * common_term6 - alpha * common_term3);
         common_term_shift = 1 / (rcutsq / sigma2 - 1);
         common_term3_shift = common_term_shift * common_term_shift * common_term_shift;
         common_term6_shift = common_term3_shift * common_term3_shift
         in Evaluated force (if energy_shift then eng - prefactor * (common_term6_shift - alpha * common_term3_shift) else eng)
     else Skipped)"

text \<open>The loops over the coefficients 2 to 4 of the Fourier series.\<close>

definition fourier_first :: "real list \<Rightarrow> real list \<Rightarrow> real \<times> real" where
  "fourier_first a b = foldl (\<lambda>(a1, b1) i. let pow_neg1_i = (if odd i then - 1 else 1)
     in (a1 + pow_neg1_i * a ! (i - 2), b1 + real i * pow_neg1_i * b ! (i - 2))) (0, 0) [2, 3, 4]"

definition eval_Fourier :: "real list \<Rightarrow> real list \<Rightarrow> real \<Rightarrow> real \<Rightarrow> bool \<Rightarrow> pair_result" where
  "eval_Fourier a b rsq rcutsq energy_shift = (
     if rsq < rcutsq then let
       half_period = sqrt rcutsq; period_scale = pi / half_period; r = sqrt rsq; x = r * period_scale;
       r1inv = 1 / r; r2inv = 1 / rsq; r3inv = r1inv * r2inv; r12inv = r3inv * r3inv * r3inv * r3inv;
       (a1, b1) = fourier_first a b;
       (fourier_part, force) = foldl (\<lambda>(fourier_part, force) i. let s = sin (real i * x); c = cos (real i * x)
           in (fourier_part + (a ! (i - 2) * c + b ! (i - 2) * s), force + (a ! (i - 2) * real i * s - b ! (i - 2) * real i * c)))
         (a1 * cos x + b1 * sin x, a1 * sin x - b1 * cos x) [2, 3, 4];
       force = r1inv * (r1inv * r12inv * 12 + r2inv * period_scale * force + 2 * r3inv * fourier_part)
       in Evaluated force (r12inv + r2inv * fourier_part)
     else Skipped)"

section \<open>The evaluators together\<close>

text \<open>The parameters are those of the dictionaries from which the code builds its \<open>param_type\<close>.\<close>

datatype pair_evaluator =
    LJ real real
  | ForceShiftedLJ real real
  | LJ1208 real real
  | LJ0804 real real
  | ExpandedLJ real real real
  | Gauss real real
  | ExpandedGaussian real real real
  | Yukawa real real
  | Morse real real real
  | Buckingham real real real
  | Mie real real real real
  | ExpandedMie real real real real real
  | ReactionField real real bool real real
  | DLVO real real real real real
  | Moliere real real real
  | ZBL real real real
  | LJGauss real real real
  | OPP real real real real real real
  | TWF real real real
  | Fourier "real list" "real list"

fun evalForceAndEnergy :: "pair_evaluator \<Rightarrow> real \<Rightarrow> real \<Rightarrow> bool \<Rightarrow> pair_result" where
  "evalForceAndEnergy (LJ s e) = eval_LJ s e"
| "evalForceAndEnergy (ForceShiftedLJ s e) = eval_ForceShiftedLJ s e"
| "evalForceAndEnergy (LJ1208 s e) = eval_LJ1208 s e"
| "evalForceAndEnergy (LJ0804 s e) = eval_LJ0804 s e"
| "evalForceAndEnergy (ExpandedLJ s e d) = eval_ExpandedLJ s e d"
| "evalForceAndEnergy (Gauss e s) = eval_Gauss e s"
| "evalForceAndEnergy (ExpandedGaussian e s d) = eval_ExpandedGaussian e s d"
| "evalForceAndEnergy (Yukawa e k) = eval_Yukawa e k"
| "evalForceAndEnergy (Morse D0 a r0) = eval_Morse D0 a r0"
| "evalForceAndEnergy (Buckingham A rho C) = eval_Buckingham A rho C"
| "evalForceAndEnergy (Mie e s n m) = eval_Mie e s n m"
| "evalForceAndEnergy (ExpandedMie e s n m d) = eval_ExpandedMie e s n m d"
| "evalForceAndEnergy (ReactionField e rf u qi qj) = eval_ReactionField e rf (charge_product u qi qj)"
| "evalForceAndEnergy (DLVO k Z A a1 a2) = eval_DLVO k Z A a1 a2"
| "evalForceAndEnergy (Moliere qi qj aF) = eval_Moliere qi qj aF"
| "evalForceAndEnergy (ZBL qi qj aF) = eval_ZBL qi qj aF"
| "evalForceAndEnergy (LJGauss e s r0) = eval_LJGauss e s r0"
| "evalForceAndEnergy (OPP C1 C2 eta1 eta2 k phi) = eval_OPP C1 C2 eta1 eta2 k phi"
| "evalForceAndEnergy (TWF s e a) = eval_TWF s e a"
| "evalForceAndEnergy (Fourier a b) = eval_Fourier a b"

section \<open>The potentials\<close>

text \<open>The energy at distance \<open>r\<close> with the cutoff \<open>c\<close>, as the documentation of the evaluators and of
  \<open>hoomd/md/pair/pair.py\<close> defines it.  For an infinite permittivity \<open>ReactionField\<close> has the limit of the documented factor.  The
  entry of \<open>TWF\<close> is the energy that the code computes and not the documented one, which has the inverse of the quotient
  \<open>r\<^sup>2 / s\<^sup>2\<close>; \<open>documented\<close> tells the two kinds apart.\<close>

definition lj_energy :: "real \<Rightarrow> real \<Rightarrow> real \<Rightarrow> real" where
  "lj_energy s e r = 4 * e * ((s / r) ^ 12 - (s / r) ^ 6)"

fun potential :: "pair_evaluator \<Rightarrow> real \<Rightarrow> real \<Rightarrow> real" where
  "potential (LJ s e) c = (\<lambda>r. lj_energy s e r)"
| "potential (ForceShiftedLJ s e) c = (\<lambda>r. lj_energy s e r - (r - c) * (- 4 * e * (12 * s ^ 12 / c ^ 13 - 6 * s ^ 6 / c ^ 7)))"
| "potential (LJ1208 s e) c = (\<lambda>r. 4 * e * ((s / r) ^ 12 - (s / r) ^ 8))"
| "potential (LJ0804 s e) c = (\<lambda>r. 4 * e * ((s / r) ^ 8 - (s / r) ^ 4))"
| "potential (ExpandedLJ s e d) c = (\<lambda>r. lj_energy s e (r - d))"
| "potential (Gauss e s) c = (\<lambda>r. e * exp (- (1 / 2) * (r / s)\<^sup>2))"
| "potential (ExpandedGaussian e s d) c = (\<lambda>r. e * exp (- (1 / 2) * ((r - d) / s)\<^sup>2))"
| "potential (Yukawa e k) c = (\<lambda>r. e * exp (- k * r) / r)"
| "potential (Morse D0 a r0) c = (\<lambda>r. D0 * (exp (- 2 * a * (r - r0)) - 2 * exp (- a * (r - r0))))"
| "potential (Buckingham A rho C) c = (\<lambda>r. A * exp (- r / rho) - C / r ^ 6)"
| "potential (Mie e s n m) c = (\<lambda>r. mie_prefactor n m * e * ((s / r) powr n - (s / r) powr m))"
| "potential (ExpandedMie e s n m d) c = (\<lambda>r. mie_prefactor n m * e * ((s / (r - d)) powr n - (s / (r - d)) powr m))"
| "potential (ReactionField e rf u qi qj) c = (\<lambda>r. charge_product u qi qj * e * (1 / r +
     (if rf = 0 then 1 / 2 else (rf - 1) / (2 * rf + 1)) * r\<^sup>2 / c ^ 3))"
| "potential (DLVO k Z A a1 a2) c = (\<lambda>r. - (A / 6) * (2 * a1 * a2 / (r\<^sup>2 - (a1 + a2)\<^sup>2) + 2 * a1 * a2 / (r\<^sup>2 - (a1 - a2)\<^sup>2)
     + ln ((r\<^sup>2 - (a1 + a2)\<^sup>2) / (r\<^sup>2 - (a1 - a2)\<^sup>2))) + a1 * a2 / (a1 + a2) * Z * exp (- k * (r - (a1 + a2))))"
| "potential (Moliere qi qj aF) c = (\<lambda>r. qi * qj / r * (35 / 100 * exp (- (3 / 10) * (r / aF)) + 55 / 100 * exp (- (12 / 10) * (r / aF))
     + 1 / 10 * exp (- 6 * (r / aF))))"
| "potential (ZBL qi qj aF) c = (\<lambda>r. qi * qj / r * (1818 / 10000 * exp (- (32 / 10) * (r / aF))
     + 5099 / 10000 * exp (- (9423 / 10000) * (r / aF)) + 2802 / 10000 * exp (- (4029 / 10000) * (r / aF))
     + 2817 / 100000 * exp (- (2016 / 10000) * (r / aF))))"
| "potential (LJGauss e s r0) c = (\<lambda>r. 1 / r ^ 12 - 2 / r ^ 6 - e * exp (- (r - r0)\<^sup>2 / (2 * s\<^sup>2)))"
| "potential (OPP C1 C2 eta1 eta2 k phi) c = (\<lambda>r. C1 * r powr (- eta1) + C2 * r powr (- eta2) * cos (k * r - phi))"
| "potential (TWF s e a) c = (\<lambda>r. 4 * e / a\<^sup>2 * (1 / ((r / s)\<^sup>2 - 1) ^ 6 - a / ((r / s)\<^sup>2 - 1) ^ 3))"
| "potential (Fourier a b) c = (\<lambda>r. 1 / r ^ 12 + 1 / r\<^sup>2 * ((a ! 0 - a ! 1 + a ! 2) * cos (pi * r / c)
     + (2 * b ! 0 - 3 * b ! 1 + 4 * b ! 2) * sin (pi * r / c)
     + (\<Sum>n = 2..4. a ! (n - 2) * cos (real n * pi * r / c) + b ! (n - 2) * sin (real n * pi * r / c))))"

fun documented :: "pair_evaluator \<Rightarrow> bool" where
  "documented (TWF _ _ _) = False"
| "documented _ = True"

end
