(* ===== verification/PairForces.thy ===== *)
theory PairForces
  imports PairPotentials
begin

text \<open>
  Every pair potential evaluator computes its energy and the exact force belonging to it; except for one evaluator the energy is
  the documented one.  The locale
  \<open>pair_potential\<close> states what an evaluator promises and proves once what follows for forces and for the energy at the
  cutoff; it is interpreted for every evaluator of \<open>PairPotentials\<close>.
\<close>

section \<open>The contract of an evaluator\<close>

text \<open>\<open>V c r\<close> is the energy at distance \<open>r\<close> with cutoff \<open>c\<close> and \<open>F c r\<close> the force divided by \<open>r\<close>.  \<open>guard\<close> says whether
  the evaluator computes anything at all, \<open>ok\<close> whether its parameters are admissible, \<open>lo\<close> bounds the distances at which the
  potential is defined from below, and \<open>shifts\<close> says whether the evaluator supports a shifted energy.\<close>

locale pair_potential =
  fixes eval :: "real \<Rightarrow> real \<Rightarrow> bool \<Rightarrow> pair_result" and guard ok shifts :: bool and lo :: real
    and V F :: "real \<Rightarrow> real \<Rightarrow> real"
  assumes lo_nonneg: "0 \<le> lo"
    and eval_inside: "ok \<Longrightarrow> guard \<Longrightarrow> lo < x \<Longrightarrow> x < c \<Longrightarrow>
      eval (x\<^sup>2) (c\<^sup>2) s = Evaluated (F c x) (V c x - (if s \<and> shifts then V c c else 0))"
    and eval_outside: "0 < x \<Longrightarrow> 0 < c \<Longrightarrow> \<not> guard \<or> c \<le> x \<Longrightarrow> eval (x\<^sup>2) (c\<^sup>2) s = Skipped"
    and V_deriv: "ok \<Longrightarrow> guard \<Longrightarrow> lo < x \<Longrightarrow> 0 < c \<Longrightarrow> (V c has_real_derivative - (F c x * x)) (at x)"
begin

lemma force_is_derivative:
  assumes "ok" "guard" "lo < x" "x < c"
  shows "((\<lambda>y. pair_eng (eval (y\<^sup>2) (c\<^sup>2) s)) has_real_derivative - (force_divr (eval (x\<^sup>2) (c\<^sup>2) s) * x)) (at x)"
proof -
  define k where "k = (if s \<and> shifts then V c c else 0)"
  have c: "0 < c" using assms lo_nonneg by linarith
  have d: "((\<lambda>y. V c y - k) has_real_derivative - (F c x * x)) (at x)"
    using DERIV_diff [OF V_deriv [OF assms(1-3) c] DERIV_const [of k]] by (simp only: diff_0_right)
  have e: "V c y - k = pair_eng (eval (y\<^sup>2) (c\<^sup>2) s)" if "y \<in> {lo<..<c}" for y
    using eval_inside [OF assms(1,2), of y c s] that by (simp add: k_def)
  have "((\<lambda>y. pair_eng (eval (y\<^sup>2) (c\<^sup>2) s)) has_real_derivative - (F c x * x)) (at x)"
    by (rule has_field_derivative_transform_within_open [OF d open_greaterThanLessThan _ e]) (use assms in auto)
  then show ?thesis using eval_inside [OF assms, of s] by (simp only: pair_result.sel)
qed

lemma shifted_energy_vanishes:
  assumes "ok" "guard" "shifts" "lo < c"
  shows "((\<lambda>y. pair_eng (eval (y\<^sup>2) (c\<^sup>2) True)) \<longlongrightarrow> 0) (at_left c)"
proof -
  have "isCont (V c) c" using V_deriv [OF assms(1,2,4), of c] assms(4) lo_nonneg DERIV_isCont by fastforce
  then have "((\<lambda>y. V c y - V c c) \<longlongrightarrow> V c c - V c c) (at_left c)"
    by (intro tendsto_diff tendsto_const) (auto simp: isCont_def intro: filterlim_at_split [THEN iffD1, THEN conjunct1])
  moreover have "\<forall>\<^sub>F y in at_left c. V c y - V c c = pair_eng (eval (y\<^sup>2) (c\<^sup>2) True)"
    using eventually_at_left_real [OF assms(4)] by eventually_elim (use assms eval_inside in auto)
  ultimately show ?thesis by (simp add: tendsto_cong [symmetric])
qed

end

lemma rsqrt_sq: "0 < x \<Longrightarrow> rsqrt (x\<^sup>2) = 1 / x"
  by (simp add: rsqrt_def)

lemma sq_less: "0 < (x :: real) \<Longrightarrow> 0 < c \<Longrightarrow> x\<^sup>2 < c\<^sup>2 \<longleftrightarrow> x < c"
  using power_strict_mono [of x c 2] power2_less_imp_less [of x c] by auto

lemmas eval_simps = Let_def rsqrt_sq sq_less

section \<open>When an evaluator computes, and from which distance on\<close>

fun computes :: "pair_evaluator \<Rightarrow> bool" where
  "computes (Gauss _ _) = True"
| "computes (ExpandedGaussian _ _ _) = True"
| "computes (Yukawa e _) = (e \<noteq> 0)"
| "computes (Morse _ _ _) = True"
| "computes (Buckingham _ rho _) = (rho > 0)"
| "computes (Mie e s n m) = (mie_prefactor n m * e * s powr n \<noteq> 0)"
| "computes (ExpandedMie e s n m _) = (mie_prefactor n m * e * s powr n \<noteq> 0)"
| "computes (ReactionField e _ u qi qj) = (e \<noteq> 0 \<and> charge_product u qi qj \<noteq> 0)"
| "computes (DLVO k _ _ _ _) = (k \<noteq> 0)"
| "computes (Moliere qi qj aF) = (qi \<noteq> 0 \<and> qj \<noteq> 0 \<and> aF \<noteq> 0)"
| "computes (ZBL qi qj aF) = (qi \<noteq> 0 \<and> qj \<noteq> 0 \<and> aF \<noteq> 0)"
| "computes (LJGauss _ _ _) = True"
| "computes (OPP _ _ _ _ _ _) = True"
| "computes (TWF _ _ _) = True"
| "computes (Fourier _ _) = True"
| "computes (LJ s e) = (s \<noteq> 0 \<and> e \<noteq> 0)"
| "computes (ForceShiftedLJ s e) = (s \<noteq> 0 \<and> e \<noteq> 0)"
| "computes (LJ1208 s e) = (s \<noteq> 0 \<and> e \<noteq> 0)"
| "computes (LJ0804 s e) = (s \<noteq> 0 \<and> e \<noteq> 0)"
| "computes (ExpandedLJ s e _) = (s \<noteq> 0 \<and> e \<noteq> 0)"

fun admissible :: "pair_evaluator \<Rightarrow> bool" where
  "admissible (Gauss _ s) = (s \<noteq> 0)"
| "admissible (ExpandedGaussian _ s _) = (s \<noteq> 0)"
| "admissible (Mie _ s n m) = (0 < s \<and> 0 < m \<and> m < n)"
| "admissible (ExpandedMie _ s n m _) = (0 < s \<and> 0 < m \<and> m < n)"
| "admissible (ReactionField _ rf _ _ _) = (2 * rf + 1 \<noteq> 0)"
| "admissible (DLVO _ _ _ a1 a2) = (0 < a1 \<and> 0 < a2)"
| "admissible (LJGauss _ s _) = (s \<noteq> 0)"
| "admissible (TWF s _ a) = (0 < s \<and> a \<noteq> 0)"
| "admissible (Fourier a b) = (length a = 3 \<and> length b = 3)"
| "admissible _ = True"

fun shift_supported :: "pair_evaluator \<Rightarrow> bool" where
  "shift_supported (ZBL _ _ _) = False"
| "shift_supported (Fourier _ _) = False"
| "shift_supported _ = True"

fun min_distance :: "pair_evaluator \<Rightarrow> real" where
  "min_distance (ExpandedLJ _ _ d) = max 0 d"
| "min_distance (ExpandedMie _ _ _ _ d) = max 0 d"
| "min_distance (DLVO _ _ _ a1 a2) = max 0 (a1 + a2)"
| "min_distance (TWF s _ _) = max 0 s"
| "min_distance _ = 0"

text \<open>The force divided by the distance.\<close>

definition lj_force :: "real \<Rightarrow> real \<Rightarrow> real \<Rightarrow> real" where
  "lj_force s e r = 4 * e * (12 * s ^ 12 / r ^ 13 - 6 * s ^ 6 / r ^ 7)"

abbreviation contract :: "pair_evaluator \<Rightarrow> (real \<Rightarrow> real \<Rightarrow> real) \<Rightarrow> bool" where
  "contract p F \<equiv> pair_potential (evalForceAndEnergy p) (computes p) (admissible p) (shift_supported p) (min_distance p) (potential p) F"

section \<open>Every evaluator keeps the contract\<close>

lemma quotient_power_deriv:
  assumes "r \<noteq> (0 :: real)"
  shows "((\<lambda>r. (s / r) ^ Suc k) has_real_derivative - (real (Suc k) * s ^ Suc k / r ^ (k + 2))) (at r)"
proof -
  have "((\<lambda>r. s / r) has_real_derivative - (s / r\<^sup>2)) (at r)"
    using assms by (auto intro!: derivative_eq_intros simp: power2_eq_square)
  from DERIV_power_Suc [OF this, of k] show ?thesis
    by (simp add: power_divide power2_eq_square algebra_simps)
qed

lemma two_powers_deriv:
  assumes "r \<noteq> (0 :: real)"
  shows "((\<lambda>r. 4 * e * ((s / r) ^ Suc p - (s / r) ^ Suc q)) has_real_derivative
    - (4 * e * (real (Suc p) * s ^ Suc p / r ^ (p + 2) - real (Suc q) * s ^ Suc q / r ^ (q + 2)))) (at r)"
proof -
  have "((\<lambda>r. 4 * e * ((s / r) ^ Suc p - (s / r) ^ Suc q)) has_real_derivative
      4 * e * (- (real (Suc p) * s ^ Suc p / r ^ (p + 2)) - - (real (Suc q) * s ^ Suc q / r ^ (q + 2)))) (at r)"
    by (intro DERIV_cmult DERIV_diff quotient_power_deriv assms)
  then show ?thesis by (rule DERIV_cong) (simp add: algebra_simps)
qed

lemma lj_deriv:
  assumes "r \<noteq> 0"
  shows "(lj_energy s e has_real_derivative - lj_force s e r) (at r)"
  using two_powers_deriv [OF assms, of e s 11 5] by (simp add: lj_energy_def [abs_def] lj_force_def)

lemma LJ_contract: "contract (LJ s e) (\<lambda>c r. lj_force s e r / r)"
proof (unfold_locales, goal_cases)
  case (2 x c sh)
  then show ?case by (simp add: eval_LJ_def eval_simps lj_force_def lj_energy_def; simp add: field_simps power_numeral_reduce)
next
  case (3 x c sh)
  then show ?case by (auto simp: eval_LJ_def eval_simps)
next
  case (4 x c)
  then show ?case using lj_deriv [of x s e] by simp
qed simp

lemma ForceShiftedLJ_contract: "contract (ForceShiftedLJ s e) (\<lambda>c r. (lj_force s e r - lj_force s e c) / r)"
proof (unfold_locales, goal_cases)
  case (2 x c sh)
  have "rsqrt (x\<^sup>2 * c\<^sup>2) = 1 / (x * c)" using 2 rsqrt_sq [of "x * c"] by (simp add: power_mult_distrib)
  then show ?case using 2
    by (simp add: eval_ForceShiftedLJ_def eval_simps lj_force_def lj_energy_def; simp add: field_simps power_numeral_reduce)
next
  case (3 x c sh)
  then show ?case by (auto simp: eval_ForceShiftedLJ_def eval_simps)
next
  case (4 x c)
  have "((\<lambda>r. lj_energy s e r - (r - c) * - lj_force s e c) has_real_derivative - lj_force s e x - 1 * - lj_force s e c) (at x)"
    using 4 by (intro DERIV_diff lj_deriv DERIV_cmult_right) (auto intro!: derivative_eq_intros)
  then show ?case using 4 by (simp add: lj_force_def)
qed simp

lemma LJ1208_contract: "contract (LJ1208 s e) (\<lambda>c r. 4 * e * (12 * s ^ 12 / r ^ 13 - 8 * s ^ 8 / r ^ 9) / r)"
proof (unfold_locales, goal_cases)
  case (2 x c sh)
  then show ?case by (simp add: eval_LJ1208_def eval_simps; simp add: field_simps power_numeral_reduce)
next
  case (3 x c sh)
  then show ?case by (auto simp: eval_LJ1208_def eval_simps)
next
  case (4 x c)
  then show ?case using two_powers_deriv [of x e s 11 7] by simp
qed simp

lemma LJ0804_contract: "contract (LJ0804 s e) (\<lambda>c r. 4 * e * (8 * s ^ 8 / r ^ 9 - 4 * s ^ 4 / r ^ 5) / r)"
proof (unfold_locales, goal_cases)
  case (2 x c sh)
  then show ?case by (simp add: eval_LJ0804_def eval_simps; simp add: field_simps power_numeral_reduce)
next
  case (3 x c sh)
  then show ?case by (auto simp: eval_LJ0804_def eval_simps)
next
  case (4 x c)
  then show ?case using two_powers_deriv [of x e s 7 3] by simp
qed simp

text \<open>An expanded potential is a potential of the distance minus a constant.\<close>

lemma expanded_deriv:
  assumes "(f has_real_derivative D) (at (x - d))"
  shows "((\<lambda>r. f (r - d)) has_real_derivative D) (at (x :: real))"
proof -
  have "((\<lambda>r. r - d) has_real_derivative 1) (at x)" by (auto intro!: derivative_eq_intros)
  from DERIV_chain2 [where f = f and g = "\<lambda>r. r - d", OF assms this] show ?thesis by simp
qed

lemma ExpandedLJ_contract: "contract (ExpandedLJ s e d) (\<lambda>c r. lj_force s e (r - d) / r)"
proof (unfold_locales, goal_cases)
  case (2 x c sh)
  define y z where "y = x - d" "z = c - d"
  have "0 < y" "0 < z" using 2 by (auto simp: y_z_def)
  then show ?case using 2 unfolding evalForceAndEnergy.simps eval_ExpandedLJ_def potential.simps
    by (simp add: eval_simps lj_force_def lj_energy_def flip: y_z_def; simp add: field_simps power_numeral_reduce)
next
  case (3 x c sh)
  then show ?case by (auto simp: eval_ExpandedLJ_def eval_simps)
next
  case (4 x c)
  then show ?case using expanded_deriv [OF lj_deriv, of x d s e] by simp
qed simp

lemma Gauss_contract: "contract (Gauss e s) (\<lambda>c r. e / s\<^sup>2 * exp (- (1 / 2) * (r / s)\<^sup>2))"
proof (unfold_locales, goal_cases)
  case (2 x c sh)
  then show ?case by (simp add: eval_Gauss_def eval_simps; simp add: power_divide power2_eq_square)
next
  case (4 x c)
  then show ?case by (auto intro!: derivative_eq_intros simp: power2_eq_square field_simps)
qed (auto simp: eval_Gauss_def eval_simps)

lemma ExpandedGaussian_contract:
  "contract (ExpandedGaussian e s d) (\<lambda>c r. e / s\<^sup>2 * exp (- (1 / 2) * ((r - d) / s)\<^sup>2) * (r - d) / r)"
proof (unfold_locales, goal_cases)
  case (2 x c sh)
  then show ?case by (simp add: eval_ExpandedGaussian_def eval_simps; simp add: power_divide power2_eq_square)
next
  case (4 x c)
  then show ?case by (auto intro!: derivative_eq_intros simp: power2_eq_square field_simps)
qed (auto simp: eval_ExpandedGaussian_def eval_simps)

lemma Yukawa_contract: "contract (Yukawa e k) (\<lambda>c r. e * exp (- k * r) / r\<^sup>2 * (1 / r + k))"
proof (unfold_locales, goal_cases)
  case (2 x c sh)
  then show ?case by (simp add: eval_Yukawa_def eval_simps)
next
  case (4 x c)
  then show ?case by (auto intro!: derivative_eq_intros simp: power2_eq_square field_simps)
qed (auto simp: eval_Yukawa_def eval_simps)

lemma exp_double: "exp (- 2 * a * y) = exp (- a * y) * exp (- a * y :: real)"
  by (simp flip: exp_add)

lemma Morse_contract: "contract (Morse D0 a r0) (\<lambda>c r. 2 * D0 * a * exp (- a * (r - r0)) * (exp (- a * (r - r0)) - 1) / r)"
proof (unfold_locales, goal_cases)
  case (2 x c sh)
  then show ?case unfolding potential.simps evalForceAndEnergy.simps exp_double eval_Morse_def
    by (simp add: eval_simps; simp add: right_diff_distrib mult.assoc)
next
  case (4 x c)
  then show ?case unfolding potential.simps exp_double by (auto intro!: derivative_eq_intros simp: field_simps)
qed (auto simp: eval_Morse_def eval_simps)

lemma Buckingham_contract: "contract (Buckingham A rho C) (\<lambda>c r. A * exp (- r / rho) / (rho * r) - 6 * C / r ^ 8)"
proof (unfold_locales, goal_cases)
  case (2 x c sh)
  then show ?case by (simp add: eval_Buckingham_def eval_simps; simp add: field_simps power_numeral_reduce)
next
  case (4 x c)
  then show ?case by (auto intro!: derivative_eq_intros simp: field_simps power_numeral_reduce)
qed (auto simp: eval_Buckingham_def eval_simps)

text \<open>The Mie potential, as a function of the distance or of the reduced distance.\<close>

definition mie_energy :: "real \<Rightarrow> real \<Rightarrow> real \<Rightarrow> real \<Rightarrow> real \<Rightarrow> real" where
  "mie_energy e s n m r = mie_prefactor n m * e * ((s / r) powr n - (s / r) powr m)"

definition mie_force :: "real \<Rightarrow> real \<Rightarrow> real \<Rightarrow> real \<Rightarrow> real \<Rightarrow> real" where
  "mie_force e s n m r = mie_prefactor n m * e * (n * (s / r) powr n - m * (s / r) powr m) / r"

lemma powr_half:
  assumes "0 < (r :: real)"
  shows "(1 / r\<^sup>2) powr (n / 2) = r powr - n" "(1 / r * (1 / r)) powr (n / 2) = r powr - n" "(r\<^sup>2) powr - (n / 2) = r powr - n"
    "(r * r) powr - (n / 2) = r powr - n" "0 < s \<Longrightarrow> (s / r) powr n = s powr n * r powr - n"
proof -
  have h: "(r\<^sup>2) powr (n / 2) = r powr n" for n using assms powr_powr [of r 2 "n / 2"] by (simp add: powr_numeral)
  show 1: "(1 / r\<^sup>2) powr (n / 2) = r powr - n" using assms h [of n] by (simp add: powr_divide powr_minus_divide)
  then show "(1 / r * (1 / r)) powr (n / 2) = r powr - n" by (simp add: power2_eq_square)
  show 2: "(r\<^sup>2) powr - (n / 2) = r powr - n" using h [of "- n"] by simp
  then show "(r * r) powr - (n / 2) = r powr - n" by (simp add: power2_eq_square)
  show "0 < s \<Longrightarrow> (s / r) powr n = s powr n * r powr - n" using assms by (simp add: powr_divide powr_minus_divide)
qed

lemma quotient_powr_deriv:
  assumes "0 < r" "0 < s"
  shows "((\<lambda>r. (s / r) powr n) has_real_derivative - (n * (s / r) powr n / r)) (at r)"
proof -
  have d: "((\<lambda>r. s powr n * r powr - n) has_real_derivative s powr n * (- n * r powr (- n - 1))) (at r)"
    by (intro DERIV_cmult has_real_derivative_powr assms)
  have e: "s powr n * x powr - n = (s / x) powr n" if "x \<in> {0<..}" for x
    using that assms by (simp add: powr_half)
  have "((\<lambda>r. (s / r) powr n) has_real_derivative s powr n * (- n * r powr (- n - 1))) (at r)"
    by (rule has_field_derivative_transform_within_open [OF d open_greaterThan _ e]) (use assms in auto)
  then show ?thesis
    by (rule DERIV_cong) (use assms in \<open>simp add: powr_half powr_diff\<close>)
qed

lemma mie_deriv:
  assumes "0 < r" "0 < s"
  shows "(mie_energy e s n m has_real_derivative - mie_force e s n m r) (at r)"
proof -
  have "((\<lambda>r. mie_prefactor n m * e * ((s / r) powr n - (s / r) powr m)) has_real_derivative
      mie_prefactor n m * e * (- (n * (s / r) powr n / r) - - (m * (s / r) powr m / r))) (at r)"
    by (intro DERIV_cmult DERIV_diff quotient_powr_deriv assms)
  then show ?thesis unfolding mie_energy_def [abs_def]
    by (rule DERIV_cong) (use assms in \<open>simp add: mie_force_def field_simps\<close>)
qed

lemma Mie_contract: "contract (Mie e s n m) (\<lambda>c r. mie_force e s n m r / r)"
proof (unfold_locales, goal_cases)
  case (2 x c sh)
  have "0 < c" "0 < s" "0 < x" "x < c" "mie_prefactor n m * e * s powr n \<noteq> 0" using 2 by auto
  then show ?case unfolding evalForceAndEnergy.simps eval_Mie_def potential.simps mie_force_def
    by (simp add: eval_simps powr_half; simp add: field_simps power2_eq_square)
next
  case (4 x c)
  then show ?case using mie_deriv [of x s e n m] by (simp add: mie_energy_def [abs_def])
qed (auto simp: eval_Mie_def eval_simps)

lemma ExpandedMie_contract: "contract (ExpandedMie e s n m d) (\<lambda>c r. mie_force e s n m (r - d) / r)"
proof (unfold_locales, goal_cases)
  case (2 x c sh)
  define y z where "y = x - d" "z = c - d"
  have h: "0 < y" "0 < z" "0 < x" "0 < c" "x < c" "0 < s" using 2 by (auto simp: y_z_def)
  show ?case using 2 h unfolding evalForceAndEnergy.simps eval_ExpandedMie_def potential.simps mie_force_def
    by (simp add: eval_simps powr_half flip: y_z_def; simp add: field_simps)
next
  case (4 x c)
  then show ?case using expanded_deriv [OF mie_deriv, of x d s e n m] by (simp add: mie_energy_def [abs_def])
qed (auto simp: eval_ExpandedMie_def eval_simps)

lemma ReactionField_contract:
  "contract (ReactionField e rf u qi qj) (\<lambda>c r. charge_product u qi qj * e * (1 / r ^ 3
     - 2 * (if rf = 0 then 1 / 2 else (rf - 1) / (2 * rf + 1)) / c ^ 3))"
proof (unfold_locales, goal_cases)
  case (2 x c sh)
  define f where "f = (if rf = 0 then 1 / 2 else (rf - 1) / (2 * rf + 1))"
  have f: "(if rf = 0 then 1 / 2 * k else (rf - 1) / (2 * rf + 1) * k) = f * k" for k by (simp add: f_def)
  show ?case using 2 unfolding evalForceAndEnergy.simps eval_ReactionField_def potential.simps f
    by (simp add: eval_simps flip: f_def; simp add: power2_eq_square power3_eq_cube)
next
  case (4 x c)
  define f where "f = (if rf = 0 then 1 / 2 else (rf - 1) / (2 * rf + 1))"
  show ?case using 4 unfolding potential.simps f_def [symmetric]
    by (auto intro!: derivative_eq_intros simp: field_simps power2_eq_square power3_eq_cube)
qed (auto simp: eval_ReactionField_def eval_simps)

lemma LJGauss_contract:
  "contract (LJGauss e s r0) (\<lambda>c r. 12 / r ^ 14 - 12 / r ^ 8 - e * exp (- (r - r0)\<^sup>2 / (2 * s\<^sup>2)) * ((r - r0) / s\<^sup>2) / r)"
proof (unfold_locales, goal_cases)
  case (2 x c sh)
  have e: "exp (- (1 / 2) * ((y - r0) / (s * s)) * (y - r0)) = exp (- (y - r0)\<^sup>2 / (2 * s\<^sup>2))"
    "exp (- (1 / 2) * (y - r0) * (y - r0) / (s * s)) = exp (- (y - r0)\<^sup>2 / (2 * s\<^sup>2))" for y
    by (simp_all add: power2_eq_square)
  have "\<not> c\<^sup>2 \<le> x\<^sup>2" using 2 sq_less [of x c] by simp
  then show ?case using 2 unfolding evalForceAndEnergy.simps eval_LJGauss_def potential.simps
    by (simp add: Let_def e del: mult_minus_left; simp add: field_simps power_numeral_reduce)
next
  case (4 x c)
  then show ?case unfolding potential.simps
    by (auto intro!: derivative_eq_intros simp: field_simps power_numeral_reduce)
qed (auto simp: eval_LJGauss_def eval_simps not_less)

lemma OPP_contract:
  "contract (OPP C1 C2 eta1 eta2 k phi) (\<lambda>c r. ((C1 * r powr (- eta1) * eta1 + C2 * r powr (- eta2) * cos (k * r - phi) * eta2) / r
     + C2 * k * r powr (- eta2) * sin (k * r - phi)) / r)"
proof (unfold_locales, goal_cases)
  case (2 x c sh)
  then show ?case by (simp add: eval_OPP_def eval_simps)
next
  case (4 x c)
  then show ?case unfolding potential.simps
    by (auto intro!: derivative_eq_intros has_real_derivative_powr simp: field_simps powr_diff powr_minus)
qed (auto simp: eval_OPP_def eval_simps)

text \<open>The potentials of Moliere and ZBL: a Coulomb term screened by a weighted sum of exponentials.\<close>

definition screening :: "(real \<times> real) list \<Rightarrow> real \<Rightarrow> real \<Rightarrow> real" where
  "screening ws a r = (\<Sum>(w, k)\<leftarrow>ws. w * exp (- k * (r / a)))"

definition screening_slope :: "(real \<times> real) list \<Rightarrow> real \<Rightarrow> real \<Rightarrow> real" where
  "screening_slope ws a r = (\<Sum>(w, k)\<leftarrow>ws. k * (w * exp (- k * (r / a))))"

lemma screening_deriv: "a \<noteq> 0 \<Longrightarrow> (screening ws a has_real_derivative - (1 / a * screening_slope ws a r)) (at r)"
proof (induction ws)
  case (Cons wk ws)
  obtain w k where wk: "wk = (w, k)" by force
  have "((\<lambda>r. w * exp (- k * (r / a)) + screening ws a r) has_real_derivative
      - (1 / a * (k * (w * exp (- k * (r / a))))) + - (1 / a * screening_slope ws a r)) (at r)"
    using Cons by (intro DERIV_add) (auto intro!: derivative_eq_intros)
  then show ?case by (simp add: screening_def [abs_def] screening_slope_def wk algebra_simps)
qed (simp add: screening_def [abs_def] screening_slope_def)

lemma screened_deriv:
  assumes "r \<noteq> 0" "a \<noteq> 0"
  shows "((\<lambda>r. Z / r * screening ws a r) has_real_derivative
    - (Z / r\<^sup>2 * (1 / r * screening ws a r + 1 / a * screening_slope ws a r) * r)) (at r)"
  using assms by (auto intro!: derivative_eq_intros screening_deriv simp: power2_eq_square field_simps)

lemma screening_exp:
  assumes "0 < x"
  shows "exp (- p / q / a / rsqrt (x\<^sup>2)) = exp (- (p / q) * (x / a))" "exp (- p / a / rsqrt (x\<^sup>2)) = exp (- p * (x / a))"
  using assms by (simp_all add: rsqrt_sq)

definition moliere_terms :: "(real \<times> real) list" where
  "moliere_terms = [(35 / 100, 3 / 10), (55 / 100, 12 / 10), (1 / 10, 6)]"

definition zbl_terms :: "(real \<times> real) list" where
  "zbl_terms = [(1818 / 10000, 32 / 10), (5099 / 10000, 9423 / 10000), (2802 / 10000, 4029 / 10000), (2817 / 100000, 2016 / 10000)]"

lemma screening_unfold:
  "screening moliere_terms a r = 35 / 100 * exp (- (3 / 10) * (r / a)) + 55 / 100 * exp (- (12 / 10) * (r / a))
     + 1 / 10 * exp (- 6 * (r / a))"
  "screening_slope moliere_terms a r = 3 / 10 * (35 / 100 * exp (- (3 / 10) * (r / a)))
     + 12 / 10 * (55 / 100 * exp (- (12 / 10) * (r / a))) + 6 * (1 / 10 * exp (- 6 * (r / a)))"
  "screening zbl_terms a r = 1818 / 10000 * exp (- (32 / 10) * (r / a)) + 5099 / 10000 * exp (- (9423 / 10000) * (r / a))
     + 2802 / 10000 * exp (- (4029 / 10000) * (r / a)) + 2817 / 100000 * exp (- (2016 / 10000) * (r / a))"
  "screening_slope zbl_terms a r = 32 / 10 * (1818 / 10000 * exp (- (32 / 10) * (r / a)))
     + 9423 / 10000 * (5099 / 10000 * exp (- (9423 / 10000) * (r / a)))
     + 4029 / 10000 * (2802 / 10000 * exp (- (4029 / 10000) * (r / a)))
     + 2016 / 10000 * (2817 / 100000 * exp (- (2016 / 10000) * (r / a)))"
  by (simp_all only: screening_def screening_slope_def moliere_terms_def zbl_terms_def list.map sum_list_simps prod.case
      add_0_right add.assoc)

lemma Moliere_contract:
  "contract (Moliere qi qj aF) (\<lambda>c r. qi * qj / r\<^sup>2 * (1 / r * screening moliere_terms aF r + 1 / aF * screening_slope moliere_terms aF r))"
proof (unfold_locales, goal_cases)
  case (2 x c sh)
  then have h: "0 < x" "0 < c" "x < c" by auto
  show ?case using 2 h
    unfolding evalForceAndEnergy.simps eval_Moliere_def Let_def screening_exp [OF h(1)] screening_exp [OF h(2)] potential.simps
      screening_unfold(1) [symmetric] screening_unfold(2) [symmetric]
    by (simp add: eval_simps mult.commute)
next
  case (4 x c)
  then show ?case using screened_deriv [of x aF "qi * qj" moliere_terms]
    unfolding potential.simps screening_unfold(1) [symmetric] by simp
qed (auto simp: eval_Moliere_def eval_simps)

lemma ZBL_contract:
  "contract (ZBL qi qj aF) (\<lambda>c r. qi * qj / r\<^sup>2 * (1 / r * screening zbl_terms aF r + 1 / aF * screening_slope zbl_terms aF r))"
proof (unfold_locales, goal_cases)
  case (2 x c sh)
  then have h: "0 < x" "0 < c" "x < c" by auto
  show ?case using 2 h
    unfolding evalForceAndEnergy.simps eval_ZBL_def Let_def screening_exp [OF h(1)] potential.simps
      screening_unfold(3) [symmetric] screening_unfold(4) [symmetric]
    by (simp add: eval_simps mult.commute)
next
  case (4 x c)
  then show ?case using screened_deriv [of x aF "qi * qj" zbl_terms]
    unfolding potential.simps screening_unfold(3) [symmetric] by simp
qed (auto simp: eval_ZBL_def eval_simps)

lemma TWF_contract:
  "contract (TWF s e a) (\<lambda>c r. 4 * e / a\<^sup>2 * (6 / s\<^sup>2) * (2 / ((r / s)\<^sup>2 - 1) ^ 7 - a / ((r / s)\<^sup>2 - 1) ^ 4))"
proof (unfold_locales, goal_cases)
  case (2 x c sh)
  define u v where "u = (x / s)\<^sup>2 - 1" "v = (c / s)\<^sup>2 - 1"
  have h: "0 < x" "0 < c" "0 < s" "s < x" "x < c" using 2 by auto
  then have uv: "u \<noteq> 0" "v \<noteq> 0" and q: "x\<^sup>2 / (s * s) - 1 = u" "c\<^sup>2 / (s * s) - 1 = v" and n: "\<not> x\<^sup>2 \<le> s * s"
    using sq_less [of s x] sq_less [of s c] by (auto simp: u_v_def power_divide field_simps power2_eq_square)
  show ?case using 2 h uv unfolding evalForceAndEnergy.simps eval_TWF_def potential.simps u_v_def [symmetric]
    by (simp add: eval_simps q n; simp add: field_simps power_numeral_reduce)
next
  case (4 x c)
  define u where "u = (\<lambda>r. (r / s)\<^sup>2 - 1)"
  have "u x \<noteq> 0" using 4 sq_less [of s x] by (auto simp: u_def power_divide field_simps)
  moreover have "(u has_real_derivative 2 * x / s\<^sup>2) (at x)"
    using 4 unfolding u_def by (auto intro!: derivative_eq_intros simp: power2_eq_square field_simps)
  ultimately show ?case using 4 unfolding potential.simps fun_cong [OF u_def, symmetric]
    by (auto intro!: derivative_eq_intros simp: field_simps power_numeral_reduce)
qed (auto simp: eval_TWF_def eval_simps)

text \<open>The attraction of the DLVO potential in terms of the denominators \<open>P\<close> and \<open>Q = P + 4 t\<close>, where \<open>t\<close> is the product of the
  radii.\<close>

lemma dlvo_attraction:
  assumes "P \<noteq> 0" "Q \<noteq> 0" "Q = P + 4 * (t :: real)"
  shows "- (A / 6) * (- (2 * t * (2 * r)) / P\<^sup>2 + - (2 * t * (2 * r)) / Q\<^sup>2 + (2 * r / P - 2 * r / Q)) = 32 * A / 3 * t ^ 3 / (P * Q)\<^sup>2 * r"
proof -
  have "2 * r / P - 2 * r / Q = 8 * t * r / (P * Q)" using assms(1,2) by (simp add: assms(3) field_simps)
  moreover have "- (2 * t * (2 * r)) / P\<^sup>2 + - (2 * t * (2 * r)) / Q\<^sup>2 + 8 * t * r / (P * Q) = - (4 * t * r * (Q - P)\<^sup>2 / (P * Q)\<^sup>2)"
    using assms(1,2) by (simp add: field_simps power2_eq_square)
  ultimately show ?thesis by (simp add: assms(3) power2_eq_square power3_eq_cube)
qed

definition dlvo_force :: "real \<Rightarrow> real \<Rightarrow> real \<Rightarrow> real \<Rightarrow> real \<Rightarrow> real \<Rightarrow> real" where
  "dlvo_force k Z A a1 a2 r = k * (a1 * a2 / (a1 + a2) * Z * exp (- k * (r - (a1 + a2)))) / r
     - 32 * A / 3 * (a1 * a2) ^ 3 / ((r\<^sup>2 - (a1 + a2)\<^sup>2) * (r\<^sup>2 - (a1 - a2)\<^sup>2))\<^sup>2"

lemma dlvo_denominators:
  assumes "0 < a1" "0 < a2" "a1 + a2 < (r :: real)"
  shows "0 < r\<^sup>2 - (a1 + a2)\<^sup>2" "0 < r\<^sup>2 - (a1 - a2)\<^sup>2" "r\<^sup>2 - (a1 - a2)\<^sup>2 = r\<^sup>2 - (a1 + a2)\<^sup>2 + 4 * (a1 * a2)"
proof -
  show 1: "0 < r\<^sup>2 - (a1 + a2)\<^sup>2" using assms sq_less [of "a1 + a2" r] by simp
  show e: "r\<^sup>2 - (a1 - a2)\<^sup>2 = r\<^sup>2 - (a1 + a2)\<^sup>2 + 4 * (a1 * a2)" by (simp add: power2_eq_square algebra_simps)
  show "0 < r\<^sup>2 - (a1 - a2)\<^sup>2" using 1 assms mult_pos_pos [OF assms(1,2)] unfolding e by linarith
qed

lemma dlvo_deriv:
  assumes "0 < a1" "0 < a2" "a1 + a2 < r"
  shows "(potential (DLVO k Z A a1 a2) c has_real_derivative - (dlvo_force k Z A a1 a2 r * r)) (at r)"
proof -
  define P Q where "P = (\<lambda>r. r\<^sup>2 - (a1 + a2)\<^sup>2)" "Q = (\<lambda>r. r\<^sup>2 - (a1 - a2)\<^sup>2)"
  define t where "t = a1 * a2"
  note d = dlvo_denominators [OF assms]
  have pos: "0 < P r" "0 < Q r" "Q r = P r + 4 * t" "0 < r" using d assms by (simp_all add: P_Q_def t_def)
  have P: "(P has_real_derivative 2 * r) (at r)" and Q: "(Q has_real_derivative 2 * r) (at r)"
    unfolding P_Q_def by (auto intro!: derivative_eq_intros)
  have dP: "((\<lambda>r. 2 * t / P r) has_real_derivative - (2 * t * (2 * r)) / (P r)\<^sup>2) (at r)"
    and dQ: "((\<lambda>r. 2 * t / Q r) has_real_derivative - (2 * t * (2 * r)) / (Q r)\<^sup>2) (at r)"
    using pos by (auto intro!: derivative_eq_intros P Q simp: power2_eq_square)
  have ln: "((\<lambda>r. ln (P r / Q r)) has_real_derivative 2 * r / P r - 2 * r / Q r) (at r)"
    using pos(1,2) by (auto intro!: derivative_eq_intros P Q simp: field_simps)
  have rep: "((\<lambda>r. t / (a1 + a2) * Z * exp (- k * (r - (a1 + a2)))) has_real_derivative
      - (k * (t / (a1 + a2) * Z * exp (- k * (r - (a1 + a2)))))) (at r)"
    using assms by (auto intro!: derivative_eq_intros)
  have "((\<lambda>r. - (A / 6) * (2 * t / P r + 2 * t / Q r + ln (P r / Q r)) + t / (a1 + a2) * Z * exp (- k * (r - (a1 + a2)))) has_real_derivative
      - (A / 6) * (- (2 * t * (2 * r)) / (P r)\<^sup>2 + - (2 * t * (2 * r)) / (Q r)\<^sup>2 + (2 * r / P r - 2 * r / Q r))
      + - (k * (t / (a1 + a2) * Z * exp (- k * (r - (a1 + a2)))))) (at r)"
    by (intro DERIV_add DERIV_cmult dP dQ ln rep)
  then have "((\<lambda>r. - (A / 6) * (2 * t / P r + 2 * t / Q r + ln (P r / Q r)) + t / (a1 + a2) * Z * exp (- k * (r - (a1 + a2)))) has_real_derivative
      - (dlvo_force k Z A a1 a2 r * r)) (at r)"
    by (rule DERIV_cong) (use pos dlvo_attraction [of "P r" "Q r" t A r] in
      \<open>simp add: dlvo_force_def left_diff_distrib flip: t_def fun_cong [OF P_Q_def(1)] fun_cong [OF P_Q_def(2)]\<close>)
  then show ?thesis unfolding potential.simps by (simp add: P_Q_def t_def mult.assoc)
qed

lemma DLVO_contract: "contract (DLVO k Z A a1 a2) (\<lambda>c. dlvo_force k Z A a1 a2)"
proof (unfold_locales, goal_cases)
  case (2 x c sh)
  then have h: "0 < a1" "0 < a2" "a1 + a2 < x" "a1 + a2 < c" "0 < x" "0 < c" "x < c" "k \<noteq> 0" by auto
  have f: "x * x * x * x + (a1 * a1 - a2 * a2) * (a1 * a1 - a2 * a2) - 2 * x * x * (a1 * a1 + a2 * a2)
      = (x\<^sup>2 - (a1 + a2)\<^sup>2) * (x\<^sup>2 - (a1 - a2)\<^sup>2)" by (simp add: power2_eq_square algebra_simps)
  have r: "1 / rsqrt (x\<^sup>2) = x" "1 / rsqrt (c\<^sup>2) = c" using h by (simp_all add: rsqrt_sq)
  define P Q where "P y = y\<^sup>2 - (a1 + a2)\<^sup>2" and "Q y = y\<^sup>2 - (a1 - a2)\<^sup>2" for y
  have PQ: "y * y - (a1 + a2) * (a1 + a2) = P y" "y * y - (a1 - a2) * (a1 - a2) = Q y" for y
    by (simp_all add: P_def Q_def power2_eq_square)
  show ?case using h
    unfolding evalForceAndEnergy.simps eval_DLVO_def potential.simps dlvo_force_def Let_def r f PQ P_def [symmetric] Q_def [symmetric]
    by (simp add: power2_eq_square power3_eq_cube; simp add: algebra_simps add_divide_distrib)
next
  case (3 x c sh)
  then show ?case by (auto simp: eval_DLVO_def eval_simps)
next
  case (4 x c)
  then show ?case using dlvo_deriv [of a1 a2 x k Z A c] by simp
qed simp

text \<open>The Fourier series and the negative of its derivative by the phase, with the coefficients of the first terms.\<close>

definition series :: "real list \<Rightarrow> real list \<Rightarrow> real \<Rightarrow> real" where
  "series a b x = (a ! 0 - a ! 1 + a ! 2) * cos x + (2 * b ! 0 - 3 * b ! 1 + 4 * b ! 2) * sin x
     + (a ! 0 * cos (2 * x) + b ! 0 * sin (2 * x)) + (a ! 1 * cos (3 * x) + b ! 1 * sin (3 * x)) + (a ! 2 * cos (4 * x) + b ! 2 * sin (4 * x))"

definition series_slope :: "real list \<Rightarrow> real list \<Rightarrow> real \<Rightarrow> real" where
  "series_slope a b x = (a ! 0 - a ! 1 + a ! 2) * sin x - (2 * b ! 0 - 3 * b ! 1 + 4 * b ! 2) * cos x
     + (a ! 0 * 2 * sin (2 * x) - b ! 0 * 2 * cos (2 * x)) + (a ! 1 * 3 * sin (3 * x) - b ! 1 * 3 * cos (3 * x))
     + (a ! 2 * 4 * sin (4 * x) - b ! 2 * 4 * cos (4 * x))"

lemma series_deriv: "(series a b has_real_derivative - series_slope a b x) (at x)"
  unfolding series_def [abs_def] series_slope_def by (auto intro!: derivative_eq_intros)

lemma fourier_potential: "potential (Fourier a b) c = (\<lambda>r. 1 / r ^ 12 + 1 / r\<^sup>2 * series a b (r * (pi / c)))"
  by (simp add: fun_eq_iff series_def eval_nat_numeral sum.atLeast_Suc_atMost algebra_simps)

lemma Fourier_contract:
  "contract (Fourier a b) (\<lambda>c r. (12 / r ^ 13 + pi / c * series_slope a b (r * (pi / c)) / r\<^sup>2 + 2 * series a b (r * (pi / c)) / r ^ 3) / r)"
proof (unfold_locales, goal_cases)
  case (2 x c sh)
  define y where "y = x * (pi / c)"
  have f: "fourier_first a b = (a ! 0 - a ! 1 + a ! 2, 2 * b ! 0 - 3 * b ! 1 + 4 * b ! 2)"
    by (simp add: fourier_first_def)
  have s: "sqrt (x\<^sup>2) = x" "sqrt (c\<^sup>2) = c" "x\<^sup>2 < c\<^sup>2" using 2 sq_less [of x c] by auto
  have l: "foldl (\<lambda>(p, g) i. let s = sin (real i * y); k = cos (real i * y)
        in (p + (a ! (i - 2) * k + b ! (i - 2) * s), g + (a ! (i - 2) * real i * s - b ! (i - 2) * real i * k)))
      ((a ! 0 - a ! 1 + a ! 2) * cos y + (2 * b ! 0 - 3 * b ! 1 + 4 * b ! 2) * sin y,
       (a ! 0 - a ! 1 + a ! 2) * sin y - (2 * b ! 0 - 3 * b ! 1 + 4 * b ! 2) * cos y) [2, 3, 4] = (series a b y, series_slope a b y)"
    by (simp add: series_def series_slope_def Let_def)
  show ?case unfolding evalForceAndEnergy.simps eval_Fourier_def fourier_potential
    using 2 by (simp only: s f Let_def prod.case if_True y_def [symmetric] l [unfolded Let_def] shift_supported.simps if_False simp_thms diff_0_right)
      (simp add: field_simps power_numeral_reduce)
next
  case (4 x c)
  have "((\<lambda>r. r * (pi / c)) has_real_derivative pi / c) (at x)" using 4 by (auto intro!: derivative_eq_intros)
  note d = DERIV_chain2 [where f = "series a b" and g = "\<lambda>r. r * (pi / c)", OF series_deriv this]
  have x: "x \<noteq> 0" using 4 by simp
  have "((\<lambda>r. (1 / r) ^ Suc 11 + (1 / r) ^ Suc 1 * series a b (r * (pi / c))) has_real_derivative
      - (real (Suc 11) * 1 ^ Suc 11 / x ^ (11 + 2)) + (- (real (Suc 1) * 1 ^ Suc 1 / x ^ (1 + 2)) * series a b (x * (pi / c))
      + - series_slope a b (x * (pi / c)) * (pi / c) * (1 / x) ^ Suc 1)) (at x)"
    by (intro DERIV_add DERIV_mult quotient_power_deriv x d)
  then have "((\<lambda>r. (1 / r) ^ Suc 11 + (1 / r) ^ Suc 1 * series a b (r * (pi / c))) has_real_derivative
      - ((12 / x ^ 13 + pi / c * series_slope a b (x * (pi / c)) / x\<^sup>2 + 2 * series a b (x * (pi / c)) / x ^ 3) / x * x)) (at x)"
    by (rule DERIV_cong) (use x in \<open>simp add: power2_eq_square power3_eq_cube mult.commute\<close>)
  then show ?case unfolding fourier_potential by (simp add: power_one_over numeral_2_eq_2)
next
  case (3 x c sh)
  then show ?case by (auto simp: eval_Fourier_def eval_simps)
qed simp

section \<open>All evaluators\<close>

fun pair_force :: "pair_evaluator \<Rightarrow> real \<Rightarrow> real \<Rightarrow> real" where
  "pair_force (LJ s e) = (\<lambda>c r. lj_force s e r / r)"
| "pair_force (ForceShiftedLJ s e) = (\<lambda>c r. (lj_force s e r - lj_force s e c) / r)"
| "pair_force (LJ1208 s e) = (\<lambda>c r. 4 * e * (12 * s ^ 12 / r ^ 13 - 8 * s ^ 8 / r ^ 9) / r)"
| "pair_force (LJ0804 s e) = (\<lambda>c r. 4 * e * (8 * s ^ 8 / r ^ 9 - 4 * s ^ 4 / r ^ 5) / r)"
| "pair_force (ExpandedLJ s e d) = (\<lambda>c r. lj_force s e (r - d) / r)"
| "pair_force (Gauss e s) = (\<lambda>c r. e / s\<^sup>2 * exp (- (1 / 2) * (r / s)\<^sup>2))"
| "pair_force (ExpandedGaussian e s d) = (\<lambda>c r. e / s\<^sup>2 * exp (- (1 / 2) * ((r - d) / s)\<^sup>2) * (r - d) / r)"
| "pair_force (Yukawa e k) = (\<lambda>c r. e * exp (- k * r) / r\<^sup>2 * (1 / r + k))"
| "pair_force (Morse D0 a r0) = (\<lambda>c r. 2 * D0 * a * exp (- a * (r - r0)) * (exp (- a * (r - r0)) - 1) / r)"
| "pair_force (Buckingham A rho C) = (\<lambda>c r. A * exp (- r / rho) / (rho * r) - 6 * C / r ^ 8)"
| "pair_force (Mie e s n m) = (\<lambda>c r. mie_force e s n m r / r)"
| "pair_force (ExpandedMie e s n m d) = (\<lambda>c r. mie_force e s n m (r - d) / r)"
| "pair_force (ReactionField e rf u qi qj) = (\<lambda>c r. charge_product u qi qj * e * (1 / r ^ 3
     - 2 * (if rf = 0 then 1 / 2 else (rf - 1) / (2 * rf + 1)) / c ^ 3))"
| "pair_force (DLVO k Z A a1 a2) = (\<lambda>c. dlvo_force k Z A a1 a2)"
| "pair_force (Moliere qi qj aF) = (\<lambda>c r. qi * qj / r\<^sup>2 * (1 / r * screening moliere_terms aF r + 1 / aF * screening_slope moliere_terms aF r))"
| "pair_force (ZBL qi qj aF) = (\<lambda>c r. qi * qj / r\<^sup>2 * (1 / r * screening zbl_terms aF r + 1 / aF * screening_slope zbl_terms aF r))"
| "pair_force (LJGauss e s r0) = (\<lambda>c r. 12 / r ^ 14 - 12 / r ^ 8 - e * exp (- (r - r0)\<^sup>2 / (2 * s\<^sup>2)) * ((r - r0) / s\<^sup>2) / r)"
| "pair_force (OPP C1 C2 eta1 eta2 k phi) = (\<lambda>c r. ((C1 * r powr (- eta1) * eta1 + C2 * r powr (- eta2) * cos (k * r - phi) * eta2) / r
     + C2 * k * r powr (- eta2) * sin (k * r - phi)) / r)"
| "pair_force (TWF s e a) = (\<lambda>c r. 4 * e / a\<^sup>2 * (6 / s\<^sup>2) * (2 / ((r / s)\<^sup>2 - 1) ^ 7 - a / ((r / s)\<^sup>2 - 1) ^ 4))"
| "pair_force (Fourier a b) = (\<lambda>c r. (12 / r ^ 13 + pi / c * series_slope a b (r * (pi / c)) / r\<^sup>2 + 2 * series a b (r * (pi / c)) / r ^ 3) / r)"

lemmas contracts = LJ_contract ForceShiftedLJ_contract LJ1208_contract LJ0804_contract ExpandedLJ_contract Gauss_contract
  ExpandedGaussian_contract Yukawa_contract Morse_contract Buckingham_contract Mie_contract ExpandedMie_contract
  ReactionField_contract DLVO_contract Moliere_contract ZBL_contract LJGauss_contract OPP_contract TWF_contract Fourier_contract

lemma pair_contract: "contract p (pair_force p)"
  by (cases p; simp only: pair_force.simps contracts)

interpretation pp: pair_potential "evalForceAndEnergy p" "computes p" "admissible p" "shift_supported p" "min_distance p"
  "potential p" "pair_force p" for p
  by (rule pair_contract)

section \<open>Properties\<close>

text \<open>C34: Inside the cutoff every pair potential evaluator returns as force divided by the distance exactly the negative
  derivative of the energy it returns, divided by the distance, with and without a shift of the energy.  The energy is the documented
  one, minus its value at the cutoff if a shift is requested, with two exceptions that the statement names: the formula of \<open>TWF\<close>
  differs from its documentation, and \<open>ZBL\<close> and \<open>Fourier\<close> ignore a requested shift.\<close>

theorem pair_force_correct:
  assumes "admissible p" "computes p" "min_distance p < r" "r < c"
  shows "\<exists>f e. evalForceAndEnergy p (r\<^sup>2) (c\<^sup>2) s = Evaluated f e \<and>
    ((\<lambda>x. pair_eng (evalForceAndEnergy p (x\<^sup>2) (c\<^sup>2) s)) has_real_derivative - (f * r)) (at r) \<and>
    (documented p \<and> (s \<longrightarrow> shift_supported p) \<longrightarrow> e = potential p c r - (if s then potential p c c else 0))"
  using pp.eval_inside [OF assms, of s] pp.force_is_derivative [OF assms, of s] by auto

theorem pair_force_correct_witness:
  "((\<lambda>x. pair_eng (evalForceAndEnergy (LJ 1 1) (x\<^sup>2) (2\<^sup>2) False)) has_real_derivative - 24) (at 1) \<and> potential (LJ 1 1) 2 1 = 0"
proof -
  have e: "evalForceAndEnergy (LJ 1 1) (1\<^sup>2) (2\<^sup>2) False = Evaluated 24 0" by (simp add: eval_LJ_def Let_def)
  show ?thesis using pair_force_correct [of "LJ 1 1" 1 2 False] unfolding e by auto
qed

text \<open>With the energy shift the energy tends to zero at the cutoff, and from the cutoff on nothing is computed, so that
  the energy is continuous there, for every evaluator that supports the shift.\<close>

theorem pair_shift_continuous:
  assumes "admissible p" "computes p" "shift_supported p" "min_distance p < c"
  shows "((\<lambda>x. pair_eng (evalForceAndEnergy p (x\<^sup>2) (c\<^sup>2) True)) \<longlongrightarrow> 0) (at_left c) \<and>
    (\<forall>x\<ge>c. evalForceAndEnergy p (x\<^sup>2) (c\<^sup>2) True = Skipped)"
proof -
  have c: "0 < c" using pp.lo_nonneg [of p] assms(4) by simp
  have "evalForceAndEnergy p (x\<^sup>2) (c\<^sup>2) True = Skipped" if "c \<le> x" for x
    using pp.eval_outside [of x c p True] that c by simp
  then show ?thesis using pp.shifted_energy_vanishes [OF assms] by blast
qed

theorem pair_shift_continuous_witness:
  "((\<lambda>x. pair_eng (evalForceAndEnergy (TWF 1 1 50) (x\<^sup>2) (3\<^sup>2) True)) \<longlongrightarrow> 0) (at_left 3) \<and>
    evalForceAndEnergy (TWF 1 1 50) (4\<^sup>2) (3\<^sup>2) True = Skipped"
proof -
  have "((\<lambda>x. pair_eng (evalForceAndEnergy (TWF 1 1 50) (x\<^sup>2) (3\<^sup>2) True)) \<longlongrightarrow> 0) (at_left 3) \<and>
      (\<forall>x\<ge>3. evalForceAndEnergy (TWF 1 1 50) (x\<^sup>2) (3\<^sup>2) True = Skipped)"
    by (rule pair_shift_continuous) simp_all
  then show ?thesis using order.refl by (auto elim: allE [of _ 4])
qed

end
