(* ===== verification/PotentialPair.thy ===== *)
theory PotentialPair
  imports PairForces ParticleData
begin

text \<open>
  Model of \<open>hoomd/md/PotentialPair.h\<close>: the parameters of a pair potential per pair of types, and the loop that computes
  forces, energies and virials from the neighbour list, the particle data, the box and an evaluator.  The neighbour list after its
  update is an argument, types are given by their index, and quantities are exact real numbers, so that division by zero (particles
  at the same place) is not treated.  The proofs are in \<open>PairSums\<close>.
\<close>

section \<open>State and parameters\<close>

datatype shift_mode = No_shift | Shift | Xplor

text \<open>Force, energy and the six components of the virial of a particle.\<close>

datatype pforce = PForce (pf_f: scalar3) (pf_e: real) (pf_v1: scalar3) (pf_v2: scalar3)

instantiation pforce :: "{zero, plus}"
begin
definition zero_pforce :: pforce where
  "zero_pforce = PForce 0 0 0 0"
definition plus_pforce :: "pforce \<Rightarrow> pforce \<Rightarrow> pforce" where
  "plus_pforce a b = PForce (pf_f a + pf_f b) (pf_e a + pf_e b) (pf_v1 a + pf_v1 b) (pf_v2 a + pf_v2 b)"
instance ..
end

text \<open>\<open>pp_rcut_notified\<close> counts the notifications of the neighbour list.\<close>

record potential_pair =
  pp_shift_mode :: shift_mode
  pp_ntypes :: nat
  pp_rcutsq :: "real list"
  pp_ronsq :: "real list"
  pp_params :: "pair_evaluator list"
  pp_tail_correction :: bool
  pp_r_cut_nlist :: "real list"
  pp_num_particles_by_type :: "nat list"
  pp_rcut_notified :: nat
  pp_force :: "pforce list"
  pp_external_energy :: real
  pp_external_virial :: "real list"

definition typpair_idx :: "potential_pair \<Rightarrow> nat \<Rightarrow> nat \<Rightarrow> nat" where
  "typpair_idx P i j = j * pp_ntypes P + i"

text \<open>The particles of each type on this rank.  With a domain decomposition the constructor adds up the numbers of all ranks; that
  reduction is not modelled.\<close>

definition count_types :: "particle_data \<Rightarrow> nat list" where
  "count_types d = foldl (\<lambda>c i. let t = p_type (ptl d ! i) in c[t := c ! t + 1]) (replicate (getNTypes d) 0) [0..<m_nparticles d]"

text \<open>\<open>param\<close> is the evaluator with the parameters of the default constructor; \<open>n_force\<close> is the size of the force array.
  The constructor is modelled without a domain decomposition.\<close>

definition PotentialPair :: "pair_evaluator \<Rightarrow> nat \<Rightarrow> particle_data \<Rightarrow> potential_pair" where
  "PotentialPair param n_force d = (let n = getNTypes d in
     \<lparr>pp_shift_mode = No_shift, pp_ntypes = n, pp_rcutsq = replicate (n * n) 0, pp_ronsq = replicate (n * n) 0,
      pp_params = replicate (n * n) param, pp_tail_correction = False, pp_r_cut_nlist = replicate (n * n) 0,
      pp_num_particles_by_type = count_types d,
      pp_rcut_notified = 0, pp_force = replicate n_force 0, pp_external_energy = 0, pp_external_virial = replicate 6 0\<rparr>)"

definition validateTypes :: "string \<Rightarrow> nat \<Rightarrow> nat \<Rightarrow> potential_pair \<Rightarrow> (unit, potential_pair) outcome" where
  "validateTypes action t1 t2 P = (if t1 \<ge> pp_ntypes P \<or> t2 \<ge> pp_ntypes P
     then (Inl (Runtime_error (''Error in'' @ action @ '' for pair potential. Invalid type'')), P) else (Inr (), P))"

definition set_both :: "potential_pair \<Rightarrow> nat \<Rightarrow> nat \<Rightarrow> 'a \<Rightarrow> 'a list \<Rightarrow> 'a list" where
  "set_both P t1 t2 x xs = xs[typpair_idx P t1 t2 := x, typpair_idx P t2 t1 := x]"

definition setParams :: "nat \<Rightarrow> nat \<Rightarrow> pair_evaluator \<Rightarrow> potential_pair \<Rightarrow> (unit, potential_pair) outcome" where
  "setParams t1 t2 param P = obind (validateTypes ''setting params'' t1 t2 P)
     (\<lambda>_ P. (Inr (), P\<lparr>pp_params := set_both P t1 t2 param (pp_params P)\<rparr>))"

definition setRcut :: "nat \<Rightarrow> nat \<Rightarrow> real \<Rightarrow> potential_pair \<Rightarrow> (unit, potential_pair) outcome" where
  "setRcut t1 t2 rcut P = obind (validateTypes ''setting r_cut'' t1 t2 P)
     (\<lambda>_ P. (Inr (), P\<lparr>pp_rcutsq := set_both P t1 t2 (rcut * rcut) (pp_rcutsq P),
        pp_r_cut_nlist := set_both P t1 t2 rcut (pp_r_cut_nlist P), pp_rcut_notified := pp_rcut_notified P + 1\<rparr>))"

definition setRon :: "nat \<Rightarrow> nat \<Rightarrow> real \<Rightarrow> potential_pair \<Rightarrow> (unit, potential_pair) outcome" where
  "setRon t1 t2 ron P = obind (validateTypes ''setting r_on'' t1 t2 P)
     (\<lambda>_ P. (Inr (), P\<lparr>pp_ronsq := set_both P t1 t2 (ron * ron) (pp_ronsq P)\<rparr>))"

definition getRCut :: "nat \<Rightarrow> nat \<Rightarrow> potential_pair \<Rightarrow> (real, potential_pair) outcome" where
  "getRCut t1 t2 P = obind (validateTypes ''getting r_cut.'' t1 t2 P) (\<lambda>_ P. (Inr (sqrt (pp_rcutsq P ! typpair_idx P t1 t2)), P))"

definition getROn :: "nat \<Rightarrow> nat \<Rightarrow> potential_pair \<Rightarrow> (real, potential_pair) outcome" where
  "getROn t1 t2 P = obind (validateTypes ''getting r_on'' t1 t2 P) (\<lambda>_ P. (Inr (sqrt (pp_ronsq P ! typpair_idx P t1 t2)), P))"

definition setShiftModePython :: "string \<Rightarrow> potential_pair \<Rightarrow> (unit, potential_pair) outcome" where
  "setShiftModePython mode P = (if mode = ''none'' then (Inr (), P\<lparr>pp_shift_mode := No_shift\<rparr>)
     else if mode = ''shift'' then (Inr (), P\<lparr>pp_shift_mode := Shift\<rparr>)
     else if mode = ''xplor'' then (Inr (), P\<lparr>pp_shift_mode := Xplor\<rparr>)
     else (Inl (Runtime_error ''Invalid energy shift mode.''), P))"

definition getShiftMode :: "potential_pair \<Rightarrow> string" where
  "getShiftMode P = (case pp_shift_mode P of No_shift \<Rightarrow> ''none'' | Shift \<Rightarrow> ''shift'' | Xplor \<Rightarrow> ''xplor'')"

definition setTailCorrectionEnabled :: "bool \<Rightarrow> potential_pair \<Rightarrow> potential_pair" where
  "setTailCorrectionEnabled b P = P\<lparr>pp_tail_correction := b\<rparr>"

section \<open>One pair\<close>

text \<open>Of the evaluators of \<open>PairPotentials\<close> only the reaction field uses charges.\<close>

fun evaluator_setCharge :: "real \<Rightarrow> real \<Rightarrow> pair_evaluator \<Rightarrow> pair_evaluator" where
  "evaluator_setCharge qi qj (ReactionField e rf u _ _) = ReactionField e rf u qi qj"
| "evaluator_setCharge qi qj p = p"

definition xplor_smooth :: "real \<Rightarrow> real \<Rightarrow> real \<Rightarrow> real \<Rightarrow> real \<Rightarrow> pair_result" where
  "xplor_smooth ronsq rcutsq rsq old_force_divr old_pair_eng = (let
     xplor_denom_inv = 1 / ((rcutsq - ronsq) * (rcutsq - ronsq) * (rcutsq - ronsq));
     rsq_minus_r_cut_sq = rsq - rcutsq;
     s = rsq_minus_r_cut_sq * rsq_minus_r_cut_sq * (rcutsq + 2 * rsq - 3 * ronsq) * xplor_denom_inv;
     ds_dr_divr = 12 * (rsq - ronsq) * rsq_minus_r_cut_sq * xplor_denom_inv
     in Evaluated (s * old_force_divr - ds_dr_divr * old_pair_eng) (old_pair_eng * s))"

definition pair_kernel :: "shift_mode \<Rightarrow> real \<Rightarrow> real \<Rightarrow> pair_evaluator \<Rightarrow> real \<Rightarrow> pair_result" where
  "pair_kernel mode ronsq rcutsq p rsq = (let energy_shift = (mode = Shift \<or> mode = Xplor \<and> ronsq > rcutsq) in
     case evalForceAndEnergy p rsq rcutsq energy_shift of
       Evaluated f e \<Rightarrow> if mode = Xplor \<and> rsq \<ge> ronsq \<and> rsq < rcutsq then xplor_smooth ronsq rcutsq rsq f e else Evaluated f e
     | r \<Rightarrow> r)"

definition dot3 :: "scalar3 \<Rightarrow> scalar3 \<Rightarrow> real" where
  "dot3 a b = vx a * vx b + vy a * vy b + vz a * vz b"

definition displacement :: "particle_data \<Rightarrow> nat \<Rightarrow> nat \<Rightarrow> scalar3" where
  "displacement d i j = minImage (m_global_box d) (p_pos (ptl d ! i) - p_pos (ptl d ! j))"

definition pair_eval :: "potential_pair \<Rightarrow> particle_data \<Rightarrow> nat \<Rightarrow> nat \<Rightarrow> pair_result" where
  "pair_eval P d i j = (let
     dx = displacement d i j; rsq = dot3 dx dx;
     k = typpair_idx P (p_type (ptl d ! i)) (p_type (ptl d ! j))
     in pair_kernel (pp_shift_mode P) (pp_ronsq P ! k) (pp_rcutsq P ! k)
          (evaluator_setCharge (p_charge (ptl d ! i)) (p_charge (ptl d ! j)) (pp_params P ! k)) rsq)"

text \<open>What a pair adds to particle \<open>i\<close>, and to particle \<open>j\<close> by the third law.\<close>

definition action :: "bool \<Rightarrow> scalar3 \<Rightarrow> real \<Rightarrow> real \<Rightarrow> pforce" where
  "action compute_virial dx f e = (let f2 = f * (1 / 2) in PForce (Vec3 (vx dx * f) (vy dx * f) (vz dx * f)) (e * (1 / 2))
     (if compute_virial then Vec3 (f2 * vx dx * vx dx) (f2 * vx dx * vy dx) (f2 * vx dx * vz dx) else 0)
     (if compute_virial then Vec3 (f2 * vy dx * vy dx) (f2 * vy dx * vz dx) (f2 * vz dx * vz dx) else 0))"

definition reaction :: "bool \<Rightarrow> scalar3 \<Rightarrow> real \<Rightarrow> real \<Rightarrow> pforce" where
  "reaction compute_virial dx f e = (let f2 = f * (1 / 2) in PForce (Vec3 (- (vx dx * f)) (- (vy dx * f)) (- (vz dx * f))) (e * (1 / 2))
     (if compute_virial then Vec3 (f2 * vx dx * vx dx) (f2 * vx dx * vy dx) (f2 * vx dx * vz dx) else 0)
     (if compute_virial then Vec3 (f2 * vy dx * vy dx) (f2 * vy dx * vz dx) (f2 * vz dx * vz dx) else 0))"

section \<open>The loops\<close>

text \<open>The neighbour list: all neighbours in one array, the position of the first and the number of neighbours of every
  particle, and whether every pair is stored only once.\<close>

record neighbor_list =
  nl_half :: bool
  nl_n_neigh :: "nat list"
  nl_nlist :: "nat list"
  nl_head_list :: "nat list"

definition neighbors :: "neighbor_list \<Rightarrow> nat \<Rightarrow> nat list" where
  "neighbors nl i = map (\<lambda>k. nl_nlist nl ! (nl_head_list nl ! i + k)) [0..<nl_n_neigh nl ! i]"

definition neighbor_step :: "potential_pair \<Rightarrow> particle_data \<Rightarrow> bool \<Rightarrow> bool \<Rightarrow> nat \<Rightarrow> pforce list \<times> pforce \<Rightarrow> nat \<Rightarrow> pforce list \<times> pforce" where
  "neighbor_step P d compute_virial third_law i = (\<lambda>(force, fi) j.
     case pair_eval P d i j of
       Evaluated f e \<Rightarrow> (let dx = displacement d i j in
         (if third_law \<and> j < m_nparticles d then force[j := force ! j + reaction compute_virial dx f e] else force,
          fi + action compute_virial dx f e))
     | _ \<Rightarrow> (force, fi))"

definition particle_step :: "potential_pair \<Rightarrow> particle_data \<Rightarrow> neighbor_list \<Rightarrow> bool \<Rightarrow> pforce list \<Rightarrow> nat \<Rightarrow> pforce list" where
  "particle_step P d nl compute_virial force i = (case
     foldl (neighbor_step P d compute_virial (nl_half nl) i) (force, 0) (neighbors nl i) of
       (force, fi) \<Rightarrow> force[i := force ! i + fi])"

definition pair_forces :: "potential_pair \<Rightarrow> particle_data \<Rightarrow> neighbor_list \<Rightarrow> bool \<Rightarrow> pforce list" where
  "pair_forces P d nl compute_virial =
     foldl (particle_step P d nl compute_virial) (replicate (length (pp_force P)) 0) [0..<m_nparticles d]"

subsection \<open>The correction for the truncation\<close>

text \<open>Only the Lennard-Jones evaluator has a long-range correction; the other evaluators return zero.\<close>

fun evalEnergyLRCIntegral :: "pair_evaluator \<Rightarrow> real \<Rightarrow> real" where
  "evalEnergyLRCIntegral (LJ sigma epsilon) rcutsq = (let
     sigma_6 = sigma * sigma * sigma * sigma * sigma * sigma; lj1 = 4 * epsilon * sigma_6 * sigma_6; lj2 = 4 * epsilon * sigma_6 in
     if rcutsq = 0 then 0
     else let rcut3inv = 1 / rcutsq powr (3 / 2); rcut9inv = rcut3inv * rcut3inv * rcut3inv
       in lj1 / 9 * rcut9inv - lj2 / 3 * rcut3inv)"
| "evalEnergyLRCIntegral _ rcutsq = 0"

fun evalPressureLRCIntegral :: "pair_evaluator \<Rightarrow> real \<Rightarrow> real" where
  "evalPressureLRCIntegral (LJ sigma epsilon) rcutsq = (let
     sigma_6 = sigma * sigma * sigma * sigma * sigma * sigma; lj1 = 4 * epsilon * sigma_6 * sigma_6; lj2 = 4 * epsilon * sigma_6 in
     if rcutsq = 0 then 0
     else let rcut3inv = 1 / rcutsq powr (3 / 2); rcut9inv = rcut3inv * rcut3inv * rcut3inv
       in lj1 * 4 / 3 * rcut9inv - lj2 * 2 * rcut3inv)"
| "evalPressureLRCIntegral _ rcutsq = 0"

definition type_pairs :: "potential_pair \<Rightarrow> (nat \<times> nat) list" where
  "type_pairs P = concat (map (\<lambda>i. map (\<lambda>j. (i, j)) [0..<pp_ntypes P]) [0..<pp_ntypes P])"

definition computeTailCorrection :: "nat \<Rightarrow> nat \<Rightarrow> bool \<Rightarrow> particle_data \<Rightarrow> potential_pair \<Rightarrow> (unit, potential_pair) outcome" where
  "computeTailCorrection my_rank dimension compute_virial d P = (
     if \<not> pp_tail_correction P then (Inr (), P)
     else if pp_shift_mode P \<noteq> No_shift
       then (Inl (Runtime_error ''Pair potential shift mode must be \"none\" to apply tail corrections.''), P)
     else let
       volume = getVolume (m_global_box d) (dimension = 2);
       num = (\<lambda>t. real (pp_num_particles_by_type P ! t));
       energy = (\<lambda>e (i, j). let k = typpair_idx P i j; rho_j = num j / volume
         in e + 2 * num i * pi * rho_j * evalEnergyLRCIntegral (pp_params P ! k) (pp_rcutsq P ! k));
       virial = (\<lambda>w (i, j). let k = typpair_idx P i j; rho_i = num i / volume; rho_j = num j / volume;
           delta_pressure = 4 / 6 * rho_i * rho_j * pi * evalPressureLRCIntegral (pp_params P ! k) (pp_rcutsq P ! k);
           delta_virial = real dimension * volume * delta_pressure / 3
         in w[0 := w ! 0 + delta_virial, 3 := w ! 3 + delta_virial, 5 := w ! 5 + delta_virial]);
       P = P\<lparr>pp_external_energy := if my_rank = 0 then foldl energy 0 (type_pairs P) else 0\<rparr>;
       P = (if compute_virial
         then P\<lparr>pp_external_virial := if my_rank = 0 then foldl virial (replicate 6 0) (type_pairs P) else replicate 6 0\<rparr> else P)
       in (Inr (), P))"

text \<open>The result is \<open>None\<close> if a listed pair has the value \<open>INFINITY\<close>: the sums are then not numbers.\<close>

definition computeForces :: "nat \<Rightarrow> nat \<Rightarrow> bool \<Rightarrow> neighbor_list \<Rightarrow> particle_data \<Rightarrow> potential_pair \<Rightarrow> (unit, potential_pair) outcome option" where
  "computeForces my_rank dimension compute_virial nl d P = (
     if \<exists>i\<in>{0..<m_nparticles d}. \<exists>j\<in>set (neighbors nl i). pair_eval P d i j = Infinite then None
     else Some (computeTailCorrection my_rank dimension compute_virial d (P\<lparr>pp_force := pair_forces P d nl compute_virial\<rparr>)))"

subsection \<open>The energy between two sets\<close>

text \<open>Without a domain decomposition; \<open>energy\<close> is the value of the output argument before the call.\<close>

definition computeEnergyBetweenSets :: "nat list \<Rightarrow> nat list \<Rightarrow> particle_data \<Rightarrow> potential_pair \<Rightarrow> real \<Rightarrow> real option" where
  "computeEnergyBetweenSets tags1 tags2 d P energy = (if tags1 = [] \<or> tags2 = [] then Some energy
     else let
       is = filter (\<lambda>i. i < m_nparticles d) (map (\<lambda>t. rtag_at t d) tags1);
       js = filter (\<lambda>j. j < m_nparticles d + m_nghosts d) (map (\<lambda>t. rtag_at t d) tags2)
       in if \<exists>i\<in>set is. \<exists>j\<in>set js. pair_eval P d i j = Infinite then None
          else Some (foldl (\<lambda>s i. foldl (\<lambda>s j. case pair_eval P d i j of Evaluated f e \<Rightarrow> s + e | _ \<Rightarrow> s) s js) 0 is))"

end
