(* ===== verification/PairSums.thy ===== *)
theory PairSums
  imports PotentialPair "HOL-Library.Multiset"
begin

text \<open>
  What the loop over the neighbour list of \<open>PotentialPair\<close> adds up to.  The force array after the loop is a sum over listed
  pairs (\<open>pair_forces_nth\<close>); from it follow the third law and that half and full neighbour lists agree.  The forces belong to
  the smoothed and shifted energies, which are the documented ones where the code supports the combination of mode and evaluator; the corrections for the truncation are the integrals
  they stand for.
\<close>

section \<open>Sums of forces\<close>

instance pforce :: comm_monoid_add
  by standard (simp_all add: plus_pforce_def zero_pforce_def algebra_simps)

lemma pf_simps [simp]:
  "pf_f (a + b) = pf_f a + pf_f b" "pf_e (a + b) = pf_e a + pf_e b" "pf_f (0 :: pforce) = 0" "pf_e (0 :: pforce) = 0"
  by (simp_all add: plus_pforce_def zero_pforce_def)

text \<open>What the pair of a particle and one of its neighbours contributes.\<close>

definition act :: "potential_pair \<Rightarrow> particle_data \<Rightarrow> bool \<Rightarrow> nat \<Rightarrow> nat \<Rightarrow> pforce" where
  "act P d cv i j = (case pair_eval P d i j of Evaluated f e \<Rightarrow> action cv (displacement d i j) f e | _ \<Rightarrow> 0)"

definition react :: "potential_pair \<Rightarrow> particle_data \<Rightarrow> bool \<Rightarrow> nat \<Rightarrow> nat \<Rightarrow> pforce" where
  "react P d cv i j = (case pair_eval P d i j of Evaluated f e \<Rightarrow> reaction cv (displacement d i j) f e | _ \<Rightarrow> 0)"

lemma neighbor_step_eq:
  "neighbor_step P d cv third i (force, fi) j =
    (if third \<and> j < m_nparticles d then force[j := force ! j + react P d cv i j] else force, fi + act P d cv i j)"
  by (cases "pair_eval P d i j") (auto simp: neighbor_step_def act_def react_def Let_def)

lemma neighbor_fold:
  assumes "m_nparticles d \<le> length force"
  shows "snd (foldl (neighbor_step P d cv third i) (force, fi) js) = fi + (\<Sum>j\<leftarrow>js. act P d cv i j) \<and>
    length (fst (foldl (neighbor_step P d cv third i) (force, fi) js)) = length force \<and>
    (\<forall>k<length force. fst (foldl (neighbor_step P d cv third i) (force, fi) js) ! k = force ! k +
      (if third \<and> k < m_nparticles d then \<Sum>j\<leftarrow>filter (\<lambda>j. j = k) js. react P d cv i j else 0))"
  using assms
proof (induction js arbitrary: force fi)
  case (Cons j js)
  define force' where "force' = (if third \<and> j < m_nparticles d then force[j := force ! j + react P d cv i j] else force)"
  have l: "length force' = length force" by (simp add: force'_def)
  have s: "foldl (neighbor_step P d cv third i) (force, fi) (j # js)
      = foldl (neighbor_step P d cv third i) (force', fi + act P d cv i j) js"
    by (simp add: neighbor_step_eq force'_def)
  have v: "force' ! k = force ! k + (if third \<and> k < m_nparticles d \<and> j = k then react P d cv i j else 0)" if "k < length force" for k
    using that Cons.prems by (auto simp: force'_def nth_list_update)
  have "m_nparticles d \<le> length force'" using Cons.prems l by simp
  from Cons.IH [OF this, of "fi + act P d cv i j"] show ?case unfolding s l
    using v by (auto simp: add.assoc)
qed simp

lemma particle_step_nth:
  assumes "m_nparticles d \<le> length force" "i < m_nparticles d"
  shows "length (particle_step P d nl cv force i) = length force"
    "k < m_nparticles d \<Longrightarrow> particle_step P d nl cv force i ! k = force ! k
      + (if k = i then \<Sum>j\<leftarrow>neighbors nl i. act P d cv i j else 0)
      + (if nl_half nl then \<Sum>j\<leftarrow>filter (\<lambda>j. j = k) (neighbors nl i). react P d cv i j else 0)"
  using neighbor_fold [OF assms(1), where P = P and cv = cv and third = "nl_half nl" and i = i and fi = 0 and js = "neighbors nl i"] assms
  by (auto simp: particle_step_def nth_list_update ac_simps split: prod.splits)

lemma particle_fold:
  assumes "m_nparticles d \<le> length force" "n \<le> m_nparticles d"
  shows "length (foldl (particle_step P d nl cv) force [0..<n]) = length force \<and>
    (\<forall>k<m_nparticles d. foldl (particle_step P d nl cv) force [0..<n] ! k = force ! k
      + (if k < n then \<Sum>j\<leftarrow>neighbors nl k. act P d cv k j else 0)
      + (if nl_half nl then \<Sum>i<n. \<Sum>j\<leftarrow>filter (\<lambda>j. j = k) (neighbors nl i). react P d cv i j else 0))"
  using assms(2)
proof (induction n)
  case (Suc n)
  let ?f = "foldl (particle_step P d nl cv) force [0..<n]"
  have h: "length ?f = length force" and n: "n < m_nparticles d" using Suc by auto
  have step: "foldl (particle_step P d nl cv) force [0..<Suc n] = particle_step P d nl cv ?f n" by simp
  show ?case unfolding step
    using Suc particle_step_nth [OF assms(1) [folded h] n, where P = P and nl = nl and cv = cv] by (auto simp: h less_Suc_eq ac_simps)
qed simp

lemma pair_forces_nth:
  assumes "m_nparticles d \<le> length (pp_force P)" "k < m_nparticles d"
  shows "pair_forces P d nl cv ! k = (\<Sum>j\<leftarrow>neighbors nl k. act P d cv k j)
    + (if nl_half nl then \<Sum>i<m_nparticles d. \<Sum>j\<leftarrow>filter (\<lambda>j. j = k) (neighbors nl i). react P d cv i j else 0)"
  using particle_fold [of d "replicate (length (pp_force P)) 0" "m_nparticles d" P nl cv] assms by (simp add: pair_forces_def)

section \<open>The third law\<close>

lemma sum_list_by_value:
  "(\<Sum>k<n. \<Sum>j\<leftarrow>filter (\<lambda>j. j = k) js. g j) = (\<Sum>j\<leftarrow>js. if j < n then g j else (0 :: 'a :: comm_monoid_add))" for n :: nat
proof (induction js)
  case (Cons j js)
  have "(\<Sum>k<n. \<Sum>i\<leftarrow>filter (\<lambda>i. i = k) (j # js). g i) = (\<Sum>k<n. (if j = k then g k else 0) + (\<Sum>i\<leftarrow>filter (\<lambda>i. i = k) js. g i))"
    by (rule sum.cong) auto
  then show ?case using Cons by (simp add: sum.distrib sum.delta')
qed simp

text \<open>A ghost among the neighbours receives no reaction.\<close>

lemma pair_forces_total:
  assumes "m_nparticles d \<le> length (pp_force P)" "nl_half nl"
  shows "(\<Sum>k<m_nparticles d. pair_forces P d nl cv ! k)
    = (\<Sum>i<m_nparticles d. \<Sum>j\<leftarrow>neighbors nl i. act P d cv i j + (if j < m_nparticles d then react P d cv i j else 0))"
proof -
  let ?N = "m_nparticles d"
  have "(\<Sum>k<?N. pair_forces P d nl cv ! k) = (\<Sum>k<?N. \<Sum>j\<leftarrow>neighbors nl k. act P d cv k j)
      + (\<Sum>k<?N. \<Sum>i<?N. \<Sum>j\<leftarrow>filter (\<lambda>j. j = k) (neighbors nl i). react P d cv i j)"
    using pair_forces_nth [OF assms(1)] assms(2) by (simp add: sum.distrib)
  also have "(\<Sum>k<?N. \<Sum>i<?N. \<Sum>j\<leftarrow>filter (\<lambda>j. j = k) (neighbors nl i). react P d cv i j)
      = (\<Sum>i<?N. \<Sum>k<?N. \<Sum>j\<leftarrow>filter (\<lambda>j. j = k) (neighbors nl i). react P d cv i j)" by (rule sum.swap)
  also have "\<dots> = (\<Sum>i<?N. \<Sum>j\<leftarrow>neighbors nl i. if j < ?N then react P d cv i j else 0)" by (simp only: sum_list_by_value)
  finally show ?thesis by (simp add: sum.distrib [symmetric] sum_list_addf)
qed

lemma pf_sum_list:
  "pf_f (\<Sum>j\<leftarrow>js. h j) = (\<Sum>j\<leftarrow>js. pf_f (h j))" "pf_e (\<Sum>j\<leftarrow>js. h j) = (\<Sum>j\<leftarrow>js. pf_e (h j))"
  by (induction js) (simp_all add: pf_simps)

lemma pf_sum:
  "pf_f (\<Sum>k<n. g k) = (\<Sum>k<n. pf_f (g k))" "pf_e (\<Sum>k<n. g k) = (\<Sum>k<n. pf_e (g k))" for n :: nat
  by (induction n) (simp_all add: pf_simps)

definition pair_energy :: "potential_pair \<Rightarrow> particle_data \<Rightarrow> nat \<Rightarrow> nat \<Rightarrow> real" where
  "pair_energy P d i j = (case pair_eval P d i j of Evaluated f e \<Rightarrow> e | _ \<Rightarrow> 0)"

lemma act_react_force: "pf_f (act P d cv i j) + pf_f (react P d cv i j) = 0"
  by (cases "pair_eval P d i j") (simp_all add: act_def react_def action_def reaction_def Let_def plus_vec3_def zero_vec3_def)

lemma act_react_energy: "pf_e (act P d cv i j) + pf_e (react P d cv i j) = pair_energy P d i j"
  by (cases "pair_eval P d i j") (simp_all add: act_def react_def action_def reaction_def pair_energy_def Let_def)

lemma act_energy: "pf_e (act P d cv i j) = pair_energy P d i j / 2"
  by (cases "pair_eval P d i j") (simp_all add: act_def action_def pair_energy_def Let_def)

lemma act_react_local:
  "pf_f (act P d cv i j + (if b then react P d cv i j else 0)) = (if b then 0 else pf_f (act P d cv i j))"
  "pf_e (act P d cv i j + (if b then react P d cv i j else 0)) = (if b then pair_energy P d i j else pair_energy P d i j / 2)"
  using act_react_force [of P d cv i j] act_react_energy [of P d cv i j] act_energy [of P d cv i j] by simp_all

section \<open>Half and full neighbour lists\<close>

text \<open>The parameters of the pairs of types after any sequence of setters.\<close>

inductive pp_reach :: "potential_pair \<Rightarrow> bool" where
  new: "pp_reach (PotentialPair param n d)"
| params: "pp_reach P \<Longrightarrow> setParams t1 t2 param P = (r, P') \<Longrightarrow> pp_reach P'"
| rcut: "pp_reach P \<Longrightarrow> setRcut t1 t2 rc P = (r, P') \<Longrightarrow> pp_reach P'"
| ron: "pp_reach P \<Longrightarrow> setRon t1 t2 ro P = (r, P') \<Longrightarrow> pp_reach P'"
| mode: "pp_reach P \<Longrightarrow> setShiftModePython m P = (r, P') \<Longrightarrow> pp_reach P'"
| tail: "pp_reach P \<Longrightarrow> pp_reach (setTailCorrectionEnabled b P)"
| forces: "pp_reach P \<Longrightarrow> computeForces rank nd cv nl d P = Some (r, P') \<Longrightarrow> pp_reach P'"

definition sym_table :: "nat \<Rightarrow> 'a list \<Rightarrow> bool" where
  "sym_table n xs \<longleftrightarrow> length xs = n * n \<and> (\<forall>i<n. \<forall>j<n. xs ! (j * n + i) = xs ! (i * n + j))"

definition pp_sym :: "potential_pair \<Rightarrow> bool" where
  "pp_sym P \<longleftrightarrow> sym_table (pp_ntypes P) (pp_params P) \<and> sym_table (pp_ntypes P) (pp_rcutsq P) \<and> sym_table (pp_ntypes P) (pp_ronsq P)"

lemma idx_less: "i < n \<Longrightarrow> j < n \<Longrightarrow> j * n + i < n * (n :: nat)"
  using mult_le_mono1 [of "Suc j" n n] by simp

lemma idx_inj: "i < n \<Longrightarrow> i' < n \<Longrightarrow> j * n + i = j' * n + i' \<longleftrightarrow> i = i' \<and> j = (j' :: nat)"
  by (metis add.commute div_mult_self1 div_less mod_mult_self1 mod_less add_0 less_nat_zero_code)

lemma nth_update_both: "k < length xs \<Longrightarrow> xs[a := x, b := x] ! k = (if a = k \<or> b = k then x else xs ! k)"
  by (cases "a = k"; cases "b = k"; simp)

lemma set_both_nth:
  assumes "t1 < n" "t2 < n" "pp_ntypes P = n" "length xs = n * n" "i < n" "j < n"
  shows "set_both P t1 t2 x xs ! (j * n + i) = (if i = t1 \<and> j = t2 \<or> i = t2 \<and> j = t1 then x else xs ! (j * n + i))"
proof -
  have "t2 * n + t1 = j * n + i \<longleftrightarrow> t1 = i \<and> t2 = j" "t1 * n + t2 = j * n + i \<longleftrightarrow> t2 = i \<and> t1 = j"
    using idx_inj assms by simp_all
  moreover have "j * n + i < length xs" using idx_less [OF assms(5,6)] assms(4) by simp
  ultimately show ?thesis unfolding set_both_def typpair_idx_def assms(3) by (simp only: nth_update_both) metis
qed

lemma set_both_sym:
  assumes "sym_table n xs" "t1 < n" "t2 < n" "pp_ntypes P = n"
  shows "sym_table n (set_both P t1 t2 x xs)"
proof -
  have l: "length xs = n * n" and s: "\<And>i j. i < n \<Longrightarrow> j < n \<Longrightarrow> xs ! (j * n + i) = xs ! (i * n + j)"
    using assms(1) by (auto simp: sym_table_def)
  have "length (set_both P t1 t2 x xs) = n * n" using l by (simp add: set_both_def)
  moreover have "set_both P t1 t2 x xs ! (j * n + i) = set_both P t1 t2 x xs ! (i * n + j)" if "i < n" "j < n" for i j
    unfolding set_both_nth [OF assms(2-4) l that] set_both_nth [OF assms(2-4) l that(2,1)] s [OF that] by auto
  ultimately show ?thesis by (simp add: sym_table_def)
qed

lemma setters_sym:
  assumes "pp_sym P"
  shows "setParams t1 t2 param P = (r, P') \<Longrightarrow> pp_sym P'" "setRcut t1 t2 rc P = (r, P') \<Longrightarrow> pp_sym P'"
    "setRon t1 t2 ro P = (r, P') \<Longrightarrow> pp_sym P'" "setShiftModePython m P = (r, P') \<Longrightarrow> pp_sym P'"
    "computeTailCorrection rank nd cv d P = (r, P') \<Longrightarrow> pp_sym P'"
  using assms
  by (auto simp: setParams_def setRcut_def setRon_def setShiftModePython_def computeTailCorrection_def validateTypes_def obind_def
      pp_sym_def Let_def set_both_sym split: if_splits)

lemma pp_reach_sym: "pp_reach P \<Longrightarrow> pp_sym P"
proof (induction rule: pp_reach.induct)
  case (new param n d)
  show ?case by (simp add: PotentialPair_def pp_sym_def sym_table_def Let_def idx_less)
next
  case (tail P b)
  then show ?case by (simp add: setTailCorrectionEnabled_def pp_sym_def)
next
  case (forces P rank nd cv nl d r P')
  have s: "pp_sym (P\<lparr>pp_force := pair_forces P d nl cv\<rparr>)" using forces.IH by (simp add: pp_sym_def)
  have "computeTailCorrection rank nd cv d (P\<lparr>pp_force := pair_forces P d nl cv\<rparr>) = (r, P')"
    using forces.hyps(2) unfolding computeForces_def by (simp split: if_splits)
  then show ?case by (rule setters_sym(5) [OF s])
qed (erule setters_sym(1-4) [rotated], assumption)+

lemma setCharge_sym: "evalForceAndEnergy (evaluator_setCharge a b p) = evalForceAndEnergy (evaluator_setCharge b a p)"
  by (cases p) (simp_all add: charge_product_def mult.commute)

lemma dot3_minus: "dot3 (- v) (- v) = dot3 v v"
  by (simp add: dot3_def vec_defs)

lemma pair_eval_sym:
  assumes "pp_sym P" "displacement d j i = - displacement d i j" "p_type (ptl d ! i) < pp_ntypes P" "p_type (ptl d ! j) < pp_ntypes P"
  shows "pair_eval P d j i = pair_eval P d i j"
proof -
  let ?i = "p_type (ptl d ! i)" and ?j = "p_type (ptl d ! j)"
  have "pp_params P ! typpair_idx P ?j ?i = pp_params P ! typpair_idx P ?i ?j"
    "pp_rcutsq P ! typpair_idx P ?j ?i = pp_rcutsq P ! typpair_idx P ?i ?j"
    "pp_ronsq P ! typpair_idx P ?j ?i = pp_ronsq P ! typpair_idx P ?i ?j"
    using assms(1,3,4) unfolding pp_sym_def sym_table_def typpair_idx_def by metis+
  then show ?thesis
    unfolding pair_eval_def Let_def pair_kernel_def assms(2) dot3_minus
    by (simp only: setCharge_sym [of "p_charge (ptl d ! i)" "p_charge (ptl d ! j)"])
qed

lemma react_is_act:
  assumes "pp_sym P" "displacement d j i = - displacement d i j" "p_type (ptl d ! i) < pp_ntypes P" "p_type (ptl d ! j) < pp_ntypes P"
  shows "react P d cv i j = act P d cv j i"
  unfolding react_def act_def pair_eval_sym [OF assms] assms(2)
  by (auto simp: action_def reaction_def Let_def vec_defs split: pair_result.split)

text \<open>Exchanging two particles changes the sign of their displacement, unless a component of the difference that is compared
  with the box is exactly half the box.\<close>

lemma image_counts_odd:
  "p \<longrightarrow> lo = - hi \<and> 0 < hi \<and> \<bar>w\<bar> \<noteq> hi \<Longrightarrow> image_count p lo hi Linv (- w) = - image_count p lo hi Linv w"
  "p \<longrightarrow> lo = - hi \<and> 0 < hi \<and> \<bar>w\<bar> \<noteq> hi \<Longrightarrow> image_count_z p lo hi (- w) = - image_count_z p lo hi w"
  by (auto simp: image_count_def image_count_z_def)

lemma shift_odd: "shift b (- v) (- n) = - shift b v n"
  by (simp add: shift_lattice uminus_vec3_def)

lemma minImage_odd:
  assumes "box_ok b" "centred b" "vz (m_periodic b) \<longrightarrow> \<bar>vz v\<bar> \<noteq> vz (m_hi b)"
    "vy (m_periodic b) \<longrightarrow> \<bar>vy (minImage_z b v)\<bar> \<noteq> vy (m_hi b)"
    "vx (m_periodic b) \<longrightarrow> \<bar>vx (minImage_y b (minImage_z b v))\<bar> \<noteq> vx (m_hi b)"
  shows "minImage b (- v) = - minImage b v"
proof -
  have c: "vx (m_periodic b) \<longrightarrow> vx (m_lo b) = - vx (m_hi b) \<and> 0 < vx (m_hi b)"
    "vy (m_periodic b) \<longrightarrow> vy (m_lo b) = - vy (m_hi b) \<and> 0 < vy (m_hi b)"
    "vz (m_periodic b) \<longrightarrow> vz (m_lo b) = - vz (m_hi b) \<and> 0 < vz (m_hi b)"
    using assms(1,2) by (auto simp: box_ok_def centred_def minus_vec3_def)
  have n: "vx (- u) = - vx u" "vy (- u) = - vy u" "vz (- u) = - vz u" for u :: scalar3
    by (simp_all add: uminus_vec3_def)
  have z: "minImage_z b (- v) = - minImage_z b v"
    unfolding minImage_z_shift shift_odd [symmetric] n using image_counts_odd(2) c(3) assms(3) by (simp add: uminus_vec3_def)
  have y: "minImage_y b (- u) = - minImage_y b u" if "vy (m_periodic b) \<longrightarrow> \<bar>vy u\<bar> \<noteq> vy (m_hi b)" for u
    unfolding minImage_y_shift shift_odd [symmetric] n using image_counts_odd(1) c(2) that by (simp add: uminus_vec3_def)
  have x: "minImage_x b (- u) = - minImage_x b u" if "vx (m_periodic b) \<longrightarrow> \<bar>vx u\<bar> \<noteq> vx (m_hi b)" for u
    unfolding minImage_x_shift shift_odd [symmetric] n using image_counts_odd(1) c(1) that by (simp add: uminus_vec3_def)
  show ?thesis unfolding minImage_def z y [OF assms(4)] by (rule x [OF assms(5)])
qed

lemma displacement_swap:
  assumes "box_ok (m_global_box d)" "centred (m_global_box d)"
    and "b = m_global_box d" "v = p_pos (ptl d ! i) - p_pos (ptl d ! j)"
    and "vz (m_periodic b) \<longrightarrow> \<bar>vz v\<bar> \<noteq> vz (m_hi b)" "vy (m_periodic b) \<longrightarrow> \<bar>vy (minImage_z b v)\<bar> \<noteq> vy (m_hi b)"
    "vx (m_periodic b) \<longrightarrow> \<bar>vx (minImage_y b (minImage_z b v))\<bar> \<noteq> vx (m_hi b)"
  shows "displacement d j i = - displacement d i j"
proof -
  have "p_pos (ptl d ! j) - p_pos (ptl d ! i) = - v" by (simp add: assms(4))
  then show ?thesis using minImage_odd [of b v] assms unfolding displacement_def by simp
qed

text \<open>The particles that list \<open>k\<close> as a neighbour.\<close>

definition listed_by :: "neighbor_list \<Rightarrow> nat \<Rightarrow> nat \<Rightarrow> nat list" where
  "listed_by nl N k = concat (map (\<lambda>i. map (\<lambda>_. i) (filter (\<lambda>j. j = k) (neighbors nl i))) [0..<N])"

definition completes :: "nat \<Rightarrow> neighbor_list \<Rightarrow> neighbor_list \<Rightarrow> bool" where
  "completes N half full \<longleftrightarrow> nl_half half \<and> \<not> nl_half full \<and>
     (\<forall>k<N. mset (neighbors full k) = mset (neighbors half k) + mset (listed_by half N k))"

lemma sum_listed_by:
  "(\<Sum>i\<leftarrow>listed_by nl N k. g i k) = (\<Sum>i<N. \<Sum>j\<leftarrow>filter (\<lambda>j. j = k) (neighbors nl i). g i j :: 'a :: comm_monoid_add)"
proof -
  have "(\<Sum>i'\<leftarrow>map (\<lambda>_. i) (filter (\<lambda>j. j = k) js). g i' k) = (\<Sum>j\<leftarrow>filter (\<lambda>j. j = k) js. g i j)" for i js
    by (induction js) auto
  then show ?thesis by (induction N) (auto simp: listed_by_def add.commute)
qed

lemma completes_forces:
  assumes "completes (m_nparticles d) half full" "m_nparticles d \<le> length (pp_force P)" "k < m_nparticles d"
    "\<And>i. i < m_nparticles d \<Longrightarrow> k \<in> set (neighbors half i) \<Longrightarrow> react P d cv i k = act P d cv k i"
  shows "pair_forces P d half cv ! k = pair_forces P d full cv ! k"
proof -
  let ?N = "m_nparticles d"
  have "(\<Sum>j\<leftarrow>neighbors full k. act P d cv k j) = (\<Sum>j\<in>#mset (neighbors full k). act P d cv k j)"
    by (simp add: sum_mset_sum_list [symmetric])
  also have "\<dots> = (\<Sum>j\<leftarrow>neighbors half k. act P d cv k j) + (\<Sum>i\<leftarrow>listed_by half ?N k. act P d cv k i)"
    using assms(1,3) by (simp add: completes_def sum_mset_sum_list [symmetric])
  also have "(\<Sum>i\<leftarrow>listed_by half ?N k. act P d cv k i) = (\<Sum>i<?N. \<Sum>j\<leftarrow>filter (\<lambda>j. j = k) (neighbors half i). act P d cv j i)"
    by (rule sum_listed_by)
  also have "\<dots> = (\<Sum>i<?N. \<Sum>j\<leftarrow>filter (\<lambda>j. j = k) (neighbors half i). react P d cv i j)"
    using assms(4) by (intro sum.cong refl arg_cong [of _ _ sum_list] map_cong) auto
  finally show ?thesis using assms(1) pair_forces_nth [OF assms(2,3)] by (simp add: completes_def)
qed

lemma set_listed_by: "set (listed_by nl N k) = {i. i < N \<and> k \<in> set (neighbors nl i)}"
  by (auto simp: listed_by_def)

lemma completes_set:
  assumes "completes N half full" "k < N"
  shows "set (neighbors full k) = set (neighbors half k) \<union> {i. i < N \<and> k \<in> set (neighbors half i)}"
  using assms set_listed_by [of half N k] unfolding completes_def by (metis set_mset_mset set_mset_union)

lemma tail_force:
  "computeTailCorrection rank nd cv d (P\<lparr>pp_force := F\<rparr>)
    = (let (r, P') = computeTailCorrection rank nd cv d P in (r, P'\<lparr>pp_force := F\<rparr>))"
  by (simp add: computeTailCorrection_def Let_def typpair_idx_def type_pairs_def)

lemma computeForces_result:
  assumes "computeForces rank nd cv nl d P = Some (r, P')"
  shows "pp_force P' = pair_forces P d nl cv" "(\<forall>i<m_nparticles d. \<forall>j\<in>set (neighbors nl i). pair_eval P d i j \<noteq> Infinite)"
    "\<exists>P0. computeTailCorrection rank nd cv d P = (r, P0) \<and> P' = P0\<lparr>pp_force := pair_forces P d nl cv\<rparr>"
  using assms by (auto simp: computeForces_def tail_force Let_def split: if_splits prod.splits)

section \<open>The smoothed potential\<close>

lemma positive_part_deriv: "((\<lambda>x. (max x 0)\<^sup>2) has_real_derivative 2 * max x 0) (at x)"
proof -
  consider "x < 0" | "0 < x" | "x = 0" by linarith
  then show ?thesis
  proof cases
    case 1
    have "((\<lambda>x. (max x 0)\<^sup>2) has_real_derivative 0) (at x)"
      by (rule has_field_derivative_transform_within_open [OF DERIV_const open_lessThan [of 0]]) (use 1 in auto)
    then show ?thesis using 1 by simp
  next
    case 2
    have d: "((\<lambda>x. x\<^sup>2) has_real_derivative 2 * x) (at x)" by (auto intro!: derivative_eq_intros)
    have "((\<lambda>x. (max x 0)\<^sup>2) has_real_derivative 2 * x) (at x)"
      by (rule has_field_derivative_transform_within_open [OF d open_greaterThan [of 0]]) (use 2 in auto)
    then show ?thesis using 2 by simp
  next
    case 3
    have "norm ((max h 0)\<^sup>2 / h) \<le> norm h" for h :: real by (cases "0 < h") (auto simp: power2_eq_square)
    then have "((\<lambda>h :: real. (max h 0)\<^sup>2 / h) \<longlongrightarrow> 0) (at 0)"
      by (intro tendsto_0_le [OF tendsto_ident_at, where K = 1] always_eventually allI) simp
    then show ?thesis using 3 by (simp add: DERIV_def)
  qed
qed

text \<open>The documented smoothing function and energy of a pair.\<close>

definition xplor_S :: "real \<Rightarrow> real \<Rightarrow> real \<Rightarrow> real" where
  "xplor_S ron c r = (if r < ron then 1 else if r \<le> c then (c\<^sup>2 - r\<^sup>2)\<^sup>2 * (c\<^sup>2 + 2 * r\<^sup>2 - 3 * ron\<^sup>2) / (c\<^sup>2 - ron\<^sup>2) ^ 3 else 0)"

definition U_pair :: "shift_mode \<Rightarrow> real \<Rightarrow> real \<Rightarrow> pair_evaluator \<Rightarrow> real \<Rightarrow> real" where
  "U_pair mode ron c p r = (let shifted = potential p c r - potential p c c in
     case mode of No_shift \<Rightarrow> potential p c r | Shift \<Rightarrow> shifted
     | Xplor \<Rightarrow> if ron < c then xplor_S ron c r * potential p c r else shifted)"

text \<open>The combinations for which the code computes this energy: a shift needs an evaluator that supports it, and in the mode with
  smoothing the shift is requested only if the radius is greater than the cutoff.\<close>

definition mode_supported :: "shift_mode \<Rightarrow> real \<Rightarrow> real \<Rightarrow> pair_evaluator \<Rightarrow> bool" where
  "mode_supported mode ron c p = (case mode of No_shift \<Rightarrow> True | Shift \<Rightarrow> shift_supported p
     | Xplor \<Rightarrow> ron < c \<or> c < ron \<and> shift_supported p)"

text \<open>The energy for all combinations.\<close>

definition shift_applied :: "shift_mode \<Rightarrow> real \<Rightarrow> real \<Rightarrow> pair_evaluator \<Rightarrow> bool" where
  "shift_applied mode ron c p \<longleftrightarrow> shift_supported p \<and> (mode = Shift \<or> mode = Xplor \<and> c < ron)"

definition U_computed :: "shift_mode \<Rightarrow> real \<Rightarrow> real \<Rightarrow> pair_evaluator \<Rightarrow> real \<Rightarrow> real" where
  "U_computed mode ron c p r = (if mode = Xplor \<and> ron < c then xplor_S ron c r * potential p c r
     else potential p c r - (if shift_applied mode ron c p then potential p c c else 0))"

lemma U_supported: "mode_supported mode ron c p \<Longrightarrow> U_computed mode ron c p r = U_pair mode ron c p r"
  by (cases mode) (auto simp: mode_supported_def U_computed_def U_pair_def shift_applied_def Let_def)

lemma xplor_S_alt:
  assumes "0 \<le> ron" "ron < c" "0 < r" "r \<le> c"
  shows "xplor_S ron c r = 1 - (max (r\<^sup>2 - ron\<^sup>2) 0)\<^sup>2 * (3 * (c\<^sup>2 - ron\<^sup>2) - 2 * (r\<^sup>2 - ron\<^sup>2)) / (c\<^sup>2 - ron\<^sup>2) ^ 3"
proof (cases "r < ron")
  case True
  have "r\<^sup>2 \<le> ron\<^sup>2" using True assms power_mono [of r ron 2] by simp
  then show ?thesis using True by (simp add: xplor_S_def max_def)
next
  case False
  define D u where "D = c\<^sup>2 - ron\<^sup>2" and "u = r\<^sup>2 - ron\<^sup>2"
  have "0 < D" using assms power_strict_mono [of ron c 2] by (simp add: D_def)
  have u: "0 \<le> u" using False assms power_mono [of ron r 2] by (simp add: u_def)
  have e: "c\<^sup>2 - r\<^sup>2 = D - u" "c\<^sup>2 + 2 * r\<^sup>2 - 3 * ron\<^sup>2 = D + 2 * u" by (simp_all add: D_def u_def)
  have "xplor_S ron c r = (D - u)\<^sup>2 * (D + 2 * u) / D ^ 3"
    unfolding xplor_S_def e D_def [symmetric] using False assms by simp
  also have "\<dots> = 1 - u\<^sup>2 * (3 * D - 2 * u) / D ^ 3"
    using \<open>0 < D\<close> by (simp add: divide_simps) (simp add: algebra_simps power2_eq_square power3_eq_cube)
  finally show ?thesis using u by (simp add: D_def u_def)
qed

lemma xplor_S_deriv:
  assumes "0 \<le> ron" "ron < c" "0 < r" "r < c"
  shows "(xplor_S ron c has_real_derivative (if r < ron then 0 else 12 * (r\<^sup>2 - ron\<^sup>2) * (r\<^sup>2 - c\<^sup>2) / (c\<^sup>2 - ron\<^sup>2) ^ 3 * r)) (at r)"
proof -
  define D where "D = c\<^sup>2 - ron\<^sup>2"
  have D: "0 < D" using assms power_strict_mono [of ron c 2] by (simp add: D_def)
  define m where "m = max (r\<^sup>2 - ron\<^sup>2) 0"
  have q: "((\<lambda>x. x\<^sup>2 - ron\<^sup>2) has_real_derivative 2 * r) (at r)" by (auto intro!: derivative_eq_intros)
  have M: "((\<lambda>x. (max (x\<^sup>2 - ron\<^sup>2) 0)\<^sup>2) has_real_derivative 2 * m * (2 * r)) (at r)"
    unfolding m_def by (rule DERIV_chain2 [where f = "\<lambda>x. (max x 0)\<^sup>2" and g = "\<lambda>x. x\<^sup>2 - ron\<^sup>2", OF positive_part_deriv q])
  have L: "((\<lambda>x. 3 * D - 2 * (x\<^sup>2 - ron\<^sup>2)) has_real_derivative - (4 * r)) (at r)" by (auto intro!: derivative_eq_intros)
  have d: "((\<lambda>x. 1 - (max (x\<^sup>2 - ron\<^sup>2) 0)\<^sup>2 * (3 * D - 2 * (x\<^sup>2 - ron\<^sup>2)) / D ^ 3) has_real_derivative
      0 - (2 * m * (2 * r) * (3 * D - 2 * (r\<^sup>2 - ron\<^sup>2)) + - (4 * r) * m\<^sup>2) / D ^ 3) (at r)"
    unfolding m_def by (intro DERIV_diff DERIV_const DERIV_cdivide DERIV_mult M [unfolded m_def] L)
  have e: "1 - (max (x\<^sup>2 - ron\<^sup>2) 0)\<^sup>2 * (3 * D - 2 * (x\<^sup>2 - ron\<^sup>2)) / D ^ 3 = xplor_S ron c x" if "x \<in> {0<..<c}" for x
    using xplor_S_alt [OF assms(1,2), of x] that by (simp add: D_def)
  have "(xplor_S ron c has_real_derivative 0 - (2 * m * (2 * r) * (3 * D - 2 * (r\<^sup>2 - ron\<^sup>2)) + - (4 * r) * m\<^sup>2) / D ^ 3) (at r)"
    by (rule has_field_derivative_transform_within_open [OF d open_greaterThanLessThan _ e]) (use assms in auto)
  moreover have "0 - (2 * m * (2 * r) * (3 * D - 2 * (r\<^sup>2 - ron\<^sup>2)) + - (4 * r) * m\<^sup>2) / D ^ 3
      = (if r < ron then 0 else 12 * (r\<^sup>2 - ron\<^sup>2) * (r\<^sup>2 - c\<^sup>2) / D ^ 3 * r)"
  proof (cases "r < ron")
    case True
    then have "m = 0" using assms power_mono [of r ron 2] by (simp add: m_def)
    then show ?thesis using True by simp
  next
    case False
    then have m: "m = r\<^sup>2 - ron\<^sup>2" using assms power_mono [of ron r 2] by (simp add: m_def)
    have "r\<^sup>2 - c\<^sup>2 = m - D" by (simp add: m D_def)
    then show ?thesis unfolding m [symmetric] using False D
      by (simp add: divide_simps) (simp add: algebra_simps power2_eq_square)
  qed
  ultimately show ?thesis by (simp only: D_def)
qed

lemma kernel_inside:
  assumes "admissible p" "computes p" "min_distance p < r" "r < c" "0 \<le> ron"
  shows "pair_kernel mode (ron\<^sup>2) (c\<^sup>2) p (r\<^sup>2) = Evaluated
    (if mode = Xplor \<and> ron \<le> r then xplor_S ron c r * pair_force p c r - 12 * (r\<^sup>2 - ron\<^sup>2) * (r\<^sup>2 - c\<^sup>2) / (c\<^sup>2 - ron\<^sup>2) ^ 3 * potential p c r
     else pair_force p c r) (U_computed mode ron c p r)"
proof -
  have r: "0 < r" "0 < c" using assms(3,4) pp.lo_nonneg [of p] by linarith+
  have sq: "ron\<^sup>2 \<le> r\<^sup>2 \<longleftrightarrow> ron \<le> r" "c\<^sup>2 < ron\<^sup>2 \<longleftrightarrow> c < ron" "r\<^sup>2 < c\<^sup>2"
    using r assms(4,5) power_mono_iff [of ron r 2] power_mono_iff [of ron c 2] sq_less [of r c] by (simp_all add: not_le [symmetric])
  have k: "(c\<^sup>2 - ron\<^sup>2) * (c\<^sup>2 - ron\<^sup>2) * (c\<^sup>2 - ron\<^sup>2) = (c\<^sup>2 - ron\<^sup>2) ^ 3"
    "(r\<^sup>2 - c\<^sup>2) * (r\<^sup>2 - c\<^sup>2) = (c\<^sup>2 - r\<^sup>2)\<^sup>2" by (simp_all add: power3_eq_cube power2_eq_square algebra_simps)
  note E = pp.eval_inside [OF assms(1-4)]
  show ?thesis
  proof (cases "mode = Xplor \<and> ron \<le> r")
    case True
    then have "ron < c" using assms(4) by linarith
    then show ?thesis using True assms(4) unfolding pair_kernel_def Let_def E
      by (simp add: sq xplor_smooth_def Let_def k xplor_S_def U_computed_def)
  next
    case False
    then show ?thesis unfolding pair_kernel_def Let_def E
      by (cases mode) (auto simp: sq U_computed_def shift_applied_def xplor_S_def)
  qed
qed

lemma U_computed_deriv:
  assumes "admissible p" "computes p" "min_distance p < r" "r < c" "0 \<le> ron"
  shows "(U_computed mode ron c p has_real_derivative - (force_divr (pair_kernel mode (ron\<^sup>2) (c\<^sup>2) p (r\<^sup>2)) * r)) (at r)"
proof -
  have r: "0 < r" "0 < c" using assms(3,4) pp.lo_nonneg [of p] by linarith+
  note V = pp.V_deriv [OF assms(1-3) r(2)]
  show ?thesis
  proof (cases "mode = Xplor \<and> ron < c")
    case True
    note S = xplor_S_deriv [OF assms(5) conjunct2 [OF True] r(1) assms(4)]
    have u: "U_computed mode ron c p = (\<lambda>x. xplor_S ron c x * potential p c x)" using True by (simp add: U_computed_def fun_eq_iff)
    have one: "r < ron \<Longrightarrow> xplor_S ron c r = 1" by (simp add: xplor_S_def)
    show ?thesis unfolding u kernel_inside [OF assms]
      by (rule DERIV_cong [OF DERIV_mult [OF S V]]) (use True one in \<open>auto simp: algebra_simps\<close>)
  next
    case False
    have "\<exists>k. U_computed mode ron c p = (\<lambda>x. potential p c x - k)"
      using False by (intro exI [of _ "if shift_applied mode ron c p then potential p c c else 0"]) (auto simp: U_computed_def fun_eq_iff)
    then obtain k where u: "U_computed mode ron c p = (\<lambda>x. potential p c x - k)" by blast
    have n: "\<not> (mode = Xplor \<and> ron \<le> r)" using False assms(4) by auto
    show ?thesis unfolding u kernel_inside [OF assms] if_not_P [OF n] pair_result.sel
      by (rule DERIV_cong [OF DERIV_diff [OF V DERIV_const]]) simp
  qed
qed

lemma U_computed_vanishes:
  assumes "admissible p" "computes p" "min_distance p < c" "0 \<le> ron" "mode \<noteq> No_shift" "mode_supported mode ron c p"
  shows "(U_computed mode ron c p \<longlongrightarrow> 0) (at_left c)"
proof -
  have c: "0 < c" using assms(3) pp.lo_nonneg [of p] by linarith
  have "isCont (potential p c) c" using pp.V_deriv [OF assms(1-3) c] DERIV_isCont by blast
  then have V: "(potential p c \<longlongrightarrow> potential p c c) (at_left c)"
    by (auto simp: isCont_def intro: filterlim_at_split [THEN iffD1, THEN conjunct1])
  show ?thesis
  proof (cases "mode = Xplor \<and> ron < c")
    case True
    have "((\<lambda>x. (c\<^sup>2 - x\<^sup>2)\<^sup>2 * (c\<^sup>2 + 2 * x\<^sup>2 - 3 * ron\<^sup>2) / (c\<^sup>2 - ron\<^sup>2) ^ 3 * potential p c x)
        \<longlongrightarrow> (c\<^sup>2 - c\<^sup>2)\<^sup>2 * (c\<^sup>2 + 2 * c\<^sup>2 - 3 * ron\<^sup>2) / (c\<^sup>2 - ron\<^sup>2) ^ 3 * potential p c c) (at_left c)"
      using True assms(4) power_strict_mono [of ron c 2] by (intro tendsto_intros V) simp
    then have t: "((\<lambda>x. (c\<^sup>2 - x\<^sup>2)\<^sup>2 * (c\<^sup>2 + 2 * x\<^sup>2 - 3 * ron\<^sup>2) / (c\<^sup>2 - ron\<^sup>2) ^ 3 * potential p c x) \<longlongrightarrow> 0) (at_left c)" by simp
    have "\<forall>\<^sub>F x in at_left c. (c\<^sup>2 - x\<^sup>2)\<^sup>2 * (c\<^sup>2 + 2 * x\<^sup>2 - 3 * ron\<^sup>2) / (c\<^sup>2 - ron\<^sup>2) ^ 3 * potential p c x = U_computed mode ron c p x"
      using eventually_at_left_real [OF conjunct2 [OF True]] by eventually_elim (use True in \<open>simp add: U_computed_def xplor_S_def\<close>)
    then show ?thesis using t by (rule Lim_transform_eventually [rotated])
  next
    case False
    then have "U_computed mode ron c p = (\<lambda>x. potential p c x - potential p c c)"
      using assms(5,6) by (cases mode) (auto simp: U_computed_def shift_applied_def mode_supported_def fun_eq_iff)
    then show ?thesis using tendsto_diff [OF V tendsto_const [of "potential p c c"]] by simp
  qed
qed

section \<open>The correction for the truncation\<close>

lemma sq_powr: "0 < x \<Longrightarrow> (x\<^sup>2) powr (3 / 2) = (x :: real) ^ 3"
  by (simp add: powr_powr flip: powr_numeral)

lemma LRC_energy_eq: "0 < x \<Longrightarrow> evalEnergyLRCIntegral (LJ s e) (x\<^sup>2) = 4 * e * s ^ 12 / 9 * (1 / x) ^ 9 - 4 * e * s ^ 6 / 3 * (1 / x) ^ 3"
  by (simp add: Let_def sq_powr; simp add: power_numeral_reduce field_simps)

lemma LRC_pressure_eq: "0 < x \<Longrightarrow> evalPressureLRCIntegral (LJ s e) (x\<^sup>2) = 16 * e * s ^ 12 / 3 * (1 / x) ^ 9 - 8 * e * s ^ 6 * (1 / x) ^ 3"
  by (simp add: Let_def sq_powr; simp add: power_numeral_reduce field_simps)

lemma two_inverse_powers:
  assumes "0 < (c :: real)" "\<And>x. 0 < x \<Longrightarrow> g x = a * (1 / x) ^ 9 - b * (1 / x) ^ 3"
  shows "(g has_real_derivative - (9 * a / c ^ 10 - 3 * b / c ^ 4)) (at c)" "(g \<longlongrightarrow> 0) at_top"
proof -
  have d: "((\<lambda>x. a * (1 / x) ^ 9 - b * (1 / x) ^ 3) has_real_derivative - (9 * a / c ^ 10 - 3 * b / c ^ 4)) (at c)"
    using assms(1) by (auto intro!: derivative_eq_intros simp: field_simps power_numeral_reduce)
  show "(g has_real_derivative - (9 * a / c ^ 10 - 3 * b / c ^ 4)) (at c)"
    by (rule has_field_derivative_transform_within_open [OF d open_greaterThan [of 0]]) (use assms in auto)
  have i: "((\<lambda>x :: real. 1 / x) \<longlongrightarrow> 0) at_top"
    by (intro tendsto_divide_0 [OF tendsto_const] filterlim_at_top_imp_at_infinity filterlim_ident)
  have "((\<lambda>x. a * (1 / x) ^ 9 - b * (1 / x) ^ 3) \<longlongrightarrow> a * 0 ^ 9 - b * 0 ^ 3) at_top" by (intro tendsto_intros i)
  then have t: "((\<lambda>x. a * (1 / x) ^ 9 - b * (1 / x) ^ 3) \<longlongrightarrow> 0) at_top" by simp
  have "\<forall>\<^sub>F x in at_top. a * (1 / x) ^ 9 - b * (1 / x) ^ 3 = g x"
    using eventually_gt_at_top [of 0] by eventually_elim (simp only: assms(2))
  then show "(g \<longlongrightarrow> 0) at_top" using t by (rule Lim_transform_eventually [rotated])
qed

section \<open>Properties\<close>

text \<open>C35: With every shifting mode, the force divided by the distance that the loop applies to a pair inside the cutoff is
  exactly the negative derivative of the energy of the pair divided by the distance, also where the smoothing starts; in
  particular the minus sign in front of the derivative of the smoothing function is right.  The energy is the documented one, and a shifted
  or smoothed energy tends to zero at the cutoff, with the exceptions that \<open>documented\<close> and \<open>mode_supported\<close> name: the evaluator \<open>TWF\<close>,
  a shift with the evaluators \<open>ZBL\<close> and \<open>Fourier\<close> that ignore it, and smoothing from a radius equal to the cutoff, where the documented
  shift is not applied.\<close>

theorem smoothed_force_correct:
  assumes "admissible p" "computes p" "min_distance p < r" "r < c" "0 \<le> ron"
  shows "(\<exists>f e. pair_kernel mode (ron\<^sup>2) (c\<^sup>2) p (r\<^sup>2) = Evaluated f e \<and>
      ((\<lambda>x. pair_eng (pair_kernel mode (ron\<^sup>2) (c\<^sup>2) p (x\<^sup>2))) has_real_derivative - (f * r)) (at r) \<and>
      (documented p \<and> mode_supported mode ron c p \<longrightarrow> e = U_pair mode ron c p r)) \<and>
    (mode \<noteq> No_shift \<and> mode_supported mode ron c p
      \<longrightarrow> ((\<lambda>x. pair_eng (pair_kernel mode (ron\<^sup>2) (c\<^sup>2) p (x\<^sup>2))) \<longlongrightarrow> 0) (at_left c))"
proof -
  have e: "U_computed mode ron c p x = pair_eng (pair_kernel mode (ron\<^sup>2) (c\<^sup>2) p (x\<^sup>2))" if "x \<in> {min_distance p<..<c}" for x
    using kernel_inside [OF assms(1,2) _ _ assms(5), of x] that by simp
  have lc: "min_distance p < c" using assms(3,4) by linarith
  have "((\<lambda>x. pair_eng (pair_kernel mode (ron\<^sup>2) (c\<^sup>2) p (x\<^sup>2))) has_real_derivative
      - (force_divr (pair_kernel mode (ron\<^sup>2) (c\<^sup>2) p (r\<^sup>2)) * r)) (at r)"
    by (rule has_field_derivative_transform_within_open [OF U_computed_deriv [OF assms] open_greaterThanLessThan _ e]) (use assms in auto)
  moreover have "((\<lambda>x. pair_eng (pair_kernel mode (ron\<^sup>2) (c\<^sup>2) p (x\<^sup>2))) \<longlongrightarrow> 0) (at_left c)"
    if "mode \<noteq> No_shift" "mode_supported mode ron c p"
  proof (rule Lim_transform_eventually [OF U_computed_vanishes [OF assms(1,2) lc assms(5) that]])
    show "\<forall>\<^sub>F x in at_left c. U_computed mode ron c p x = pair_eng (pair_kernel mode (ron\<^sup>2) (c\<^sup>2) p (x\<^sup>2))"
      using eventually_at_left_real [OF lc] by eventually_elim (rule e)
  qed
  ultimately show ?thesis using kernel_inside [OF assms, of mode] U_supported by auto
qed

theorem smoothed_force_correct_witness:
  "((\<lambda>x. pair_eng (pair_kernel Xplor (1\<^sup>2) (3\<^sup>2) (LJ 1 1) (x\<^sup>2))) has_real_derivative - 24) (at 1) \<and>
    ((\<lambda>x. pair_eng (pair_kernel Xplor (1\<^sup>2) (3\<^sup>2) (LJ 1 1) (x\<^sup>2))) \<longlongrightarrow> 0) (at_left 3)"
proof -
  have e: "pair_kernel Xplor (1\<^sup>2) (3\<^sup>2) (LJ 1 1) (1\<^sup>2) = Evaluated 24 0"
    by (simp add: pair_kernel_def eval_LJ_def xplor_smooth_def Let_def)
  show ?thesis using smoothed_force_correct [of "LJ 1 1" 1 3 1 Xplor] unfolding e by (auto simp: mode_supported_def)
qed

text \<open>C37: With a half neighbour list, in which every pair is stored once, the forces of the pairs of local particles cancel: the
  forces on all local particles add up to what the ghosts among the neighbours exert on them.  Their energies add up to the energies
  of the listed pairs of local particles and half the energies of the listed pairs with a ghost.  Without ghosts among the neighbours, the
  forces therefore add up to zero and the energies to the energies of the listed pairs.\<close>

theorem pair_third_law:
  assumes "computeForces rank nd cv nl d P = Some (r, P')" "nl_half nl" "m_nparticles d \<le> length (pp_force P)"
  shows "(\<Sum>k<m_nparticles d. pf_f (pp_force P' ! k))
      = (\<Sum>i<m_nparticles d. \<Sum>j\<leftarrow>neighbors nl i. if j < m_nparticles d then 0 else pf_f (act P d cv i j)) \<and>
    (\<Sum>k<m_nparticles d. pf_e (pp_force P' ! k))
      = (\<Sum>i<m_nparticles d. \<Sum>j\<leftarrow>neighbors nl i. if j < m_nparticles d then pair_energy P d i j else pair_energy P d i j / 2) \<and>
    ((\<forall>i<m_nparticles d. \<forall>j\<in>set (neighbors nl i). j < m_nparticles d) \<longrightarrow>
      (\<Sum>k<m_nparticles d. pf_f (pp_force P' ! k)) = 0 \<and>
      (\<Sum>k<m_nparticles d. pf_e (pp_force P' ! k)) = (\<Sum>i<m_nparticles d. \<Sum>j\<leftarrow>neighbors nl i. pair_energy P d i j))"
proof -
  note total = computeForces_result(1) [OF assms(1)] pf_sum [symmetric] pair_forces_total [OF assms(3,2)]
  have f: "(\<Sum>k<m_nparticles d. pf_f (pp_force P' ! k))
      = (\<Sum>i<m_nparticles d. \<Sum>j\<leftarrow>neighbors nl i. if j < m_nparticles d then 0 else pf_f (act P d cv i j))"
    unfolding total by (simp only: pf_sum pf_sum_list act_react_local)
  have e: "(\<Sum>k<m_nparticles d. pf_e (pp_force P' ! k))
      = (\<Sum>i<m_nparticles d. \<Sum>j\<leftarrow>neighbors nl i. if j < m_nparticles d then pair_energy P d i j else pair_energy P d i j / 2)"
    unfolding total by (simp only: pf_sum pf_sum_list act_react_local)
  have l: "(\<Sum>j\<leftarrow>js. if j < n then g j else h j) = (\<Sum>j\<leftarrow>js. g j)" if "\<forall>j\<in>set js. j < n" for js and n :: nat and g h :: "nat \<Rightarrow> 'b :: comm_monoid_add"
    using that by (intro arg_cong [of _ _ sum_list] map_cong) auto
  show ?thesis unfolding f e by (auto simp: l)
qed

text \<open>Two particles of one type in a tilted box.\<close>

definition demo_pair :: particle_data where
  "demo_pair = empty_particle_data\<lparr>m_global_box := demo_box, m_nparticles := 2, m_type_mapping := [''A''],
     ptl := [zero_element, zero_element\<lparr>p_pos := Vec3 1 0 0\<rparr>]\<rparr>"

definition demo_potential :: potential_pair where
  "demo_potential = snd (setRcut 0 0 3 (snd (setParams 0 0 (LJ 1 1) (PotentialPair (LJ 0 0) 2 demo_pair))))"

definition demo_half :: neighbor_list where
  "demo_half = \<lparr>nl_half = True, nl_n_neigh = [1, 0], nl_nlist = [1], nl_head_list = [0, 1]\<rparr>"

definition demo_full :: neighbor_list where
  "demo_full = \<lparr>nl_half = False, nl_n_neigh = [1, 1], nl_nlist = [1, 0], nl_head_list = [0, 1]\<rparr>"

lemma demo_simps:
  "m_nparticles demo_pair = 2" "length (pp_force demo_potential) = 2" "pp_ntypes demo_potential = 1" "\<not> pp_tail_correction demo_potential"
  "p_type (ptl demo_pair ! 0) = 0" "p_type (ptl demo_pair ! Suc 0) = 0"
  "neighbors demo_half 0 = [1]" "neighbors demo_half (Suc 0) = []" "neighbors demo_full 0 = [1]" "neighbors demo_full (Suc 0) = [0]"
  "displacement demo_pair 0 (Suc 0) = Vec3 (- 1) 0 0" "displacement demo_pair (Suc 0) 0 = Vec3 1 0 0"
  "pp_params demo_potential = [LJ 1 1]" "pp_rcutsq demo_potential = [9]" "pp_ronsq demo_potential = [0]" "pp_shift_mode demo_potential = No_shift"
  "nl_half demo_half" "\<not> nl_half demo_full"
  by (simp_all add: demo_pair_def demo_potential_def demo_half_def demo_full_def empty_particle_data_def setRcut_def setParams_def
      PotentialPair_def validateTypes_def obind_def getNTypes_def Let_def zero_element_def neighbors_def displacement_def demo_box_eq set_both_def typpair_idx_def
      minImage_def minImage_x_def minImage_y_def minImage_z_def vec_defs)

lemma demo_eval: "pair_eval demo_potential demo_pair 0 (Suc 0) = Evaluated 24 0"
  by (simp add: pair_eval_def Let_def demo_simps dot3_def pair_kernel_def eval_LJ_def typpair_idx_def)

lemma demo_computes:
  "computeForces 0 3 False demo_half demo_pair demo_potential
    = Some (Inr (), demo_potential\<lparr>pp_force := pair_forces demo_potential demo_pair demo_half False\<rparr>)"
  using demo_eval by (simp add: computeForces_def demo_simps computeTailCorrection_def atLeast0_lessThan_Suc numeral_2_eq_2)

theorem pair_third_law_witness:
  "pf_f (pair_forces demo_potential demo_pair demo_half False ! 0) + pf_f (pair_forces demo_potential demo_pair demo_half False ! 1) = 0"
  using pair_third_law [OF demo_computes] by (simp add: demo_simps numeral_2_eq_2 less_Suc_eq)

text \<open>C36: A full neighbour list, which stores every pair with both of its particles, gives every particle the same force,
  energy and virial as the half list, and the same result otherwise.  The neighbours may be ghosts.  The potential is any
  that results from constructing one, setting parameters and computing forces.  The displacement of a listed pair must change its
  sign when the particles are exchanged, which fails only if they are exactly half a box apart (\<open>displacement_swap\<close>).\<close>

theorem half_full_agree:
  assumes "pp_reach P" "completes (m_nparticles d) half full" "m_nparticles d \<le> length (pp_force P)"
    "\<forall>k<m_nparticles d. p_type (ptl d ! k) < pp_ntypes P"
    "\<forall>k<m_nparticles d. \<forall>j\<in>set (neighbors full k). displacement d j k = - displacement d k j \<and> p_type (ptl d ! j) < pp_ntypes P"
    "computeForces rank nd cv half d P = Some (r, P1)"
  shows "\<exists>P2. computeForces rank nd cv full d P = Some (r, P2) \<and> P2 = P1\<lparr>pp_force := pp_force P2\<rparr> \<and>
    (\<forall>k<m_nparticles d. pp_force P2 ! k = pp_force P1 ! k)"
proof -
  let ?N = "m_nparticles d"
  note sym = pp_reach_sym [OF assms(1)] and F = computeForces_result [OF assms(6)]
  have flip: "pair_eval P d i k = pair_eval P d k i \<and> react P d cv i k = act P d cv k i" if "i < ?N" "k < ?N" "k \<in> set (neighbors half i)" for i k
  proof -
    have "k \<in> set (neighbors full i)" using completes_set [OF assms(2) that(1)] that(3) by blast
    then have "displacement d k i = - displacement d i k" using assms(5) that(1) by blast
    then show ?thesis using pair_eval_sym [OF sym] react_is_act [OF sym] assms(4) that(1,2) by metis
  qed
  have "pair_eval P d k j \<noteq> Infinite" if "k < ?N" "j \<in> set (neighbors full k)" for k j
    using completes_set [OF assms(2) that(1)] that F(2) flip by (metis (no_types, lifting) Un_iff mem_Collect_eq)
  then have n: "\<not> (\<exists>i\<in>{0..<?N}. \<exists>j\<in>set (neighbors full i). pair_eval P d i j = Infinite)" by auto
  obtain P0 where P0: "computeTailCorrection rank nd cv d P = (r, P0)" "P1 = P0\<lparr>pp_force := pair_forces P d half cv\<rparr>" using F(3) by blast
  have c: "computeForces rank nd cv full d P = Some (r, P0\<lparr>pp_force := pair_forces P d full cv\<rparr>)"
    unfolding computeForces_def if_not_P [OF n] tail_force P0(1) by simp
  have "pair_forces P d full cv ! k = pair_forces P d half cv ! k" if "k < ?N" for k
    using completes_forces [OF assms(2,3) that, of cv] flip that by metis
  then show ?thesis using c P0(2) by auto
qed

lemma demo_reach: "pp_reach demo_potential"
  unfolding demo_potential_def by (metis pp_reach.new pp_reach.params pp_reach.rcut prod.collapse)

theorem half_full_agree_witness:
  "\<exists>P2. computeForces 0 3 False demo_full demo_pair demo_potential = Some (Inr (), P2) \<and>
    pp_force P2 ! 1 = pair_forces demo_potential demo_pair demo_half False ! 1"
proof -
  have c: "completes (m_nparticles demo_pair) demo_half demo_full"
    by (simp add: completes_def listed_by_def demo_simps numeral_2_eq_2 less_Suc_eq)
  show ?thesis using half_full_agree [OF demo_reach c _ _ _ demo_computes]
    by (auto simp: demo_simps numeral_2_eq_2 less_Suc_eq vec_defs)
qed

text \<open>C38: The long-range corrections of the Lennard-Jones evaluator are the integrals from the cutoff to infinity they stand
  for: of the energy times the squared distance, and of the force times the cubed distance.  As functions of the cutoff they
  have the negative integrand as derivative and vanish at infinity.\<close>

theorem tail_integrals_correct:
  assumes "0 < c"
  shows "((\<lambda>x. evalEnergyLRCIntegral (LJ s e) (x\<^sup>2)) has_real_derivative - (potential (LJ s e) c c * c\<^sup>2)) (at c) \<and>
    ((\<lambda>x. evalEnergyLRCIntegral (LJ s e) (x\<^sup>2)) \<longlongrightarrow> 0) at_top \<and>
    ((\<lambda>x. evalPressureLRCIntegral (LJ s e) (x\<^sup>2)) has_real_derivative - (pair_force (LJ s e) c c * c * c ^ 3)) (at c) \<and>
    ((\<lambda>x. evalPressureLRCIntegral (LJ s e) (x\<^sup>2)) \<longlongrightarrow> 0) at_top"
proof -
  note E = two_inverse_powers [OF assms, of "\<lambda>x. evalEnergyLRCIntegral (LJ s e) (x\<^sup>2)", OF LRC_energy_eq]
    and W = two_inverse_powers [OF assms, of "\<lambda>x. evalPressureLRCIntegral (LJ s e) (x\<^sup>2)", OF LRC_pressure_eq]
  have e: "- (9 * (4 * e * s ^ 12 / 9) / c ^ 10 - 3 * (4 * e * s ^ 6 / 3) / c ^ 4) = - (potential (LJ s e) c c * c\<^sup>2)"
    using assms by (simp add: lj_energy_def) (simp add: field_simps power_numeral_reduce)
  have w: "- (9 * (16 * e * s ^ 12 / 3) / c ^ 10 - 3 * (8 * e * s ^ 6) / c ^ 4) = - (pair_force (LJ s e) c c * c * c ^ 3)"
    using assms by (simp add: lj_force_def) (simp add: field_simps power_numeral_reduce)
  show ?thesis using E W unfolding e w by blast
qed

theorem tail_integrals_correct_witness:
  "((\<lambda>x. evalEnergyLRCIntegral (LJ 1 1) (x\<^sup>2)) has_real_derivative 63 / 256) (at 2)"
proof -
  have "- (potential (LJ 1 1) 2 2 * 2\<^sup>2) = 63 / 256" by (simp add: lj_energy_def power_divide)
  then show ?thesis using conjunct1 [OF tail_integrals_correct [of 2 1 1]] by (simp only: zero_less_numeral)
qed

end
