(* ===== verification/PotentialBond.thy ===== *)
theory PotentialBond
  imports PairSums BondedGroupData
begin

text \<open>
  Model of \<open>hoomd/md/PotentialBond.h\<close> and of the evaluators \<open>EvaluatorBondHarmonic.h\<close>, \<open>EvaluatorBondFENE.h\<close> and
  \<open>EvaluatorBondTether.h\<close>: bond forces from the bonded groups, the particle data and the box, over exact real numbers.  The locale
  \<open>bond_contract\<close> states what an evaluator promises and is interpreted for all three; the loop over the bonds is shown to throw
  exactly for incomplete or broken bonds and to add up what every bond contributes.
\<close>

section \<open>Evaluators\<close>

text \<open>Zero parameters are those of a new array of parameters.  The parameters of the FENE bond are stored by the code as
  \<open>4 * epsilon\<close> and \<open>sigma ^ 6\<close>.\<close>

datatype bond_evaluator = Harmonic real real | FENE real real real real real | Tether real real real real real

text \<open>A force that is not finite is replaced by zero; it is not finite only for particles at the same place.\<close>

definition eval_Harmonic :: "real \<Rightarrow> real \<Rightarrow> real \<Rightarrow> pair_result" where
  "eval_Harmonic K r_0 rsq = (let r = sqrt rsq; force_divr = (if r = 0 then 0 else K * (r_0 / r - 1))
     in Evaluated force_divr (1 / 2 * K * (r_0 - r) * (r_0 - r)))"

text \<open>\<open>Skipped\<close> is the return value \<open>false\<close>, \<open>Infinite\<close> a result that is not a number.\<close>

definition eval_FENE :: "real \<Rightarrow> real \<Rightarrow> real \<Rightarrow> real \<Rightarrow> real \<Rightarrow> real \<Rightarrow> pair_result" where
  "eval_FENE K r_0 eps sigma delta rsq = (let
     sigma_6 = sigma * sigma * sigma * sigma * sigma * sigma; lj1 = 4 * eps * sigma_6 * sigma_6; lj2 = 4 * eps * sigma_6;
     r = sqrt rsq; rtemp = r - delta; rmdoverr = rtemp / r; rsq = rtemp * rtemp;
     r2inv = 1 / rsq; r6inv = r2inv * r2inv * r2inv; sigma6inv = lj2 / lj1; epsilon = lj2 * lj2 / 4 / lj1;
     wca = lj1 \<noteq> 0 \<and> r6inv > sigma6inv / 2;
     WCAforcemag_divr = (if wca then r2inv * r6inv * (12 * lj1 * r6inv - 6 * lj2) else 0);
     pair_eng = (if wca then r6inv * (lj1 * r6inv - lj2) + epsilon else 0)
     in if K \<noteq> 0 \<and> rsq \<ge> r_0 * r_0 then Skipped
        else if r = 0 \<or> lj1 \<noteq> 0 \<and> rtemp = 0 then Infinite
        else if K \<noteq> 0 then Evaluated (WCAforcemag_divr * rmdoverr + - K / (1 - rsq / (r_0 * r_0)) * rmdoverr)
          (pair_eng + - (1 / 2) * K * (r_0 * r_0) * ln (1 - rsq / (r_0 * r_0)))
        else Evaluated (WCAforcemag_divr * rmdoverr) pair_eng)"

definition eval_Tether :: "real \<Rightarrow> real \<Rightarrow> real \<Rightarrow> real \<Rightarrow> real \<Rightarrow> real \<Rightarrow> pair_result" where
  "eval_Tether k_b l_min l_c1 l_c0 l_max rsq = (let r = sqrt rsq;
     U_att = (if r > l_c0 then k_b * (exp (1 / (l_c0 - r)) / (l_max - r)) else 0);
     F_att = (if r > l_c0 then k_b * (((r - l_max) * exp (1 / (l_c0 - r)) / (l_c0 - r) / (l_c0 - r) - exp (1 / (l_c0 - r)))
       / (l_max - r) / (l_max - r)) else 0);
     U_rep = (if r < l_c1 then k_b * (exp (1 / (r - l_c1)) / (r - l_min)) else 0);
     F_rep = (if r < l_c1 then k_b * (((r - l_min) * exp (1 / (r - l_c1)) / (r - l_c1) / (r - l_c1) + exp (1 / (r - l_c1)))
       / (r - l_min) / (r - l_min)) else 0)
     in if k_b \<noteq> 0 then if rsq \<ge> l_max * l_max then Skipped else if rsq \<le> l_min * l_min then Skipped
          else Evaluated ((F_att + F_rep) / r) (U_att + U_rep)
        else Evaluated 0 0)"

fun evalBond :: "bond_evaluator \<Rightarrow> real \<Rightarrow> pair_result" where
  "evalBond (Harmonic K r_0) = eval_Harmonic K r_0"
| "evalBond (FENE K r_0 eps sigma delta) = eval_FENE K r_0 eps sigma delta"
| "evalBond (Tether k_b l_min l_c1 l_c0 l_max) = eval_Tether k_b l_min l_c1 l_c0 l_max"

section \<open>Parameters and the loop over the bonds\<close>

record potential_bond =
  pb_params :: "bond_evaluator list"
  pb_force :: "pforce list"

text \<open>\<open>param\<close> is the evaluator with zero parameters; \<open>n_force\<close> is the size of the force array.\<close>

definition PotentialBond :: "bond_evaluator \<Rightarrow> nat \<Rightarrow> bonded_data \<Rightarrow> potential_bond" where
  "PotentialBond param n_force b = \<lparr>pb_params = replicate (length (m_group_types b)) param, pb_force = replicate n_force 0\<rparr>"

definition validateType :: "string \<Rightarrow> bonded_data \<Rightarrow> nat \<Rightarrow> potential_bond \<Rightarrow> (unit, potential_bond) outcome" where
  "validateType what b t P = (if t \<ge> length (m_group_types b)
     then (Inl (Runtime_error (''Invalid bond type specified.'' @ ''Error '' @ what @ '' in PotentialBond'')), P) else (Inr (), P))"

definition bond_setParams :: "bonded_data \<Rightarrow> nat \<Rightarrow> bond_evaluator \<Rightarrow> potential_bond \<Rightarrow> (unit, potential_bond) outcome" where
  "bond_setParams b t param P = obind (validateType ''setting params'' b t P)
     (\<lambda>_ P. (Inr (), P\<lparr>pb_params := (pb_params P)[t := param]\<rparr>))"

definition bond_getParams :: "bonded_data \<Rightarrow> string \<Rightarrow> potential_bond \<Rightarrow> (bond_evaluator, potential_bond) outcome" where
  "bond_getParams b name P = obind (bg_getTypeByName name b, P)
     (\<lambda>t P. obind (validateType ''getting params'' b t P) (\<lambda>_ P. (Inr (pb_params P ! t), P)))"

definition bond_idx :: "particle_data \<Rightarrow> bonded_group \<Rightarrow> nat \<Rightarrow> nat" where
  "bond_idx d g k = rtag_at (g_members g ! k) d"

definition bond_complete :: "particle_data \<Rightarrow> bonded_group \<Rightarrow> bool" where
  "bond_complete d g \<longleftrightarrow> (let max_local = m_nparticles d + m_nghosts d in \<not> (bond_idx d g 0 \<ge> max_local \<or> bond_idx d g 1 \<ge> max_local))"

definition bond_vector :: "particle_data \<Rightarrow> bonded_group \<Rightarrow> scalar3" where
  "bond_vector d g = minImage (m_global_box d) (p_pos (ptl d ! bond_idx d g 1) - p_pos (ptl d ! bond_idx d g 0))"

definition bond_eval :: "potential_bond \<Rightarrow> particle_data \<Rightarrow> bonded_group \<Rightarrow> pair_result" where
  "bond_eval P d g = (let dx = bond_vector d g in evalBond (pb_params P ! tv_type (g_typeval g)) (dot3 dx dx))"

text \<open>What a bond adds to its second particle if \<open>dir\<close> is 1, and to its first particle if it is -1.\<close>

definition bond_pull :: "bool \<Rightarrow> scalar3 \<Rightarrow> real \<Rightarrow> real \<Rightarrow> real \<Rightarrow> pforce" where
  "bond_pull compute_virial dx dir f bond_eng = (let f2 = 1 / 2 * f in
     PForce (Vec3 (dir * (f * vx dx)) (dir * (f * vy dx)) (dir * (f * vz dx))) (bond_eng * (1 / 2))
     (if compute_virial then Vec3 (vx dx * vx dx * f2) (vx dx * vy dx * f2) (vx dx * vz dx * f2) else 0)
     (if compute_virial then Vec3 (vy dx * vy dx * f2) (vy dx * vz dx * f2) (vz dx * vz dx * f2) else 0))"

definition add_local :: "particle_data \<Rightarrow> nat \<Rightarrow> pforce \<Rightarrow> pforce list \<Rightarrow> pforce list" where
  "add_local d i x force = (if i < m_nparticles d then force[i := force ! i + x] else force)"

text \<open>An exception leaves the forces of the bonds before it; the result is \<open>None\<close> if the sums are not numbers.\<close>

fun bond_loop :: "potential_bond \<Rightarrow> particle_data \<Rightarrow> bool \<Rightarrow> bonded_group list \<Rightarrow> pforce list \<Rightarrow> (unit, pforce list) outcome option" where
  "bond_loop P d compute_virial [] force = Some (Inr (), force)"
| "bond_loop P d compute_virial (g # gs) force = (
     if \<not> bond_complete d g then Some (Inl (Runtime_error (''Error: bond '' @ nat_str (g_members g ! 0) @ '' ''
       @ nat_str (g_members g ! 1) @ '' is incomplete.'')), force)
     else case bond_eval P d g of
       Skipped \<Rightarrow> Some (Inl (Runtime_error ''Error in bond calculation''), force)
     | Infinite \<Rightarrow> None
     | Evaluated f e \<Rightarrow> bond_loop P d compute_virial gs
         (add_local d (bond_idx d g 0) (bond_pull compute_virial (bond_vector d g) (- 1) f e)
           (add_local d (bond_idx d g 1) (bond_pull compute_virial (bond_vector d g) 1 f e) force)))"

definition bond_computeForces :: "bool \<Rightarrow> bonded_data \<Rightarrow> particle_data \<Rightarrow> potential_bond \<Rightarrow> (unit, potential_bond) outcome option" where
  "bond_computeForces compute_virial b d P = (case
     bond_loop P d compute_virial (take (m_n_groups b) (m_groups b)) (replicate (length (pb_force P)) 0) of
       None \<Rightarrow> None | Some (r, force) \<Rightarrow> Some (r, P\<lparr>pb_force := force\<rparr>))"

section \<open>The contract of an evaluator\<close>

text \<open>\<open>V r\<close> is the energy at distance \<open>r\<close> and \<open>F r\<close> the force divided by \<open>r\<close>; \<open>inside\<close> holds where the bond is defined,
  \<open>broken\<close> where its length is not allowed.\<close>

locale bond_contract =
  fixes eval :: "real \<Rightarrow> pair_result" and inside broken :: "real \<Rightarrow> bool" and V F :: "real \<Rightarrow> real"
  assumes inside_open: "open {x. inside x}"
    and eval_inside: "inside x \<Longrightarrow> eval (x\<^sup>2) = Evaluated (F x) (V x)"
    and eval_broken: "0 < x \<Longrightarrow> broken x \<Longrightarrow> eval (x\<^sup>2) = Skipped"
    and V_deriv: "inside x \<Longrightarrow> (V has_real_derivative - (F x * x)) (at x)"
begin

lemma bond_force_is_derivative:
  assumes "inside x"
  shows "((\<lambda>y. pair_eng (eval (y\<^sup>2))) has_real_derivative - (F x * x)) (at x)"
  by (rule has_field_derivative_transform_within_open [OF V_deriv [OF assms] inside_open]) (use assms eval_inside in auto)

end

text \<open>The documented energies, and where they are defined.\<close>

definition wca_energy :: "real \<Rightarrow> real \<Rightarrow> real \<Rightarrow> real" where
  "wca_energy s e t = (if t < root 6 2 * s then 4 * e * ((s / t) ^ 12 - (s / t) ^ 6) + e else 0)"

fun bond_potential :: "bond_evaluator \<Rightarrow> real \<Rightarrow> real" where
  "bond_potential (Harmonic K r_0) = (\<lambda>r. 1 / 2 * K * (r - r_0)\<^sup>2)"
| "bond_potential (FENE K r_0 eps sigma delta) =
     (\<lambda>r. - (1 / 2) * K * r_0\<^sup>2 * ln (1 - ((r - delta) / r_0)\<^sup>2) + wca_energy sigma eps (r - delta))"
| "bond_potential (Tether k_b l_min l_c1 l_c0 l_max) =
     (\<lambda>r. (if r > l_c0 then k_b * (exp (1 / (l_c0 - r)) / (l_max - r)) else 0)
        + (if r < l_c1 then k_b * (exp (1 / (r - l_c1)) / (r - l_min)) else 0))"

fun bond_inside :: "bond_evaluator \<Rightarrow> real \<Rightarrow> bool" where
  "bond_inside (Harmonic K r_0) r = (0 < r)"
| "bond_inside (FENE K r_0 eps sigma delta) r = (0 < sigma \<and> 0 < r \<and> delta < r \<and> (K \<noteq> 0 \<longrightarrow> r - delta < r_0))"
| "bond_inside (Tether k_b l_min l_c1 l_c0 l_max) r = (0 \<le> l_min \<and> l_min < r \<and> r < l_max)"

fun bond_broken :: "bond_evaluator \<Rightarrow> real \<Rightarrow> bool" where
  "bond_broken (Harmonic K r_0) r = False"
| "bond_broken (FENE K r_0 eps sigma delta) r = (K \<noteq> 0 \<and> 0 \<le> r_0 \<and> r_0 \<le> r - delta)"
| "bond_broken (Tether k_b l_min l_c1 l_c0 l_max) r = (k_b \<noteq> 0 \<and> (0 \<le> l_max \<and> l_max \<le> r \<or> r \<le> l_min))"

section \<open>Every evaluator keeps the contract\<close>

lemma wca_condition:
  assumes "0 < t" "0 < (s :: real)"
  shows "t < root 6 2 * s \<longleftrightarrow> 1 < 2 * (s / t) ^ 6"
proof -
  have "t < root 6 2 * s \<longleftrightarrow> t ^ 6 < (root 6 2 * s) ^ 6"
    using power_mono_iff [of "root 6 2 * s" t 6] assms by (simp add: not_le [symmetric])
  also have "(root 6 2 * s) ^ 6 = 2 * s ^ 6" by (simp add: power_mult_distrib)
  finally show ?thesis using assms by (simp add: power_divide field_simps)
qed

lemma wca_alt: "0 < t \<Longrightarrow> 0 < s \<Longrightarrow> wca_energy s e t = e * (max (2 * (s / t) ^ 6 - 1) 0)\<^sup>2"
  by (simp add: wca_energy_def wca_condition max_def)
   (simp add: power2_eq_square algebra_simps flip: power_add)

lemma wca_deriv:
  assumes "0 < t" "0 < s"
  shows "(wca_energy s e has_real_derivative - (24 * e * s ^ 6 / t ^ 7 * max (2 * (s / t) ^ 6 - 1) 0)) (at t)"
proof -
  have "((\<lambda>t. 2 * (s / t) ^ Suc 5 - 1) has_real_derivative 2 * - (real (Suc 5) * s ^ Suc 5 / t ^ (5 + 2)) - 0) (at t)"
    using assms by (intro DERIV_diff DERIV_cmult quotient_power_deriv DERIV_const) simp
  then have q: "((\<lambda>t. 2 * (s / t) ^ 6 - 1) has_real_derivative - (12 * s ^ 6 / t ^ 7)) (at t)" by simp
  note m = DERIV_cmult [OF DERIV_chain2 [where f = "\<lambda>x. (max x 0)\<^sup>2" and g = "\<lambda>t. 2 * (s / t) ^ 6 - 1", OF positive_part_deriv q], of e]
  have "(wca_energy s e has_real_derivative e * (2 * max (2 * (s / t) ^ 6 - 1) 0 * - (12 * s ^ 6 / t ^ 7))) (at t)"
    by (rule has_field_derivative_transform_within_open [OF m open_greaterThan [of 0]]) (use assms wca_alt in auto)
  then show ?thesis by (rule DERIV_cong) simp
qed

text \<open>The function that switches the parts of the tether on.\<close>

definition switch :: "real \<Rightarrow> real" where
  "switch h = (if 0 < h then exp (- (1 / h)) else 0)"

lemma switch_deriv: "(switch has_real_derivative (if 0 < h then exp (- (1 / h)) / h\<^sup>2 else 0)) (at h)"
proof -
  consider "h < 0" | "0 < h" | "h = 0" by linarith
  then show ?thesis
  proof cases
    case 1
    have "(switch has_real_derivative 0) (at h)"
      by (rule has_field_derivative_transform_within_open [OF DERIV_const open_lessThan [of 0]]) (use 1 in \<open>auto simp: switch_def\<close>)
    then show ?thesis using 1 by simp
  next
    case 2
    have d: "((\<lambda>h. exp (- (1 / h))) has_real_derivative exp (- (1 / h)) / h\<^sup>2) (at h)"
      using 2 by (auto intro!: derivative_eq_intros simp: power2_eq_square)
    have "(switch has_real_derivative exp (- (1 / h)) / h\<^sup>2) (at h)"
      by (rule has_field_derivative_transform_within_open [OF d open_greaterThan [of 0]]) (use 2 in \<open>auto simp: switch_def\<close>)
    then show ?thesis using 2 by simp
  next
    case 3
    have "((\<lambda>x :: real. x ^ 1 / exp x) \<longlongrightarrow> 0) at_top" by (rule tendsto_power_div_exp_0)
    from filterlim_compose [OF this filterlim_inverse_at_top_right]
    have "((\<lambda>x :: real. inverse x ^ 1 / exp (inverse x)) \<longlongrightarrow> 0) (at_right 0)" .
    then have r: "((\<lambda>x. switch x / x) \<longlongrightarrow> 0) (at_right 0)"
      by (rule Lim_transform_eventually)
        (use eventually_at_right_less [of 0] in \<open>eventually_elim, simp add: switch_def exp_minus field_simps\<close>)
    have l: "((\<lambda>x. switch x / x) \<longlongrightarrow> 0) (at_left 0)"
      by (rule Lim_transform_eventually [OF tendsto_const])
        (use eventually_at_left_real [of "- 1" 0] in \<open>auto simp: switch_def elim!: eventually_mono\<close>)
    have "((\<lambda>x. switch x / x) \<longlongrightarrow> 0) (at 0)" using l r by (simp add: filterlim_at_split)
    then show ?thesis using 3 by (simp add: DERIV_def switch_def)
  qed
qed

lemma quotient_sign:
  "\<sigma> = 1 \<or> \<sigma> = (- 1 :: real) \<Longrightarrow> y \<noteq> 0 \<Longrightarrow> ((D * \<sigma>) * (\<sigma> * y) - s * - \<sigma>) / ((\<sigma> * y) * (\<sigma> * y)) = D / y + \<sigma> * s / y\<^sup>2"
  by (auto simp: power2_eq_square field_simps)

lemma switch_quotient_deriv:
  assumes "\<sigma> = 1 \<or> \<sigma> = (- 1 :: real)" "r \<noteq> b"
  shows "((\<lambda>r. k * (switch (\<sigma> * (r - a)) / (\<sigma> * (b - r)))) has_real_derivative
    k * ((if 0 < \<sigma> * (r - a) then exp (- (1 / (\<sigma> * (r - a)))) / (\<sigma> * (r - a))\<^sup>2 else 0) / (b - r) + \<sigma> * switch (\<sigma> * (r - a)) / (b - r)\<^sup>2)) (at r)"
proof -
  have "((\<lambda>r. \<sigma> * (r - a)) has_real_derivative \<sigma>) (at r)" by (auto intro!: derivative_eq_intros)
  note s = DERIV_chain2 [where f = switch and g = "\<lambda>r. \<sigma> * (r - a)", OF switch_deriv this]
  have l: "((\<lambda>r. \<sigma> * (b - r)) has_real_derivative - \<sigma>) (at r)" by (auto intro!: derivative_eq_intros)
  have n: "\<sigma> * (b - r) \<noteq> 0" using assms by auto
  show ?thesis
    by (rule DERIV_cong [OF DERIV_cmult [OF DERIV_divide [OF s l n]]]) (use assms in \<open>simp only: quotient_sign right_minus_eq not_sym\<close>)
qed

fun bond_force :: "bond_evaluator \<Rightarrow> real \<Rightarrow> real" where
  "bond_force (Harmonic K r_0) = (\<lambda>r. K * (r_0 / r - 1))"
| "bond_force (FENE K r_0 eps sigma delta) = (\<lambda>r. (24 * eps * sigma ^ 6 / (r - delta) ^ 7 * max (2 * (sigma / (r - delta)) ^ 6 - 1) 0
     - K * (r - delta) / (1 - ((r - delta) / r_0)\<^sup>2)) / r)"
| "bond_force (Tether k_b l_min l_c1 l_c0 l_max) = (\<lambda>r. (k_b * (if l_c0 < r then ((r - l_max) * exp (1 / (l_c0 - r)) / (l_c0 - r)\<^sup>2
        - exp (1 / (l_c0 - r))) / (l_max - r)\<^sup>2 else 0)
     + k_b * (if r < l_c1 then ((r - l_min) * exp (1 / (r - l_c1)) / (r - l_c1)\<^sup>2 + exp (1 / (r - l_c1))) / (r - l_min)\<^sup>2 else 0)) / r)"

abbreviation bond_contract_of :: "bond_evaluator \<Rightarrow> bool" where
  "bond_contract_of p \<equiv> bond_contract (evalBond p) (bond_inside p) (bond_broken p) (bond_potential p) (bond_force p)"

lemma Harmonic_bond: "bond_contract_of (Harmonic K r_0)"
proof (unfold_locales, goal_cases)
  case 1
  show ?case using open_greaterThan [of "0 :: real"] by (simp add: greaterThan_def)
next
  case (2 x)
  then show ?case by (simp add: eval_Harmonic_def Let_def) (simp add: power2_eq_square field_simps)
next
  case (4 x)
  then show ?case by (auto intro!: derivative_eq_intros simp: field_simps)
qed simp

lemma FENE_inside_set: "{x. bond_inside (FENE K r_0 eps sigma delta) x}
    = (if 0 < sigma then {max 0 delta<..} \<inter> (if K \<noteq> 0 then {..<r_0 + delta} else UNIV) else {})"
  by auto

lemma FENE_wca:
  fixes eps sigma t x :: real
  assumes "0 < t" "0 < sigma"
  defines "lj1 \<equiv> 4 * eps * sigma ^ 6 * sigma ^ 6" and "lj2 \<equiv> 4 * eps * sigma ^ 6" and "r6inv \<equiv> 1 / (t * t) * (1 / (t * t)) * (1 / (t * t))"
  shows "(if lj1 \<noteq> 0 \<and> lj2 / lj1 / 2 < r6inv then 1 / (t * t) * r6inv * (12 * lj1 * r6inv - 6 * lj2) else 0) * (t / x)
      = 24 * eps * sigma ^ 6 / t ^ 7 * max (2 * (sigma / t) ^ 6 - 1) 0 / x" (is ?force)
    "(if lj1 \<noteq> 0 \<and> lj2 / lj1 / 2 < r6inv then r6inv * (lj1 * r6inv - lj2) + lj2 * lj2 / 4 / lj1 else 0) = wca_energy sigma eps t" (is ?energy)
proof -
  have r6: "r6inv = 1 / t ^ 6" unfolding r6inv_def by (simp add: power_numeral_reduce)
  have m: "max (2 * (sigma / t) ^ 6 - 1) 0 = (if t < root 6 2 * sigma then 2 * (sigma / t) ^ 6 - 1 else 0)"
    unfolding wca_condition [OF assms(1,2)] by simp
  have "?force \<and> ?energy"
  proof (cases "eps = 0")
    case True
    then show ?thesis by (simp add: lj1_def wca_energy_def)
  next
    case False
    have n: "lj1 \<noteq> 0" using False assms(2) by (simp add: lj1_def)
    have l: "lj2 / lj1 = 1 / sigma ^ 6" unfolding lj1_def lj2_def using assms(2) False by simp
    have c: "lj2 / lj1 / 2 < r6inv \<longleftrightarrow> t < root 6 2 * sigma"
      unfolding wca_condition [OF assms(1,2)] r6 l using assms(1,2) by (simp add: power_divide field_simps)
    have f: "1 / (t * t) * r6inv * (12 * lj1 * r6inv - 6 * lj2) * t = 24 * eps * sigma ^ 6 / t ^ 7 * (2 * (sigma / t) ^ 6 - 1)"
      unfolding r6 lj1_def lj2_def power_divide using assms(1) by (simp add: divide_simps) (simp add: algebra_simps power_numeral_reduce)
    have e: "lj2 * lj2 / 4 / lj1 = eps" unfolding lj1_def lj2_def using assms(2) False by simp
    have g: "r6inv * (lj1 * r6inv - lj2) + eps = 4 * eps * ((sigma / t) ^ 12 - (sigma / t) ^ 6) + eps"
      unfolding r6 lj1_def lj2_def power_divide using assms(1) by (simp add: divide_simps) (simp add: algebra_simps power_numeral_reduce)
    show ?thesis unfolding c m wca_energy_def e g times_divide_eq_right using n f by simp
  qed
  then show ?force ?energy by blast+
qed

lemma FENE_log_deriv:
  assumes "0 < t" "K \<noteq> 0 \<longrightarrow> t < r_0"
  shows "((\<lambda>t. - (1 / 2) * K * r_0\<^sup>2 * ln (1 - (t / r_0)\<^sup>2)) has_real_derivative K * t / (1 - (t / r_0)\<^sup>2)) (at t)"
proof (cases "K = 0")
  case False
  then have r: "0 < r_0" "t < r_0" using assms by auto
  then have "(t / r_0)\<^sup>2 < 1" using assms(1) by (simp add: power_divide power_strict_mono)
  then have p: "0 < 1 - (t / r_0)\<^sup>2" by simp
  have "((\<lambda>t. 1 - (t / r_0)\<^sup>2) has_real_derivative - (2 * t / r_0\<^sup>2)) (at t)"
    using r by (auto intro!: derivative_eq_intros simp: power2_eq_square)
  note d = DERIV_cmult [OF DERIV_chain2 [where f = ln and g = "\<lambda>t. 1 - (t / r_0)\<^sup>2", OF DERIV_ln_divide [OF p] this], of "- (1 / 2) * K * r_0\<^sup>2"]
  show ?thesis by (rule DERIV_cong [OF d]) (use r in simp)
qed simp

lemma six_product: "s * s * s * s * s * s = (s :: real) ^ 6"
  by (simp add: power_numeral_reduce)

lemma FENE_eval:
  assumes "0 < sigma" "0 < x" "delta < x" "K \<noteq> 0 \<longrightarrow> x - delta < r_0"
  shows "eval_FENE K r_0 eps sigma delta (x\<^sup>2) = Evaluated (bond_force (FENE K r_0 eps sigma delta) x) (bond_potential (FENE K r_0 eps sigma delta) x)"
proof -
  define t where "t = x - delta"
  have t: "0 < t" using assms(3) by (simp add: t_def)
  have x: "sqrt (x\<^sup>2) = x" using assms(2) by simp
  have k: "\<not> (K \<noteq> 0 \<and> r_0 * r_0 \<le> t * t)" using assms(4) t mult_strict_mono [of t r_0 t r_0] by (auto simp: t_def)
  have i: "\<not> (x = 0 \<or> 4 * eps * sigma ^ 6 * sigma ^ 6 \<noteq> 0 \<and> t = 0)" using assms(2) t by simp
  have s: "t * t / (r_0 * r_0) = (t / r_0)\<^sup>2" "r_0 * r_0 = r_0\<^sup>2" by (simp_all add: power2_eq_square)
  have d: "- K / y * (t / x) = - (K * t / y / x)" for y by simp
  show ?thesis unfolding eval_FENE_def Let_def six_product bond_force.simps bond_potential.simps x t_def [symmetric]
    if_not_P [OF k] if_not_P [OF i] FENE_wca [OF t assms(1)] s(1) unfolding s(2) d
    by (cases "K = 0") (simp_all add: diff_divide_distrib)
qed

lemma FENE_bond: "bond_contract_of (FENE K r_0 eps sigma delta)"
proof (unfold_locales, goal_cases)
  case 1
  show ?case unfolding FENE_inside_set by auto
next
  case (2 x)
  then show ?case using FENE_eval by simp
next
  case (3 x)
  then have "r_0 * r_0 \<le> (x - delta) * (x - delta)" by (intro mult_mono) auto
  then show ?case using 3 by (simp add: eval_FENE_def Let_def)
next
  case (4 x)
  then have t: "0 < x - delta" "0 < sigma" "K \<noteq> 0 \<longrightarrow> x - delta < r_0" "0 < x" by auto
  have i: "((\<lambda>x. x - delta) has_real_derivative 1) (at x)" by (auto intro!: derivative_eq_intros)
  note d = DERIV_add [OF DERIV_chain2 [where f = "\<lambda>t. - (1 / 2) * K * r_0\<^sup>2 * ln (1 - (t / r_0)\<^sup>2)", OF FENE_log_deriv [OF t(1,3)] i]
    DERIV_chain2 [where f = "wca_energy sigma eps", OF wca_deriv [OF t(1,2)] i]]
  show ?case unfolding bond_potential.simps by (rule DERIV_cong [OF d]) (use t in simp)
qed

lemma Tether_parts:
  "(\<lambda>r. (if r > l_c0 then k_b * (exp (1 / (l_c0 - r)) / (l_max - r)) else 0)) = (\<lambda>r. k_b * (switch (1 * (r - l_c0)) / (1 * (l_max - r))))"
  "(\<lambda>r. (if r < l_c1 then k_b * (exp (1 / (r - l_c1)) / (r - l_min)) else 0)) = (\<lambda>r. k_b * (switch (- 1 * (r - l_c1)) / (- 1 * (l_min - r))))"
proof -
  have m: "- (1 / (r - c)) = 1 / (c - r)" for r c :: real by (metis minus_diff_eq minus_divide_right)
  show "(\<lambda>r. (if r > l_c0 then k_b * (exp (1 / (l_c0 - r)) / (l_max - r)) else 0)) = (\<lambda>r. k_b * (switch (1 * (r - l_c0)) / (1 * (l_max - r))))"
    by (rule ext) (simp add: switch_def m)
  show "(\<lambda>r. (if r < l_c1 then k_b * (exp (1 / (r - l_c1)) / (r - l_min)) else 0)) = (\<lambda>r. k_b * (switch (- 1 * (r - l_c1)) / (- 1 * (l_min - r))))"
    by (rule ext) (simp add: switch_def m)
qed

lemma Tether_part_slopes:
  fixes r :: real
  assumes "r \<noteq> l_max" "r \<noteq> l_min"
  shows "k * ((if 0 < 1 * (r - a) then exp (- (1 / (1 * (r - a)))) / (1 * (r - a))\<^sup>2 else 0) / (l_max - r) + 1 * switch (1 * (r - a)) / (l_max - r)\<^sup>2)
      = - (k * (if a < r then ((r - l_max) * exp (1 / (a - r)) / (a - r)\<^sup>2 - exp (1 / (a - r))) / (l_max - r)\<^sup>2 else 0))" (is ?att)
    "k * ((if 0 < - 1 * (r - c) then exp (- (1 / (- 1 * (r - c)))) / (- 1 * (r - c))\<^sup>2 else 0) / (l_min - r) + - 1 * switch (- 1 * (r - c)) / (l_min - r)\<^sup>2)
      = - (k * (if r < c then ((r - l_min) * exp (1 / (r - c)) / (r - c)\<^sup>2 + exp (1 / (r - c))) / (r - l_min)\<^sup>2 else 0))" (is ?rep)
proof -
  have m: "- (1 / (r - a)) = 1 / (a - r)" "- (1 / (c - r)) = 1 / (r - c)" by (metis minus_diff_eq minus_divide_right)+
  have q: "E / z / y + E / y\<^sup>2 = - (((- y) * E / z - E) / y\<^sup>2)" "E / z / (- y) - E / y\<^sup>2 = - ((y * E / z + E) / y\<^sup>2)"
    if "y \<noteq> 0" for E y z :: real using that by (auto simp: power2_eq_square divide_simps)
  have p: "(r - a)\<^sup>2 = (a - r)\<^sup>2" "(c - r)\<^sup>2 = (r - c)\<^sup>2" "(l_min - r)\<^sup>2 = (r - l_min)\<^sup>2" by (simp_all add: power2_commute)
  show ?att using q(1) [of "l_max - r" "exp (1 / (a - r))" "(a - r)\<^sup>2"] assms by (simp add: switch_def m p)
  show ?rep using q(2) [of "r - l_min" "exp (1 / (r - c))" "(r - c)\<^sup>2"] assms by (simp add: switch_def m p)
qed

lemma Tether_bond: "bond_contract_of (Tether k_b l_min l_c1 l_c0 l_max)"
proof (unfold_locales, goal_cases)
  case 1
  have "{x. bond_inside (Tether k_b l_min l_c1 l_c0 l_max) x} = (if 0 \<le> l_min then {l_min<..<l_max} else {})" by auto
  then show ?case by simp
next
  case (2 x)
  then have x: "0 < x" "l_min < x" "x < l_max" "0 \<le> l_min" by auto
  have "\<not> l_max * l_max \<le> x\<^sup>2" "\<not> x\<^sup>2 \<le> l_min * l_min"
    using x power_strict_mono [of x l_max 2] power_strict_mono [of l_min x 2] by (simp_all add: power2_eq_square)
  then show ?case using x(1) by (cases "k_b = 0") (simp_all add: eval_Tether_def Let_def power2_eq_square)
next
  case (3 x)
  have "l_max * l_max \<le> x\<^sup>2 \<or> x\<^sup>2 \<le> l_min * l_min"
    using 3 mult_mono [of l_max x l_max x] mult_mono [of x l_min x l_min] by (auto simp: power2_eq_square)
  then show ?case using 3 by (auto simp: eval_Tether_def Let_def)
next
  case (4 x)
  then have n: "x \<noteq> l_max" "x \<noteq> l_min" "x \<noteq> 0" by auto
  note d = DERIV_add [OF switch_quotient_deriv [of 1 x l_max k_b l_c0, OF disjI1 [OF refl] n(1)]
    switch_quotient_deriv [of "- 1" x l_min k_b l_c1, OF disjI2 [OF refl] n(2)], unfolded Tether_part_slopes [OF n(1,2)]]
  have "(bond_potential (Tether k_b l_min l_c1 l_c0 l_max)) = (\<lambda>r. k_b * (switch (1 * (r - l_c0)) / (1 * (l_max - r)))
      + k_b * (switch (- 1 * (r - l_c1)) / (- 1 * (l_min - r))))"
    unfolding bond_potential.simps by (simp only: Tether_parts [THEN fun_cong])
  then show ?case unfolding bond_force.simps by (simp only:) (rule DERIV_cong [OF d], use n(3) in simp)
qed

lemma bond_contracts: "bond_contract_of p"
  by (cases p; simp only: Harmonic_bond FENE_bond Tether_bond)

interpretation bp: bond_contract "evalBond p" "bond_inside p" "bond_broken p" "bond_potential p" "bond_force p" for p
  by (rule bond_contracts)

section \<open>The forces of all bonds\<close>

definition bond_share :: "potential_bond \<Rightarrow> particle_data \<Rightarrow> bool \<Rightarrow> nat \<Rightarrow> bonded_group \<Rightarrow> pforce" where
  "bond_share P d cv k g = (case bond_eval P d g of
     Evaluated f e \<Rightarrow> (if bond_idx d g 1 = k then bond_pull cv (bond_vector d g) 1 f e else 0)
       + (if bond_idx d g 0 = k then bond_pull cv (bond_vector d g) (- 1) f e else 0)
   | _ \<Rightarrow> 0)"

definition bond_energy :: "potential_bond \<Rightarrow> particle_data \<Rightarrow> bonded_group \<Rightarrow> real" where
  "bond_energy P d g = (case bond_eval P d g of Evaluated f e \<Rightarrow> e | _ \<Rightarrow> 0)"

definition bond_ok :: "potential_bond \<Rightarrow> particle_data \<Rightarrow> bonded_group \<Rightarrow> bool" where
  "bond_ok P d g \<longleftrightarrow> bond_complete d g \<and> bond_eval P d g \<noteq> Skipped"

lemma add_local_nth:
  "k < m_nparticles d \<Longrightarrow> m_nparticles d \<le> length force \<Longrightarrow> add_local d i x force ! k = force ! k + (if i = k then x else 0)"
  "length (add_local d i x force) = length force"
  by (auto simp: add_local_def)

lemma bond_loop_result:
  assumes "\<forall>g\<in>set gs. bond_eval P d g \<noteq> Infinite" "m_nparticles d \<le> length force"
  shows "\<exists>r F. bond_loop P d cv gs force = Some (r, F) \<and> length F = length force \<and> (r = Inr () \<longleftrightarrow> list_all (bond_ok P d) gs) \<and>
    (r = Inr () \<longrightarrow> (\<forall>k<m_nparticles d. F ! k = force ! k + (\<Sum>g\<leftarrow>gs. bond_share P d cv k g)))"
  using assms
proof (induction gs arbitrary: force)
  case (Cons g gs)
  show ?case
  proof (cases "bond_ok P d g")
    case True
    then obtain f e where fe: "bond_eval P d g = Evaluated f e" using Cons.prems(1) by (cases "bond_eval P d g") (auto simp: bond_ok_def)
    define force' where "force' = add_local d (bond_idx d g 0) (bond_pull cv (bond_vector d g) (- 1) f e)
        (add_local d (bond_idx d g 1) (bond_pull cv (bond_vector d g) 1 f e) force)"
    have l: "length force' = length force" by (simp add: force'_def add_local_nth)
    have v: "force' ! k = force ! k + bond_share P d cv k g" if "k < m_nparticles d" for k
      using that Cons.prems(2) by (simp add: force'_def add_local_nth bond_share_def fe add.assoc)
    have s: "bond_loop P d cv (g # gs) force = bond_loop P d cv gs force'" using True fe by (simp add: bond_ok_def force'_def)
    show ?thesis using Cons.IH [of force'] Cons.prems True unfolding s l by (auto simp: v add.assoc)
  next
    case False
    then show ?thesis using Cons.prems(1) by (auto simp: bond_ok_def split: pair_result.split)
  qed
qed simp

lemma bond_share_total:
  assumes "bond_idx d g 0 < n" "bond_idx d g 1 < n"
  shows "(\<Sum>k<n. pf_f (bond_share P d cv k g)) = 0" "(\<Sum>k<n. pf_e (bond_share P d cv k g)) = bond_energy P d g"
proof -
  have "(\<Sum>k<n. bond_share P d cv k g) = (case bond_eval P d g of
      Evaluated f e \<Rightarrow> bond_pull cv (bond_vector d g) 1 f e + bond_pull cv (bond_vector d g) (- 1) f e | _ \<Rightarrow> 0)"
    using assms by (auto simp: bond_share_def sum.distrib split: pair_result.split)
  then have "pf_f (\<Sum>k<n. bond_share P d cv k g) = 0 \<and> pf_e (\<Sum>k<n. bond_share P d cv k g) = bond_energy P d g"
    by (auto simp: bond_energy_def bond_pull_def Let_def plus_vec3_def zero_vec3_def split: pair_result.split)
  then show "(\<Sum>k<n. pf_f (bond_share P d cv k g)) = 0" "(\<Sum>k<n. pf_e (bond_share P d cv k g)) = bond_energy P d g"
    by (simp_all add: pf_sum)
qed

lemma bond_totals:
  assumes "\<forall>g\<in>set gs. bond_idx d g 0 < n \<and> bond_idx d g 1 < n"
  shows "(\<Sum>k<n. pf_f (\<Sum>g\<leftarrow>gs. bond_share P d cv k g)) = 0" "(\<Sum>k<n. pf_e (\<Sum>g\<leftarrow>gs. bond_share P d cv k g)) = (\<Sum>g\<leftarrow>gs. bond_energy P d g)"
  using assms by (induction gs) (simp_all add: sum.distrib bond_share_total)

section \<open>Properties\<close>

text \<open>C39: Where a bond is defined, the harmonic, FENE and tether evaluators return the documented energy, and as force divided by
  the distance exactly the negative derivative of that energy divided by the distance, also where the repulsion of a FENE bond
  ends and where the parts of a tether begin.  A bond that is too long, or too short for a tether, is refused.\<close>

theorem bond_force_correct:
  assumes "0 < r"
  shows "(bond_inside p r \<longrightarrow> (\<exists>f. evalBond p (r\<^sup>2) = Evaluated f (bond_potential p r) \<and>
      ((\<lambda>x. pair_eng (evalBond p (x\<^sup>2))) has_real_derivative - (f * r)) (at r))) \<and>
    (bond_broken p r \<longrightarrow> evalBond p (r\<^sup>2) = Skipped)"
  using bp.eval_inside [of p r] bp.bond_force_is_derivative [of p r] bp.eval_broken [OF assms, of p] by blast

theorem bond_force_correct_witness:
  "((\<lambda>x. pair_eng (evalBond (Harmonic 2 1) (x\<^sup>2))) has_real_derivative 4) (at 3) \<and> evalBond (FENE 1 2 1 1 0) (3\<^sup>2) = Skipped \<and>
    (\<exists>f. evalBond (Tether 10 (9 / 10) (6 / 5) (9 / 5) (21 / 10)) ((9 / 5)\<^sup>2) = Evaluated f 0)"
proof -
  have "evalBond (Harmonic 2 1) (3\<^sup>2) = Evaluated (- 4 / 3) 4" by (simp add: eval_Harmonic_def Let_def)
  then have "((\<lambda>x. pair_eng (evalBond (Harmonic 2 1) (x\<^sup>2))) has_real_derivative 4) (at 3)"
    using bond_force_correct [of 3 "Harmonic 2 1"] by auto
  moreover have "evalBond (FENE 1 2 1 1 0) (3\<^sup>2) = Skipped" using bond_force_correct [of 3 "FENE 1 2 1 1 0"] by simp
  moreover have "bond_inside (Tether 10 (9 / 10) (6 / 5) (9 / 5) (21 / 10)) (9 / 5)"
    "bond_potential (Tether 10 (9 / 10) (6 / 5) (9 / 5) (21 / 10)) (9 / 5) = 0" by simp_all
  then have "\<exists>f. evalBond (Tether 10 (9 / 10) (6 / 5) (9 / 5) (21 / 10)) ((9 / 5)\<^sup>2) = Evaluated f 0"
    using bond_force_correct [of "9 / 5" "Tether 10 (9 / 10) (6 / 5) (9 / 5) (21 / 10)"] by auto
  ultimately show ?thesis by blast
qed

text \<open>C40: Computing the bond forces throws exactly if a bond has a member that is neither local nor a ghost, or a length that is
  not allowed.  Otherwise the force, energy and virial of every local particle is the sum of what its bonds contribute, and if
  all members are local, the forces add up to zero and the energies to the energies of the bonds.\<close>

theorem bond_forces_correct:
  assumes "gs = take (m_n_groups b) (m_groups b)" "\<forall>g\<in>set gs. bond_eval P d g \<noteq> Infinite" "m_nparticles d \<le> length (pb_force P)"
  shows "\<exists>r P'. bond_computeForces cv b d P = Some (r, P') \<and> pb_params P' = pb_params P \<and>
    (r = Inr () \<longleftrightarrow> (\<forall>g\<in>set gs. bond_complete d g \<and> bond_eval P d g \<noteq> Skipped)) \<and>
    (r = Inr () \<longrightarrow> (\<forall>k<m_nparticles d. pb_force P' ! k = (\<Sum>g\<leftarrow>gs. bond_share P d cv k g)) \<and>
      ((\<forall>g\<in>set gs. bond_idx d g 0 < m_nparticles d \<and> bond_idx d g 1 < m_nparticles d) \<longrightarrow>
        (\<Sum>k<m_nparticles d. pf_f (pb_force P' ! k)) = 0 \<and>
        (\<Sum>k<m_nparticles d. pf_e (pb_force P' ! k)) = (\<Sum>g\<leftarrow>gs. bond_energy P d g)))"
proof -
  let ?n = "m_nparticles d" and ?z = "replicate (length (pb_force P)) 0 :: pforce list"
  obtain r F where F: "bond_loop P d cv gs ?z = Some (r, F)" "r = Inr () \<longleftrightarrow> list_all (bond_ok P d) gs"
    "r = Inr () \<longrightarrow> (\<forall>k<?n. F ! k = ?z ! k + (\<Sum>g\<leftarrow>gs. bond_share P d cv k g))"
    using bond_loop_result [OF assms(2), of ?z cv] assms(3) by auto
  have v: "F ! k = (\<Sum>g\<leftarrow>gs. bond_share P d cv k g)" if "r = Inr ()" "k < ?n" for k using F(3) that assms(3) by simp
  have "bond_computeForces cv b d P = Some (r, P\<lparr>pb_force := F\<rparr>)" using F(1) by (simp add: bond_computeForces_def assms(1))
  then show ?thesis using F(2) v bond_totals [of gs d ?n P cv] by (intro exI [of _ r] exI [of _ "P\<lparr>pb_force := F\<rparr>"])
    (simp add: list_all_iff bond_ok_def)
qed

text \<open>The two particles of the pair example, with a bond between them.\<close>

definition demo_bonded :: particle_data where
  "demo_bonded = demo_pair\<lparr>m_rtag := \<lparr>hv_buf = [0, 1], hv_size = 2\<rparr>\<rparr>"

definition demo_bonds :: bonded_data where
  "demo_bonds = (BondedGroupData 2 ''bond'' True [''A''])\<lparr>m_groups := [\<lparr>g_members = [0, 1], g_typeval = Type 0, g_tag = 0, g_ranks = []\<rparr>],
     m_groups_size := 1, m_n_groups := 1\<rparr>"

definition demo_bond_potential :: potential_bond where
  "demo_bond_potential = snd (bond_setParams demo_bonds 0 (Harmonic 2 3) (PotentialBond (Harmonic 0 0) 2 demo_bonds))"

lemma demo_bond:
  "take (m_n_groups demo_bonds) (m_groups demo_bonds) = [\<lparr>g_members = [0, 1], g_typeval = Type 0, g_tag = 0, g_ranks = []\<rparr>]"
  "m_nparticles demo_bonded = 2" "length (pb_force demo_bond_potential) = 2" "pb_params demo_bond_potential = [Harmonic 2 3]"
  by (simp_all add: demo_bonds_def demo_bonded_def demo_bond_potential_def bond_setParams_def validateType_def PotentialBond_def
      BondedGroupData_def bg_initialize_def demo_pair_def obind_def Let_def)

lemma demo_bond_eval:
  assumes "g = \<lparr>g_members = [0, 1], g_typeval = Type 0, g_tag = 0, g_ranks = []\<rparr>"
  shows "bond_idx demo_bonded g 0 = 0" "bond_idx demo_bonded g 1 = 1" "bond_complete demo_bonded g"
    "bond_eval demo_bond_potential demo_bonded g = Evaluated 4 4"
  by (simp_all add: assms bond_eval_def bond_vector_def bond_idx_def bond_complete_def demo_bond rtag_at_def demo_bonded_def demo_pair_def
      empty_particle_data_def zero_element_def demo_box_eq minImage_def minImage_x_def minImage_y_def minImage_z_def vec_defs dot3_def
      eval_Harmonic_def Let_def)

theorem bond_forces_correct_witness:
  "\<exists>P'. bond_computeForces False demo_bonds demo_bonded demo_bond_potential = Some (Inr (), P') \<and>
    pf_f (pb_force P' ! 0) + pf_f (pb_force P' ! 1) = 0 \<and> pf_e (pb_force P' ! 0) + pf_e (pb_force P' ! 1) = 4"
  using bond_forces_correct [of _ demo_bonds demo_bond_potential demo_bonded False, OF refl, unfolded demo_bond(1)] demo_bond_eval [OF refl]
  by (auto simp: demo_bond bond_energy_def numeral_2_eq_2)

end
