(* ===== verification/Spec2Isabelle.thy ===== *)
theory Spec2Isabelle
  imports HOOMD_Prelude GPUArray GPUVector Index1D BoxDim TagTable ParticleData ParticleTags ParticleMigration ParticleSnapshot ParticleAccess Autotuner Trigger SystemRun BondedGroupData BondedGroups BondedTables BondedSnapshot BondedRanks AABBTree AABBQueries Variant PairPotentials PairForces PotentialPair PairSums PotentialBond
begin

text \<open>
  \<^bold>\<open>Verification of the core of HOOMD-blue\<close>

  HOOMD-blue is a particle simulation engine in C++.  A simulation holds its particles and bonded groups in arrays that are
  mirrored between host and device, identifies them by tags that survive reordering, migration between MPI ranks and
  removal, places them in a triclinic periodic box, and advances them in a loop that asks triggers which operations to execute.
  This development models that core and proves it correct.  All file names are relative to \<open>src/hoomd\<close>.

  \<^bold>\<open>Conventions.\<close>  A method is a function on the state of its object, a \<open>record\<close> with the source's fields.  A method that can
  throw returns an \<open>outcome\<close>: an exception or a value, together with the state it leaves behind, so that what a failed call
  has already changed is visible (\<open>HOOMD_Prelude\<close>; \<open>obind\<close> sequences such calls).  Sequences of operations are run by \<open>run_ops\<close>, and
  the locale \<open>refinement\<close> proves once that a simulation of single operations extends to sequences; it is interpreted for array handles,
  vectors, the particle tags and the bonded groups.

  \<^bold>\<open>Parts\<close>

  \<^item> \<open>GPUArray\<close> models \<open>GPUArray.h\<close>: host and device copies, the location of the current data, \<open>acquire\<close> and \<open>release\<close> in all access modes,
    construction, copy, move, swap and the resize routines.  Sessions on either side behave as on one plain array; resizing keeps the
    data in one and two dimensions.
  \<^item> \<open>GPUVector\<close> (\<open>GPUVector.h\<close>) is a vector on top of it: every sequence of operations refines a list.
  \<^item> \<open>Index1D\<close> (\<open>Index1D.h\<close>): the index maps in 32-bit arithmetic are bijections as long as the number of elements fits.
  \<^item> \<open>BoxDim\<close> (\<open>BoxDim.h\<close>): fractional coordinates, minimum image on host and device, wrapping, images, plane distances.
  \<^item> \<open>ParticleData\<close> models \<open>ParticleData.cc\<close> and \<open>.h\<close>.  \<open>TagTable\<close> has the invariant of a reverse table of tags, shared with the
    bonded groups.  \<open>ParticleTags\<close>: insertion, removal and lookup refine a finite map from tags to particles, exactly for all fields that
    survive a reallocation.  \<open>ParticleMigration\<close>:
    an inductive step relation on the states of all ranks, its invariant, and conservation of particles.  \<open>ParticleSnapshot\<close>:
    loading and taking snapshots.  \<open>ParticleAccess\<close>: the accessors.
  \<^item> \<open>BondedGroupData\<close> models \<open>BondedGroupData.cc\<close> and \<open>.h\<close> for groups of any size.  \<open>BondedGroups\<close> refines it to a map from tags to groups,
    \<open>BondedTables\<close> proves the table of groups per particle, \<open>BondedSnapshot\<close> snapshots and their replication, \<open>BondedRanks\<close> which
    groups every rank holds while particles migrate.
  \<^item> \<open>AABBTree\<close> models \<open>AABB.h\<close> and \<open>AABBTree.h\<close>.  \<open>AABBQueries\<close> relates the array of nodes to a binary tree in preorder and shows that a query
    after any updates finds every overlapping particle.
  \<^item> \<open>Autotuner\<close> (\<open>Autotuner.h\<close>, \<open>Autotuned.h\<close>), \<open>Trigger\<close> (\<open>Trigger.h\<close>) and \<open>SystemRun\<close> (\<open>System.cc\<close>): the scan of kernel parameters on all ranks and its completion, triggers
    as shared objects with caches, and the run loop, which executes exactly the schedule that the triggers select.
  \<^item> \<open>Variant\<close> (\<open>Variant.h\<close>): quantities that vary with the time step, with 64-bit steps that may overflow.
  \<^item> \<open>PairPotentials\<close> models the energy and force of twenty evaluators \<open>md/EvaluatorPair*.h\<close>.  \<open>PairForces\<close> states their contract as the
    locale \<open>pair_potential\<close> and interprets it for all of them: the energy, which except for \<open>TWF\<close> is the documented one, and the force as its exact derivative.
  \<^item> \<open>PotentialPair\<close> models \<open>md/PotentialPair.h\<close>: parameters per pair of types, the force loop over a neighbour list, smoothing and shifting,
    and the tail correction.  \<open>PairSums\<close> expresses the force array as a sum over listed pairs and derives the third law and the agreement of half
    and full lists, and shows that the forces belong to the smoothed and shifted energies, which are the documented ones where the code supports the mode.
  \<^item> \<open>PotentialBond\<close> models \<open>md/PotentialBond.h\<close> with three evaluators \<open>md/EvaluatorBond*.h\<close>, whose contract is the locale \<open>bond_contract\<close>, and
    shows when computing the bond forces throws and what the forces are otherwise.

  \<^bold>\<open>Termination, bounds and fuel.\<close>  Loops are structural or well-founded recursion.  The evaluation of triggers follows references
  that may be nested; its recursion is bounded by the number of triggers in the store, which is enough whenever the references have
  no cycle.  The loops of the tree over links (\<open>updateSkip\<close>, \<open>update_parents\<close>, \<open>count_parents\<close>) are partial functions, and the theorems
  on queries prove that building and updating return.  The search of \<open>takeSnapshot\<close> through the reverse table is proved to end
  before the table does.

  \<^bold>\<open>Numbers.\<close>  Indices and time steps whose overflow matters are kept at their width; \<open>Scalar\<close> is a real number, so that rounding is
  outside the development.  A theorem that compares real values holds for the formulas of the code, not for the
  last digits of a result.  Where the code would divide by zero, the statement excludes it or the model has a separate result.

  \<^bold>\<open>Parameters.\<close>  The HIP runtime is a parameter of \<open>GPUArray\<close> (whether a call fails, what a copy transfers), memory allocation one of the tree,
  and the other ranks of a collective MPI call are explicit states or messages.  Triggers and updaters written in Python are functions.

  \<^bold>\<open>Not modelled\<close>

  \<^item> Device kernels (\<open>*.cu\<close>), unified memory, device discovery, MPI start-up and file formats: what they do is decided by the HIP
    and MPI libraries and by the GSD library, which are not part of the sources.
  \<^item> The communicator: its asynchronous exchange of buffers; what it requires of the particle data and the bonded groups is modelled.
  \<^item> Neighbour lists, angle and many-body potentials, integration methods, Monte Carlo moves and collision dynamics.  Their results depend on
    accumulated rounding and on random numbers, and their correctness is statistical; of the molecular dynamics only the pair and bond forces are modelled.
  \<^item> The Python layer and vendored libraries.
  \<^item> Within modelled files: wall clock times, messages, bindings to Python, and initialization of the particle data from a
    snapshot with a domain decomposition.  The manifest lists for every component what is left out.
\<close>

end
